(* ===== verification/Prelude.thy ===== *)
theory Prelude
  imports Main "HOL-Library.Word" "HOL-Library.Char_ord" "HOL-Library.List_Lexorder"
begin

unbundle bit_operations_syntax

text \<open>
  The shared vocabulary of the development: names for the machine types the C++ sources use,
  the byte order of a 32-bit word in memory, the \<open>bswap_32\<close> macro of \<open>byteswap.h\<close>, the first-hit
  search by name that the configuration containers are built on, and the outcome type of code
  whose execution may run into undefined behaviour, throw or wait forever.
\<close>

named_theorems byte_defs \<open>definitions that expose the bytes of a machine word\<close>
named_theorems cstring_simps \<open>equations on C strings and their in-place editing\<close>

subsection \<open>Machine types\<close>

text \<open>
  The programs are built with g++ for a little-endian machine with 32-bit \<open>int\<close>, 64-bit \<open>long\<close>
  and signed \<open>char\<close>. A \<open>char\<close> or \<open>std::string\<close> element used as text is an Isabelle \<open>char\<close>
  (a byte); a \<open>char\<close> used as a number is an 8-bit word read with \<open>sint\<close>.
\<close>

type_synonym byte = "8 word"
type_synonym u8 = "8 word"
type_synonym u16 = "16 word"
type_synonym u32 = "32 word"

subsection \<open>Byte order\<close>

definition bswap_32 :: "u32 \<Rightarrow> u32" where
  "bswap_32 x = drop_bit 24 (x AND 0xFF000000) OR drop_bit 8 (x AND 0x00FF0000) OR
                push_bit 8 (x AND 0x0000FF00) OR push_bit 24 (x AND 0x000000FF)"

text \<open>The four bytes of a \<open>uint32_t\<close> in memory order, and the word four bytes of memory hold.\<close>

definition bytes_of_word :: "u32 \<Rightarrow> byte list" where
  "bytes_of_word x =
     [ucast x, ucast (drop_bit 8 x), ucast (drop_bit 16 x), ucast (drop_bit 24 x)]"

fun word_of_bytes :: "byte list \<Rightarrow> u32" where
  "word_of_bytes [a, b, c, d] =
     ucast a OR push_bit 8 (ucast b) OR push_bit 16 (ucast c) OR push_bit 24 (ucast d)"
| "word_of_bytes _ = 0"

text \<open>The memory image of a \<open>std::vector<uint32_t>\<close>, and the whole words a buffer holds.\<close>

definition bytes_of_words :: "u32 list \<Rightarrow> byte list" where
  "bytes_of_words ws = concat (map bytes_of_word ws)"

fun words_of_bytes :: "byte list \<Rightarrow> u32 list" where
  "words_of_bytes (a # b # c # d # bs) = word_of_bytes [a, b, c, d] # words_of_bytes bs"
| "words_of_bytes _ = []"

subsection \<open>Outcomes of effectful code\<close>

text \<open>
  \<open>Done\<close> is a normal return; \<open>Throws\<close> an exception with its message; \<open>UB\<close> is undefined
  behaviour of C++ (an out-of-range read, a dangling pointer, a missing \<open>return\<close>); \<open>Blocks\<close>
  means that the call never returns because the input it waits for never arrives.
\<close>

datatype 'a outcome = Done 'a | Throws string | UB string | Blocks

fun obind :: "'a outcome \<Rightarrow> ('a \<Rightarrow> 'b outcome) \<Rightarrow> 'b outcome" where
  "obind (Done a) f = f a"
| "obind (Throws e) f = Throws e"
| "obind (UB e) f = UB e"
| "obind Blocks f = Blocks"

subsection \<open>The first element with a given name\<close>

text \<open>
  The containers of the configuration code are vectors searched front to back for the first
  element whose \<open>name\<close> field equals a string.
\<close>

fun find_first :: "('a \<Rightarrow> bool) \<Rightarrow> 'a list \<Rightarrow> nat option" where
  "find_first P [] = None"
| "find_first P (x # xs) = (if P x then Some 0 else map_option Suc (find_first P xs))"

subsection \<open>Lemmas on bytes\<close>

lemma byte_masks:
  "(0xFF000000::u32) = push_bit 24 (mask 8)" "(0xFF0000::u32) = push_bit 16 (mask 8)"
  "(0xFF00::u32) = push_bit 8 (mask 8)" "(0xFF::u32) = mask 8"
  by (simp_all add: mask_eq_exp_minus_1)

lemma unat_u16: "unat (w::u16) < 16 ^ 4"
  using unsigned_less [of w, where 'a = nat] by simp

lemma unat_u32: "unat (w::u32) < 16 ^ 8"
  using unsigned_less [of w, where 'a = nat] by simp

declare bytes_of_word_def [byte_defs] bytes_of_words_def [byte_defs]

lemma bit_position_cases:
  assumes "n < (32::nat)"
  obtains (b0) "n < 8" | (b1) j where "n = 8 + j" "j < 8" | (b2) j where "n = 16 + j" "j < 8"
    | (b3) j where "n = 24 + j" "j < 8"
proof -
  consider "n < 8" | "8 \<le> n \<and> n < 16" | "16 \<le> n \<and> n < 24" | "24 \<le> n" by linarith
  then show thesis
    by cases (use assms that(1) that(2) [of "n - 8"] that(3) [of "n - 16"] that(4) [of "n - 24"]
      in auto)
qed

lemma length_bytes_of_word [simp]: "length (bytes_of_word x) = 4"
  by (simp add: bytes_of_word_def)

lemma bytes_of_bswap_32: "bytes_of_word (bswap_32 x) = rev (bytes_of_word x)"
  by (auto simp: bytes_of_word_def bswap_32_def byte_masks bit_simps intro!: bit_word_eqI)

lemma word_of_bytes_of_word [simp]: "word_of_bytes (bytes_of_word x) = x"
proof (rule bit_word_eqI)
  fix n assume "n < LENGTH(32)"
  then have "n < 32" by simp
  then show "bit (word_of_bytes (bytes_of_word x)) n = bit x n"
    by (cases rule: bit_position_cases) (simp_all add: bytes_of_word_def bit_simps)
qed

lemma no_bit_beyond_byte: "8 \<le> n \<Longrightarrow> \<not> bit (b::byte) n"
  using bit_imp_le_length [of b n] by auto

lemma bytes_of_word_of_bytes: "bytes_of_word (word_of_bytes [a, b, c, d]) = [a, b, c, d]"
  by (auto simp: bytes_of_word_def bit_simps no_bit_beyond_byte intro!: bit_word_eqI)

lemma word_of_bytes_add:
  "word_of_bytes [a, b, c, d] =
     ucast a + push_bit 8 (ucast b) + push_bit 16 (ucast c) + push_bit 24 (ucast d)"
proof -
  have add: "x + y = x OR y" if "\<And>n. \<not> bit x n \<or> \<not> bit y n" for x y :: u32
    using that by (rule disjunctive_add)
  have 1: "ucast a + push_bit 8 (ucast b) = (ucast a OR push_bit 8 (ucast b) :: u32)"
    by (rule add) (auto simp: bit_simps dest: bit_imp_le_length)
  have 2: "(ucast a OR push_bit 8 (ucast b)) + push_bit 16 (ucast c) =
      ((ucast a OR push_bit 8 (ucast b)) OR push_bit 16 (ucast c) :: u32)"
    by (rule add) (auto simp: bit_simps dest!: bit_imp_le_length)
  have 3: "((ucast a OR push_bit 8 (ucast b)) OR push_bit 16 (ucast c)) + push_bit 24 (ucast d) =
      (((ucast a OR push_bit 8 (ucast b)) OR push_bit 16 (ucast c)) OR push_bit 24 (ucast d) :: u32)"
    by (rule add) (auto simp: bit_simps dest!: bit_imp_le_length)
  show ?thesis unfolding 1 2 3 by (simp add: or.assoc)
qed

lemma bswap_32_bswap_32 [simp]: "bswap_32 (bswap_32 x) = x"
  by (metis bytes_of_bswap_32 rev_rev_ident word_of_bytes_of_word)

lemma bswap_32_inject [simp]: "bswap_32 x = bswap_32 y \<longleftrightarrow> x = y"
  by (metis bswap_32_bswap_32)

lemma bytes_of_words_Nil [simp]: "bytes_of_words [] = []"
  by (simp add: bytes_of_words_def)

lemma bytes_of_words_Cons [simp]: "bytes_of_words (w # ws) = bytes_of_word w @ bytes_of_words ws"
  by (simp add: bytes_of_words_def)

lemma bytes_of_words_append [simp]:
  "bytes_of_words (xs @ ys) = bytes_of_words xs @ bytes_of_words ys"
  by (simp add: bytes_of_words_def)

lemma length_bytes_of_words [simp]: "length (bytes_of_words ws) = 4 * length ws"
  by (induction ws) auto

lemma words_of_bytes_of_word_append: "words_of_bytes (bytes_of_word w @ bs) = w # words_of_bytes bs"
  using word_of_bytes_of_word [of w] by (simp add: bytes_of_word_def del: word_of_bytes_of_word)

lemma words_of_bytes_of_words [simp]: "words_of_bytes (bytes_of_words ws) = ws"
  by (induction ws) (simp_all add: words_of_bytes_of_word_append)

lemma length_words_of_bytes [simp]: "length (words_of_bytes bs) = length bs div 4"
  by (induction bs rule: words_of_bytes.induct) simp_all

lemma take_4_add: "take (4 + m) (a # b # c # d # bs) = a # b # c # d # take m bs"
  by (simp add: numeral_eq_Suc)

lemma bytes_of_words_of_bytes:
  "bytes_of_words (words_of_bytes bs) = take (4 * (length bs div 4)) bs"
proof (induction bs rule: words_of_bytes.induct)
  case (1 a b c d bs)
  have "4 * (length (a # b # c # d # bs) div 4) = 4 + 4 * (length bs div 4)"
    by simp presburger
  then show ?case
    by (simp only: take_4_add words_of_bytes.simps bytes_of_words_Cons bytes_of_word_of_bytes "1.IH")
      simp
qed simp_all

subsection \<open>Lemmas on outcomes and searches\<close>

lemma obind_Done [simp]: "obind r Done = r"
  by (cases r) auto

lemma obind_assoc: "obind (obind r f) g = obind r (\<lambda>x. obind (f x) g)"
  by (cases r) auto

lemma obind_eq_Done: "obind r f = Done b \<longleftrightarrow> (\<exists>a. r = Done a \<and> f a = Done b)"
  by (cases r) auto

lemma find_first_Some:
  "find_first P xs = Some i \<longleftrightarrow> i < length xs \<and> P (xs ! i) \<and> (\<forall>j < i. \<not> P (xs ! j))"
proof (induction xs arbitrary: i)
  case (Cons x xs)
  then show ?case by (cases i) (auto simp: less_Suc_eq_0_disj)
qed simp

lemma find_first_None: "find_first P xs = None \<longleftrightarrow> (\<forall>x \<in> set xs. \<not> P x)"
  by (induction xs) auto

lemma find_first_bound: "find_first P xs = Some i \<Longrightarrow> i < length xs"
  by (simp add: find_first_Some)

lemma find_first_map: "find_first P (map f xs) = find_first (P \<circ> f) xs"
  by (induction xs) auto

end
