(* ===== verification/CLib.thy ===== *)
theory CLib
  imports Prelude
begin

text \<open>
  The parts of the C and C++ standard libraries that the sources use on text: character classes
  and case mapping in the C locale, C strings (the characters before the first NUL), \<open>fgets\<close>,
  \<open>strtol\<close> with base 0, the bounded copy \<open>strncpy\<close>, and integer output through an \<open>ostream\<close>
  with the \<open>hex\<close> and \<open>showbase\<close> flags. The main result is that \<open>strtol\<close> reads back what the
  stream writes.
\<close>

subsection \<open>Characters and C strings\<close>

abbreviation nul :: char where "nul \<equiv> CHR 0x00"
abbreviation newline :: char where "newline \<equiv> CHR 0x0A"

definition isspace :: "char \<Rightarrow> bool" where
  "isspace c \<longleftrightarrow> (let n = of_char c :: nat in n = 32 \<or> 9 \<le> n \<and> n \<le> 13)"

definition tolower :: "char \<Rightarrow> char" where
  "tolower c = (let n = of_char c :: nat in if 65 \<le> n \<and> n \<le> 90 then char_of (n + 32) else c)"

text \<open>The C string in a buffer, and the character a pointer \<open>i\<close> places into it reads.\<close>

definition c_str :: "string \<Rightarrow> string" where
  "c_str buf = takeWhile (\<lambda>c. c \<noteq> nul) buf"

definition char_at :: "string \<Rightarrow> nat \<Rightarrow> char" where
  "char_at s i = (if i < length s then s ! i else nul)"

subsection \<open>Reading lines\<close>

text \<open>
  \<open>fgets(buf, size, file)\<close> on the unread rest of a file: at most \<open>sz - 1\<close> characters, up to and
  including the first newline; \<open>NULL\<close> (None) at the end of the file.
\<close>

definition fgets :: "nat \<Rightarrow> string \<Rightarrow> (string \<times> string) option" where
  "fgets sz file =
     (if file = [] then None
      else let room = take (sz - 1) file;
               body = takeWhile (\<lambda>c. c \<noteq> newline) room;
               n = (if length body < length room then Suc (length body) else length body)
           in Some (take n file, drop n file))"

subsection \<open>Numbers\<close>

definition digit_value :: "char \<Rightarrow> nat option" where
  "digit_value c = (let n = of_char c :: nat in
     if 48 \<le> n \<and> n \<le> 57 then Some (n - 48)
     else if 97 \<le> n \<and> n \<le> 122 then Some (n - 87)
     else if 65 \<le> n \<and> n \<le> 90 then Some (n - 55)
     else None)"

definition is_digit_of :: "nat \<Rightarrow> char \<Rightarrow> bool" where
  "is_digit_of base c \<longleftrightarrow> (case digit_value c of Some d \<Rightarrow> d < base | None \<Rightarrow> False)"

definition digits_value :: "nat \<Rightarrow> string \<Rightarrow> nat" where
  "digits_value base ds = foldl (\<lambda>acc c. base * acc + the (digit_value c)) 0 ds"

definition long_clamp :: "int \<Rightarrow> int" where
  "long_clamp n = max (- (2 ^ 63)) (min (2 ^ 63 - 1) n)"

definition sign_of :: "string \<Rightarrow> int \<times> string" where
  "sign_of s = (case s of [] \<Rightarrow> (1, []) | c # cs \<Rightarrow>
     if c = CHR ''-'' then (-1, cs) else if c = CHR ''+'' then (1, cs) else (1, s))"

definition hex_prefixed :: "string \<Rightarrow> bool" where
  "hex_prefixed s \<longleftrightarrow> (case s of a # b # c # _ \<Rightarrow>
     a = CHR ''0'' \<and> (b = CHR ''x'' \<or> b = CHR ''X'') \<and> is_digit_of 16 c | _ \<Rightarrow> False)"

definition base_of :: "string \<Rightarrow> nat \<times> string" where
  "base_of s = (if hex_prefixed s then (16, drop 2 s)
     else if s \<noteq> [] \<and> hd s = CHR ''0'' then (8, s) else (10, s))"

text \<open>
  \<open>strtol(s, &end, 0)\<close>: None when no digits could be converted (then \<open>end = s\<close>), otherwise the
  value, clamped to \<open>long\<close>.
\<close>

definition strtol0 :: "string \<Rightarrow> int option" where
  "strtol0 s =
     (let (sg, s1) = sign_of (dropWhile isspace s);
          (base, s2) = base_of s1;
          ds = takeWhile (is_digit_of base) s2
      in if ds = [] then None else Some (long_clamp (sg * int (digits_value base ds))))"

definition hex_digit :: "nat \<Rightarrow> char" where
  "hex_digit d = (if d < 10 then char_of (48 + d) else char_of (87 + d))"

fun dec_digits :: "nat \<Rightarrow> string" where
  "dec_digits n = (if n < 10 then [char_of (48 + n)] else dec_digits (n div 10) @ [char_of (48 + n mod 10)])"

declare dec_digits.simps [simp del]

definition dec_int :: "int \<Rightarrow> string" where
  "dec_int i = (if i < 0 then ''-'' @ dec_digits (nat (- i)) else dec_digits (nat i))"

fun hex_digits :: "nat \<Rightarrow> string" where
  "hex_digits n = (if n < 16 then [hex_digit n] else hex_digits (n div 16) @ [hex_digit (n mod 16)])"

declare hex_digits.simps [simp del]

text \<open>\<open>out << std::showbase << std::hex << n\<close>: zero is written without the base prefix.\<close>

definition showbase_hex :: "nat \<Rightarrow> string" where
  "showbase_hex n = (if n = 0 then ''0'' else ''0x'' @ hex_digits n)"

text \<open>\<open>std::setw(8) << std::setfill('0') << std::hex << n\<close>, the width applying as a minimum.\<close>

definition hex_padded :: "nat \<Rightarrow> nat \<Rightarrow> string" where
  "hex_padded w n = (let ds = hex_digits n in replicate (w - length ds) CHR ''0'' @ ds)"

subsection \<open>Facts about characters and C strings\<close>

lemma not_isspace_nul [simp]: "\<not> isspace nul"
  by (simp add: isspace_def)

lemma isspace_newline [simp]: "isspace newline"
  by (simp add: isspace_def)

lemma c_str_id [simp]: "nul \<notin> set s \<Longrightarrow> c_str s = s"
  by (auto simp: c_str_def takeWhile_eq_all_conv)

lemma nul_notin_c_str [simp]: "nul \<notin> set (c_str s)"
  by (auto simp: c_str_def dest: set_takeWhileD)

lemma length_c_str [simp]: "length (c_str s) \<le> length s"
  by (simp add: c_str_def length_takeWhile_le)

lemma char_at_Cons_0 [simp]: "char_at (c # s) 0 = c"
  by (simp add: char_at_def)

lemma char_at_Nil [simp]: "char_at [] i = nul"
  by (simp add: char_at_def)

lemma char_at_append [simp]: "char_at (s @ c # t) (length s) = c"
  by (simp add: char_at_def nth_append)

lemma char_at_length [simp]: "char_at s (length s) = nul"
  by (simp add: char_at_def)

lemma tolower_tolower [simp]: "tolower (tolower c) = tolower c"
  by (simp add: tolower_def Let_def)

subsection \<open>Facts about fgets\<close>

lemma fgets_None [simp]: "fgets sz file = None \<longleftrightarrow> file = []"
  by (simp add: fgets_def Let_def)

lemma fgets_Nil [simp]: "fgets sz [] = None"
  by simp

lemma fgets_split:
  assumes "fgets sz file = Some (line, rest)"
  shows "file = line @ rest" and "length line \<le> sz - 1" and "1 < sz \<Longrightarrow> line \<noteq> []"
proof -
  let ?room = "take (sz - 1) file"
  let ?body = "takeWhile (\<lambda>c. c \<noteq> newline) ?room"
  have le: "length ?body \<le> length ?room" by (rule length_takeWhile_le)
  from assms show "file = line @ rest"
    by (auto simp: fgets_def Let_def split: if_splits)
  from assms le show "length line \<le> sz - 1"
    by (auto simp: fgets_def Let_def split: if_splits)
  assume "1 < sz"
  with assms le show "line \<noteq> []"
    by (auto simp: fgets_def Let_def split: if_splits)
qed

lemma fgets_shorter:
  assumes "fgets sz file = Some (line, rest)" and "1 < sz"
  shows "length rest < length file"
  using fgets_split(1) [OF assms(1)] fgets_split(3) [OF assms] by simp

lemma fgets_line:
  assumes "newline \<notin> set l" and "length l < sz - 1"
  shows "fgets sz (l @ newline # rest) = Some (l @ [newline], rest)"
proof -
  obtain k where k: "sz - Suc (length l) = Suc k"
    using assms(2) by (cases "sz - Suc (length l)") auto
  have room: "take (sz - 1) (l @ newline # rest) = l @ newline # take k rest"
    using assms(2) by (simp add: k)
  have body: "takeWhile (\<lambda>c. c \<noteq> newline) (l @ newline # take k rest) = l"
    using assms(1) by (subst takeWhile_append2) auto
  show ?thesis
    unfolding fgets_def Let_def room body by simp
qed

subsection \<open>strtol reads what the stream writes\<close>

lemma of_char_char_of_small: "n < 256 \<Longrightarrow> (of_char (char_of n :: char) :: nat) = n"
  by simp

lemma digit_value_hex_digit: "d < 16 \<Longrightarrow> digit_value (hex_digit d) = Some d"
  by (simp add: hex_digit_def digit_value_def Let_def)

lemma is_digit_of_hex_digit [simp]: "d < 16 \<Longrightarrow> is_digit_of 16 (hex_digit d)"
  by (simp add: is_digit_of_def digit_value_hex_digit)

lemma hex_digits_not_Nil [simp]: "hex_digits n \<noteq> []"
  by (subst hex_digits.simps) simp

lemma hex_digits_all: "c \<in> set (hex_digits n) \<Longrightarrow> is_digit_of 16 c"
proof (induction n rule: hex_digits.induct)
  case (1 n)
  then show ?case
    by (subst (asm) (2) hex_digits.simps) (auto split: if_splits)
qed

lemma digits_value_append:
  "digits_value base (ds @ [c]) = base * digits_value base ds + the (digit_value c)"
  by (simp add: digits_value_def)

lemma digits_value_hex_digits: "digits_value 16 (hex_digits n) = n"
proof (induction n rule: hex_digits.induct)
  case (1 n)
  show ?case
  proof (cases "n < 16")
    case True
    then show ?thesis
      by (subst hex_digits.simps) (simp add: digits_value_def digit_value_hex_digit)
  next
    case False
    with "1.IH" show ?thesis
      by (subst hex_digits.simps) (simp add: digits_value_append digit_value_hex_digit)
  qed
qed

lemma takeWhile_hex_digits:
  assumes "rest = [] \<or> \<not> is_digit_of 16 (hd rest)"
  shows "takeWhile (is_digit_of 16) (hex_digits n @ rest) = hex_digits n"
proof -
  have "takeWhile (is_digit_of 16) rest = []"
    using assms by (cases rest) auto
  then show ?thesis
    by (subst takeWhile_append2) (auto dest: hex_digits_all)
qed

lemma hex_prefixed_hex: "hex_prefixed (''0x'' @ hex_digits n @ rest)"
proof -
  obtain c cs where "hex_digits n = c # cs" by (cases "hex_digits n") auto
  then show ?thesis
    using hex_digits_all [of c n] by (simp add: hex_prefixed_def)
qed

lemma strtol0_showbase_hex:
  assumes n: "n < 2 ^ 63" and rest: "rest = [] \<or> hd rest = newline"
  shows "strtol0 (showbase_hex n @ rest) = Some (int n)"
proof (cases "n = 0")
  case True
  have nl: "\<not> is_digit_of 8 newline" "\<not> is_digit_of 16 newline"
    by (simp_all add: is_digit_of_def digit_value_def Let_def)
  have "\<not> hex_prefixed (CHR ''0'' # rest)"
    using rest by (auto simp: hex_prefixed_def split: list.splits)
  moreover have "takeWhile (is_digit_of 8) rest = []"
    using rest nl by (cases rest) auto
  ultimately show ?thesis
    using True by (simp add: strtol0_def showbase_hex_def sign_of_def base_of_def isspace_def
      is_digit_of_def digit_value_def digits_value_def long_clamp_def)
next
  case False
  have "rest = [] \<or> \<not> is_digit_of 16 (hd rest)"
    using rest by (auto simp: is_digit_of_def digit_value_def Let_def)
  then have tw: "takeWhile (is_digit_of 16) (hex_digits n @ rest) = hex_digits n"
    by (rule takeWhile_hex_digits)
  have hp: "hex_prefixed (CHR ''0'' # CHR ''x'' # hex_digits n @ rest)"
    using hex_prefixed_hex [of n rest] by simp
  show ?thesis
    using False n by (simp add: strtol0_def showbase_hex_def sign_of_def base_of_def hp tw
      digits_value_hex_digits isspace_def long_clamp_def)
qed

lemma length_hex_digits: "n < 16 ^ k \<Longrightarrow> 0 < k \<Longrightarrow> length (hex_digits n) \<le> k"
proof (induction n arbitrary: k rule: hex_digits.induct)
  case (1 n)
  show ?case
  proof (cases "n < 16")
    case True
    with "1.prems" show ?thesis by (subst hex_digits.simps) simp
  next
    case False
    obtain j where k: "k = Suc j" using "1.prems" by (cases k) auto
    with False "1.prems" have "0 < j" by (cases j) auto
    moreover have "n div 16 < 16 ^ j" using "1.prems" k by (simp add: less_mult_imp_div_less)
    ultimately have "length (hex_digits (n div 16)) \<le> j" using False "1.IH" by blast
    with False k show ?thesis by (subst hex_digits.simps) simp
  qed
qed

lemma length_showbase_hex: "n < 16 ^ k \<Longrightarrow> 0 < k \<Longrightarrow> length (showbase_hex n) \<le> k + 2"
  using length_hex_digits [of n k] by (simp add: showbase_hex_def)

lemma showbase_hex_chars: "c \<in> set (showbase_hex n) \<Longrightarrow> is_digit_of 16 c \<or> c = CHR ''x''"
proof -
  have "is_digit_of 16 CHR ''0''" by (simp add: is_digit_of_def digit_value_def)
  then show "c \<in> set (showbase_hex n) \<Longrightarrow> ?thesis"
    by (auto simp: showbase_hex_def split: if_splits dest: hex_digits_all)
qed

lemma showbase_hex_not_Nil [simp]: "showbase_hex n \<noteq> []"
  by (simp add: showbase_hex_def)

lemma hex_chars_plain: "is_digit_of 16 c \<or> c = CHR ''x'' \<Longrightarrow>
  c \<noteq> nul \<and> c \<noteq> newline \<and> c \<noteq> CHR '';'' \<and> \<not> isspace c"
  by (auto simp: is_digit_of_def digit_value_def isspace_def Let_def split: if_splits)

lemma showbase_hex_plain:
  "c \<in> set (showbase_hex n) \<Longrightarrow> c \<noteq> nul \<and> c \<noteq> newline \<and> c \<noteq> CHR '';'' \<and> \<not> isspace c"
  using showbase_hex_chars hex_chars_plain by blast

lemma c_str_append: "nul \<notin> set s \<Longrightarrow> c_str (s @ t) = s @ c_str t"
  unfolding c_str_def by (subst takeWhile_append2) auto

subsection \<open>Decimal numbers\<close>

lemma digit_value_dec: "d < 10 \<Longrightarrow> digit_value (char_of (48 + d :: nat)) = Some d"
  by (simp add: digit_value_def Let_def)

lemma is_digit_of_dec [simp]: "d < 10 \<Longrightarrow> is_digit_of 10 (char_of (48 + d :: nat))"
  by (simp add: is_digit_of_def digit_value_dec)

lemma dec_digits_not_Nil [simp]: "dec_digits n \<noteq> []"
  by (subst dec_digits.simps) simp

lemma dec_digits_all: "c \<in> set (dec_digits n) \<Longrightarrow> is_digit_of 10 c"
proof (induction n rule: dec_digits.induct)
  case (1 n)
  then show ?case
    by (subst (asm) (2) dec_digits.simps) (auto split: if_splits)
qed

lemma digits_value_dec_digits: "digits_value 10 (dec_digits n) = n"
proof (induction n rule: dec_digits.induct)
  case (1 n)
  then show ?case
    by (subst dec_digits.simps) (simp add: digits_value_append digit_value_dec digits_value_def [of _ "[_]"])
qed

lemma takeWhile_dec_digits [simp]: "takeWhile (is_digit_of 10) (dec_digits n) = dec_digits n"
  by (simp add: takeWhile_eq_all_conv dec_digits_all)

text \<open>No leading zero.\<close>

lemma hd_dec_digits: "0 < n \<Longrightarrow> hd (dec_digits n) \<noteq> CHR ''0''"
proof (induction n rule: dec_digits.induct)
  case (1 n)
  show ?case
  proof (cases "n < 10")
    case True
    then have "digit_value (hd (dec_digits n)) = Some n" by (subst dec_digits.simps) (simp add: digit_value_dec)
    then show ?thesis using 1(2) by (auto simp: digit_value_def)
  next
    case False
    then show ?thesis using 1 by (subst dec_digits.simps) simp
  qed
qed

end
