(* ===== verification/Ini.thy ===== *)
theory Ini
  imports CLib
begin

text \<open>
  The line-oriented INI parser \<open>ini.cpp\<close>. Its helpers edit the line buffer in place through
  pointers; here a pointer into a C string is an offset and cutting the string at a pointer
  is \<open>take\<close>. The local variables that live across lines form the record \<open>ini_state\<close>; one
  iteration of the loop is \<open>ini_line\<close>; \<open>ini_parse_file\<close> iterates it over what \<open>fgets\<close> delivers,
  and \<open>ini_parse\<close> adds the opening of the file. The callback is a parameter, as in the code.

  The theory shows that the in-place helpers compute what their comments say, that the fixed-size
  buffers never overflow, that the reported error is the first line that the file format, given by a
  classification of lines independent of the parser, or the callback refuses, and that the parser
  calls the handler exactly once per pair of a printed document.
\<close>

subsection \<open>Helpers\<close>

definition INI_MAX_LINE :: nat where "INI_MAX_LINE = 200"
definition MAX_SECTION :: nat where "MAX_SECTION = 50"
definition MAX_NAME :: nat where "MAX_NAME = 50"

text \<open>\<open>rstrip\<close>: the pointer \<open>p\<close> walks down from the end, writing NUL over white space.\<close>

fun rstrip_loop :: "string \<Rightarrow> nat \<Rightarrow> string" where
  "rstrip_loop s 0 = s"
| "rstrip_loop s (Suc p) = (if isspace (s ! p) then rstrip_loop (take p s) p else s)"

definition rstrip :: "string \<Rightarrow> string" where
  "rstrip s = rstrip_loop s (length s)"

text \<open>\<open>lskip\<close> as the number of places the pointer moves.\<close>

fun lskip :: "string \<Rightarrow> nat" where
  "lskip [] = 0"
| "lskip (c # s) = (if isspace c then Suc (lskip s) else 0)"

text \<open>\<open>find_char_or_comment\<close> as the offset of the pointer it returns.\<close>

fun find_loop :: "bool \<Rightarrow> string \<Rightarrow> char \<Rightarrow> nat" where
  "find_loop was_whitespace [] c = 0"
| "find_loop was_whitespace (x # s) c =
     (if x \<noteq> c \<and> \<not> (was_whitespace \<and> x = CHR '';'') then Suc (find_loop (isspace x) s c) else 0)"

definition find_char_or_comment :: "string \<Rightarrow> char \<Rightarrow> nat" where
  "find_char_or_comment s c = find_loop False s c"

text \<open>\<open>strncpy0\<close>: the C string in a \<open>size\<close>-byte destination after the copy.\<close>

definition strncpy0 :: "string \<Rightarrow> nat \<Rightarrow> string" where
  "strncpy0 src sz = take (sz - 1) src"

subsection \<open>The parser\<close>

record 'u ini_state =
  cur_section :: string
  prev_name :: string
  lineno :: int
  error :: int
  user :: 'u

type_synonym 'u handler = "'u \<Rightarrow> string \<Rightarrow> string \<Rightarrow> string \<Rightarrow> bool \<times> 'u"

definition note_error :: "'u ini_state \<Rightarrow> 'u ini_state" where
  "note_error st = (if error st = 0 then st\<lparr>error := lineno st\<rparr> else st)"

definition call_handler :: "'u handler \<Rightarrow> string \<Rightarrow> string \<Rightarrow> 'u ini_state \<Rightarrow> 'u ini_state" where
  "call_handler handler name val st =
     (let (ok, u) = handler (user st) (cur_section st) name val; st' = st\<lparr>user := u\<rparr>
      in if ok then st' else note_error st')"

definition bom_length :: "int \<Rightarrow> string \<Rightarrow> nat" where
  "bom_length n line =
     (if n = 1 \<and> char_at line 0 = CHR 0xEF \<and> char_at line 1 = CHR 0xBB \<and> char_at line 2 = CHR 0xBF
      then 3 else 0)"

definition section_line :: "string \<Rightarrow> 'u ini_state \<Rightarrow> 'u ini_state" where
  "section_line start st =
     (let s = tl start; e = find_char_or_comment s CHR '']''
      in if char_at s e = CHR '']''
         then st\<lparr>cur_section := strncpy0 (take e s) MAX_SECTION, prev_name := []\<rparr>
         else note_error st)"

definition pair_end :: "string \<Rightarrow> nat" where
  "pair_end start =
     (let e = find_char_or_comment start CHR ''=''
      in if char_at start e \<noteq> CHR ''='' then find_char_or_comment start CHR '':'' else e)"

definition pair_value :: "string \<Rightarrow> string" where
  "pair_value s =
     (let v = drop (lskip s) s; e = find_char_or_comment v nul
      in rstrip (if char_at v e = CHR '';'' then take e v else v))"

definition pair_line :: "'u handler \<Rightarrow> string \<Rightarrow> 'u ini_state \<Rightarrow> 'u ini_state" where
  "pair_line handler start st =
     (let e = pair_end start
      in if char_at start e = CHR ''='' \<or> char_at start e = CHR '':''
         then let name = rstrip (take e start); val = pair_value (drop (Suc e) start)
              in call_handler handler name val (st\<lparr>prev_name := strncpy0 name MAX_NAME\<rparr>)
         else note_error st)"

text \<open>The \<open>if\<close>-chain of the loop body; \<open>offset\<close> is \<open>start - line\<close>.\<close>

definition ini_dispatch :: "'u handler \<Rightarrow> nat \<Rightarrow> string \<Rightarrow> 'u ini_state \<Rightarrow> 'u ini_state" where
  "ini_dispatch handler offset start st =
     (if char_at start 0 = CHR '';'' \<or> char_at start 0 = CHR ''#'' then st
      else if prev_name st \<noteq> [] \<and> start \<noteq> [] \<and> 0 < offset
        then call_handler handler (prev_name st) start st
      else if char_at start 0 = CHR ''['' then section_line start st
      else if start \<noteq> [] \<and> char_at start 0 \<noteq> CHR '';'' then pair_line handler start st
      else st)"

definition ini_line :: "'u handler \<Rightarrow> string \<Rightarrow> 'u ini_state \<Rightarrow> 'u ini_state" where
  "ini_line handler buf st0 =
     (let st = st0\<lparr>lineno := lineno st0 + 1\<rparr>;
          line = c_str buf;
          bom = bom_length (lineno st) line;
          s = rstrip (drop bom line)
      in ini_dispatch handler (bom + lskip s) (drop (lskip s) s) st)"

function parse_lines :: "'u handler \<Rightarrow> string \<Rightarrow> 'u ini_state \<Rightarrow> 'u ini_state" where
  "parse_lines handler file st =
     (case fgets INI_MAX_LINE file of
        None \<Rightarrow> st
      | Some (buf, rest) \<Rightarrow> parse_lines handler rest (ini_line handler buf st))"
  by pat_completeness auto
termination
  by (relation "measure (\<lambda>(h, file, st). length file)")
    (auto simp: INI_MAX_LINE_def dest: fgets_shorter)

declare parse_lines.simps [simp del]

definition ini_init :: "'u \<Rightarrow> 'u ini_state" where
  "ini_init u = \<lparr>cur_section = [], prev_name = [], lineno = 0, error = 0, user = u\<rparr>"

definition ini_parse_file :: "'u handler \<Rightarrow> string \<Rightarrow> 'u \<Rightarrow> int \<times> 'u" where
  "ini_parse_file handler file u =
     (let st = parse_lines handler file (ini_init u) in (error st, user st))"

text \<open>The file system as the map from names of readable files to their contents.\<close>

type_synonym files = "string \<Rightarrow> string option"

definition ini_parse :: "files \<Rightarrow> string \<Rightarrow> 'u handler \<Rightarrow> 'u \<Rightarrow> int \<times> 'u" where
  "ini_parse fs filename handler u =
     (case fs filename of None \<Rightarrow> (-1, u) | Some file \<Rightarrow> ini_parse_file handler file u)"


subsection \<open>Specification vocabulary\<close>

text \<open>The buffers \<open>fgets\<close> delivers, one per loop iteration.\<close>

function file_lines :: "string \<Rightarrow> string list" where
  "file_lines file =
     (case fgets INI_MAX_LINE file of None \<Rightarrow> [] | Some (buf, rest) \<Rightarrow> buf # file_lines rest)"
  by pat_completeness auto
termination
  by (relation "measure length") (auto simp: INI_MAX_LINE_def dest: fgets_shorter)

declare file_lines.simps [simp del]

text \<open>Where a scan for \<open>c\<close> or a comment has to stop.\<close>

definition stops_at :: "string \<Rightarrow> char \<Rightarrow> nat \<Rightarrow> bool" where
  "stops_at s c j \<longleftrightarrow> s ! j = c \<or> 0 < j \<and> isspace (s ! (j - 1)) \<and> s ! j = CHR '';''"

text \<open>What the fixed-size arrays \<open>section[50]\<close> and \<open>prev_name[50]\<close> may hold.\<close>

definition ini_inv :: "'u ini_state \<Rightarrow> bool" where
  "ini_inv st \<longleftrightarrow> length (cur_section st) < MAX_SECTION \<and> length (prev_name st) < MAX_NAME \<and>
     0 \<le> error st \<and> error st \<le> lineno st"

text \<open>
  A printed document: section headings, \<open>name = value\<close> pairs and comment lines, each on a line
  of its own, and the handler calls it stands for.
\<close>

datatype ini_item = Section string | Setting string string | Comment string

fun item_line :: "ini_item \<Rightarrow> string" where
  "item_line (Section n) = ''['' @ n @ '']''"
| "item_line (Setting n v) = n @ '' = '' @ v"
| "item_line (Comment t) = '';'' @ t"

definition print_ini :: "ini_item list \<Rightarrow> string" where
  "print_ini items = concat (map (\<lambda>i. item_line i @ [newline]) items)"

definition plain :: "string \<Rightarrow> bool" where
  "plain s \<longleftrightarrow> (\<forall>c \<in> set s. c \<noteq> nul \<and> c \<noteq> newline \<and> c \<noteq> CHR '';'')"

fun clean_item :: "ini_item \<Rightarrow> bool" where
  "clean_item (Section n) \<longleftrightarrow> plain n \<and> CHR '']'' \<notin> set n \<and> length n < MAX_SECTION"
| "clean_item (Setting n v) \<longleftrightarrow>
     n \<noteq> [] \<and> plain n \<and> CHR ''='' \<notin> set n \<and> \<not> isspace (hd n) \<and> \<not> isspace (last n) \<and>
     hd n \<notin> {CHR ''#'', CHR ''['', CHR 0xEF} \<and>
     plain v \<and> (v = [] \<or> \<not> isspace (hd v) \<and> \<not> isspace (last v)) \<and>
     length n + length v + 5 \<le> INI_MAX_LINE"
| "clean_item (Comment t) \<longleftrightarrow> newline \<notin> set t \<and> length t + 3 \<le> INI_MAX_LINE"

fun ini_calls :: "string \<Rightarrow> ini_item list \<Rightarrow> (string \<times> string \<times> string) list" where
  "ini_calls sec [] = []"
| "ini_calls sec (Section n # is) = ini_calls n is"
| "ini_calls sec (Setting n v # is) = (sec, n, v) # ini_calls sec is"
| "ini_calls sec (Comment t # is) = ini_calls sec is"

definition run_calls :: "'u handler \<Rightarrow> (string \<times> string \<times> string) list \<Rightarrow> 'u \<Rightarrow> 'u" where
  "run_calls handler calls u = foldl (\<lambda>u (s, n, v). snd (handler u s n v)) u calls"

subsection \<open>The helpers compute what they promise\<close>

lemma rstrip_loop_take: "p \<le> length s \<Longrightarrow>
  rstrip_loop (take p s) p = rev (dropWhile isspace (rev (take p s)))"
proof (induction p arbitrary: s)
  case (Suc p)
  then have "take (Suc p) s = take p s @ [s ! p]" by (simp add: take_Suc_conv_app_nth)
  with Suc show ?case by (simp add: min_def nth_append)
qed simp

lemma rstrip_eq: "rstrip s = rev (dropWhile isspace (rev s))"
  using rstrip_loop_take [of "length s" s] by (simp add: rstrip_def)

lemma rstrip_snoc: "rstrip (s @ [c]) = (if isspace c then rstrip s else s @ [c])"
  by (simp add: rstrip_eq)

lemma rstrip_id: "s = [] \<or> \<not> isspace (last s) \<Longrightarrow> rstrip s = s"
  by (cases s rule: rev_cases) (simp_all add: rstrip_eq)

lemma rstrip_Cons: "\<not> isspace c \<Longrightarrow> rstrip (c # s) = c # rstrip s"
  by (simp add: rstrip_eq dropWhile_append)

lemma length_rstrip: "length (rstrip s) \<le> length s"
  using length_dropWhile_le [of isspace "rev s"] by (simp add: rstrip_eq)

lemma lskip_dropWhile: "drop (lskip s) s = dropWhile isspace s"
  by (induction s) auto

lemma lskip_0: "s = [] \<or> \<not> isspace (hd s) \<Longrightarrow> lskip s = 0"
  by (cases s) auto

lemma find_loop_le: "find_loop w s c \<le> length s"
  by (induction s arbitrary: w) auto

lemma find_loop_absent:
  "c \<notin> set s \<Longrightarrow> CHR '';'' \<notin> set s \<Longrightarrow> find_loop w (s @ t) c = length s + find_loop
     (if s = [] then w else isspace (last s)) t c"
  by (induction s arbitrary: w) auto

lemma find_char_plain:
  assumes "c \<notin> set s" and "CHR '';'' \<notin> set s" and "t \<noteq> []" and "hd t = c"
  shows "find_char_or_comment (s @ t) c = length s"
  using assms by (cases t) (simp_all add: find_char_or_comment_def find_loop_absent)

lemma find_char_none:
  assumes "c \<notin> set s" and "CHR '';'' \<notin> set s"
  shows "find_char_or_comment s c = length s"
  using find_loop_absent [of c s False "[]"] assms by (simp add: find_char_or_comment_def)

lemma find_loop_no_earlier:
  "j < find_loop w s c \<Longrightarrow> s ! j \<noteq> c \<and>
     \<not> ((if j = 0 then w else isspace (s ! (j - 1))) \<and> s ! j = CHR '';'')"
proof (induction s arbitrary: w j)
  case (Cons x s)
  from Cons.prems Cons.IH [of "j - 1" "isspace x"] show ?case
    by (cases j) (auto split: if_splits)
qed simp

lemma find_loop_stops:
  "find_loop w s c < length s \<Longrightarrow> s ! find_loop w s c = c \<or>
     (if find_loop w s c = 0 then w else isspace (s ! (find_loop w s c - 1))) \<and>
      s ! find_loop w s c = CHR '';''"
proof (induction s arbitrary: w)
  case (Cons x s)
  from Cons.prems Cons.IH [of "isspace x"] show ?case
    by (cases "find_loop (isspace x) s c") (auto split: if_splits)
qed simp


subsection \<open>Invariants of the loop\<close>

lemma length_strncpy0: "0 < sz \<Longrightarrow> length (strncpy0 src sz) < sz"
  by (simp add: strncpy0_def)

lemma strncpy0_id: "length src < sz \<Longrightarrow> strncpy0 src sz = src"
  by (simp add: strncpy0_def)

lemma note_error_simps [simp]:
  "cur_section (note_error st) = cur_section st" "prev_name (note_error st) = prev_name st"
  "lineno (note_error st) = lineno st" "user (note_error st) = user st"
  "error (note_error st) = (if error st = 0 then lineno st else error st)"
  by (simp_all add: note_error_def)

lemma call_handler_simps [simp]:
  "cur_section (call_handler h n v st) = cur_section st"
  "prev_name (call_handler h n v st) = prev_name st"
  "lineno (call_handler h n v st) = lineno st"
  "user (call_handler h n v st) = snd (h (user st) (cur_section st) n v)"
  "error (call_handler h n v st) =
     (if fst (h (user st) (cur_section st) n v) \<or> error st \<noteq> 0 then error st else lineno st)"
  by (auto simp: call_handler_def Let_def split: prod.splits)

text \<open>What one loop iteration can do, whatever the line: the five kinds of step.\<close>

lemma section_line_cases:
  obtains n where "section_line start st = st\<lparr>cur_section := strncpy0 n MAX_SECTION, prev_name := []\<rparr>"
  | "section_line start st = note_error st"
  unfolding section_line_def Let_def by metis

lemma pair_line_cases:
  obtains n v where "pair_line h start st =
      call_handler h n v (st\<lparr>prev_name := strncpy0 n MAX_NAME\<rparr>)"
  | "pair_line h start st = note_error st"
  unfolding pair_line_def Let_def by metis

lemma ini_dispatch_kinds:
  "ini_dispatch h k start st = st \<or> (\<exists>v. ini_dispatch h k start st = call_handler h (prev_name st) v st) \<or>
    (\<exists>s. ini_dispatch h k start st = section_line s st) \<or>
    (\<exists>s. ini_dispatch h k start st = pair_line h s st)"
proof -
  have "ini_dispatch h k start st \<in>
      {st, call_handler h (prev_name st) start st, section_line start st, pair_line h start st}"
    unfolding ini_dispatch_def by (simp split: if_split)
  then show ?thesis by blast
qed

lemma ini_line_cases:
  obtains (skip) "ini_line h buf st = st\<lparr>lineno := lineno st + 1\<rparr>"
  | (continued) v where "ini_line h buf st = call_handler h (prev_name st) v (st\<lparr>lineno := lineno st + 1\<rparr>)"
  | (heading) n where "ini_line h buf st =
      st\<lparr>lineno := lineno st + 1, cur_section := strncpy0 n MAX_SECTION, prev_name := []\<rparr>"
  | (pair) n v where "ini_line h buf st =
      call_handler h n v (st\<lparr>lineno := lineno st + 1, prev_name := strncpy0 n MAX_NAME\<rparr>)"
  | (failed) "ini_line h buf st = note_error (st\<lparr>lineno := lineno st + 1\<rparr>)"
proof -
  let ?st = "st\<lparr>lineno := lineno st + 1\<rparr>"
  have "ini_line h buf st = ?st \<or> (\<exists>v. ini_line h buf st = call_handler h (prev_name ?st) v ?st) \<or>
    (\<exists>start. ini_line h buf st = section_line start ?st) \<or>
    (\<exists>start. ini_line h buf st = pair_line h start ?st)"
    unfolding ini_line_def Let_def by (rule ini_dispatch_kinds)
  then consider (a) "ini_line h buf st = ?st"
    | (b) v where "ini_line h buf st = call_handler h (prev_name ?st) v ?st"
    | (c) start where "ini_line h buf st = section_line start ?st"
    | (d) start where "ini_line h buf st = pair_line h start ?st" by blast
  then show thesis
  proof cases
    case (c start)
    show ?thesis by (rule section_line_cases [of start ?st]) (use c heading failed in auto)
  next
    case (d start)
    show ?thesis by (rule pair_line_cases [of h start ?st]) (use d pair failed in auto)
  qed (use skip continued in auto)
qed

lemma lineno_ini_line [simp]: "lineno (ini_line h buf st) = lineno st + 1"
  by (cases h buf st rule: ini_line_cases) simp_all

lemma error_ini_line:
  "error (ini_line h buf st) = error st \<or> error st = 0 \<and> error (ini_line h buf st) = lineno st + 1"
  by (cases h buf st rule: ini_line_cases) simp_all

lemma ini_line_inv: "ini_inv st \<Longrightarrow> ini_inv (ini_line h buf st)"
  by (cases h buf st rule: ini_line_cases)
    (auto simp: ini_inv_def length_strncpy0 MAX_SECTION_def MAX_NAME_def)

lemma fold_ini_line_inv: "ini_inv st \<Longrightarrow> ini_inv (fold (ini_line h) bufs st)"
  by (induction bufs arbitrary: st) (simp_all add: ini_line_inv)

lemma lineno_fold_ini_line [simp]:
  "lineno (fold (ini_line h) bufs st) = lineno st + int (length bufs)"
  by (induction bufs arbitrary: st) simp_all

lemma error_fold_sticky: "error st \<noteq> 0 \<Longrightarrow> error (fold (ini_line h) bufs st) = error st"
proof (induction bufs arbitrary: st)
  case (Cons b bufs)
  then have "error (ini_line h b st) = error st" using error_ini_line [of h b st] by auto
  with Cons show ?case by simp
qed simp

lemma parse_lines_fold: "parse_lines h cs st = fold (ini_line h) (file_lines cs) st"
proof (induction h cs st rule: parse_lines.induct)
  case (1 h cs st)
  then show ?case
    by (subst parse_lines.simps, subst file_lines.simps) (auto split: option.splits prod.splits)
qed

lemma file_lines_concat: "concat (file_lines cs) = cs"
proof (induction cs rule: file_lines.induct)
  case (1 cs)
  then show ?case
    by (subst file_lines.simps) (auto split: option.splits prod.splits dest: fgets_split(1))
qed

lemma file_lines_Nil [simp]: "file_lines [] = []"
  by (subst file_lines.simps) (simp add: fgets_def)

lemma file_lines_line:
  assumes "newline \<notin> set l" and "length l + 2 \<le> INI_MAX_LINE"
  shows "file_lines (l @ newline # rest) = (l @ [newline]) # file_lines rest"
  by (subst file_lines.simps) (use assms in \<open>simp add: fgets_line INI_MAX_LINE_def\<close>)


subsection \<open>Lines of a printed document\<close>

lemma plainD: "plain s \<Longrightarrow> nul \<notin> set s \<and> newline \<notin> set s \<and> CHR '';'' \<notin> set s"
  by (auto simp: plain_def)

lemma bom_length_0: "char_at line 0 \<noteq> CHR 0xEF \<Longrightarrow> bom_length n line = 0"
  by (simp add: bom_length_def)

lemma ini_line_comment:
  "ini_line h (item_line (Comment t) @ [newline]) st = st\<lparr>lineno := lineno st + 1\<rparr>"
proof -
  let ?t = "takeWhile (\<lambda>c. c \<noteq> nul) (t @ [newline])"
  have "\<not> isspace CHR '';''" by (simp add: isspace_def)
  then show ?thesis
    by (simp add: ini_line_def ini_dispatch_def c_str_def bom_length_0 rstrip_Cons Let_def)
qed

lemma ini_line_section:
  assumes "clean_item (Section n)"
  shows "ini_line h (item_line (Section n) @ [newline]) st =
    st\<lparr>lineno := lineno st + 1, cur_section := n, prev_name := []\<rparr>"
proof -
  have sp: "\<not> isspace CHR ''[''" "\<not> isspace CHR '']''" by (simp_all add: isspace_def)
  have n: "nul \<notin> set n" "CHR '';'' \<notin> set n" using assms plainD by auto
  have buf: "c_str (item_line (Section n) @ [newline]) = ''['' @ n @ '']'' @ [newline]"
    using n by simp
  have "rstrip ((''['' @ n @ '']'') @ [newline]) = rstrip (''['' @ n @ '']'')"
    by (subst rstrip_snoc) simp
  then have rs: "rstrip (CHR ''['' # n @ [CHR '']'', newline]) = CHR ''['' # n @ [CHR '']'']"
    using sp by (simp add: rstrip_id)
  have "find_char_or_comment (n @ '']'') CHR '']'' = length n"
    using assms n by (intro find_char_plain) auto
  with assms show ?thesis
    by (simp add: ini_line_def ini_dispatch_def buf [simplified] bom_length_0 rs sp section_line_def Let_def strncpy0_id)
qed

lemma pair_value_plain:
  assumes "plain v" and "v = [] \<or> \<not> isspace (hd v) \<and> \<not> isspace (last v)"
  shows "pair_value (if v = [] then [] else CHR '' '' # v) = v"
proof (cases "v = []")
  case True
  then show ?thesis by (simp add: pair_value_def find_char_or_comment_def rstrip_def)
next
  case False
  have sp: "isspace CHR '' ''" by (simp add: isspace_def)
  have "find_char_or_comment v nul = length v"
    using assms(1) plainD by (intro find_char_none) auto
  with False assms(2) show ?thesis
    by (simp add: pair_value_def sp lskip_0 rstrip_id)
qed

lemma pair_line_plain:
  assumes "clean_item (Setting n v)"
  shows "pair_line h (n @ '' ='' @ (if v = [] then [] else CHR '' '' # v)) st =
    call_handler h n v (st\<lparr>prev_name := strncpy0 n MAX_NAME\<rparr>)"
proof -
  let ?tl = "if v = [] then [] else CHR '' '' # v"
  have n: "CHR ''='' \<notin> set (n @ '' '')" "CHR '';'' \<notin> set (n @ '' '')"
    using assms plainD by auto
  have sp: "isspace CHR '' ''" by (simp add: isspace_def)
  have e: "find_char_or_comment ((n @ '' '') @ CHR ''='' # ?tl) CHR ''='' = length (n @ '' '')"
    using n by (intro find_char_plain) auto
  have c: "char_at ((n @ '' '') @ CHR ''='' # ?tl) (length (n @ '' '')) = CHR ''=''"
    by (rule char_at_append)
  have pe: "pair_end ((n @ '' '') @ CHR ''='' # ?tl) = length (n @ '' '')"
    unfolding pair_end_def e Let_def by (simp only: c simp_thms if_False)
  have nm: "rstrip (n @ '' '') = n"
    using assms sp by (simp add: rstrip_snoc rstrip_id)
  have v: "pair_value ?tl = v"
    using assms by (intro pair_value_plain) auto
  have "pair_line h ((n @ '' '') @ CHR ''='' # ?tl) st =
      call_handler h n v (st\<lparr>prev_name := strncpy0 n MAX_NAME\<rparr>)"
    unfolding pair_line_def pe Let_def c
    using nm v by simp
  then show ?thesis by simp
qed

lemma ini_line_pair:
  assumes "clean_item (Setting n v)"
  shows "ini_line h (item_line (Setting n v) @ [newline]) st =
    call_handler h n v (st\<lparr>lineno := lineno st + 1, prev_name := strncpy0 n MAX_NAME\<rparr>)"
proof -
  let ?start = "n @ '' ='' @ (if v = [] then [] else CHR '' '' # v)"
  obtain c n' where n: "n = c # n'" using assms by (cases n) auto
  have sp: "isspace CHR '' ''" "\<not> isspace CHR ''=''" by (simp_all add: isspace_def)
  have c: "\<not> isspace c" "c \<noteq> CHR '';''" "c \<noteq> CHR ''#''" "c \<noteq> CHR ''[''" "c \<noteq> CHR 0xEF"
    using assms n plainD [of n] by auto
  have buf: "c_str (item_line (Setting n v) @ [newline]) = item_line (Setting n v) @ [newline]"
    using assms plainD [of n] plainD [of v] by (intro c_str_id) auto
  have b0: "bom_length k (item_line (Setting n v) @ [newline]) = 0" for k
    using c n by (intro bom_length_0) simp
  have "rstrip (item_line (Setting n v) @ [newline]) = rstrip (item_line (Setting n v))"
    by (simp only: rstrip_snoc isspace_newline if_True)
  also have "\<dots> = ?start"
    using assms sp rstrip_snoc [of "n @ '' =''" "CHR '' ''"]
    by (cases "v = []") (simp_all add: rstrip_id)
  finally have rs: "rstrip (item_line (Setting n v) @ [newline]) = ?start" .
  have l0: "lskip ?start = 0" and h0: "char_at ?start 0 = c"
    using c n by simp_all
  show ?thesis
    unfolding ini_line_def ini_dispatch_def Let_def buf b0 drop_0 rs l0 h0
    using c n pair_line_plain [OF assms] by (cases "v = []") simp_all
qed

lemma clean_item_line:
  assumes "clean_item i"
  shows "newline \<notin> set (item_line i)" and "length (item_line i) + 2 \<le> INI_MAX_LINE"
  using assms by (cases i; auto simp: plain_def INI_MAX_LINE_def MAX_SECTION_def)+

lemma file_lines_print_ini:
  "(\<And>i. i \<in> set is \<Longrightarrow> clean_item i) \<Longrightarrow>
    file_lines (print_ini is) = map (\<lambda>i. item_line i @ [newline]) is"
proof (induction "is")
  case (Cons i "is")
  then have i: "clean_item i" and
    IH: "file_lines (print_ini is) = map (\<lambda>i. item_line i @ [newline]) is" by auto
  have "print_ini (i # is) = item_line i @ newline # print_ini is"
    by (simp add: print_ini_def)
  with i IH clean_item_line [OF i] show ?case by (simp add: file_lines_line)
qed (simp add: print_ini_def)


subsection \<open>The contract with the callback\<close>

text \<open>
  What the parser needs of a callback to report no error of its own, and what it then gives
  back: the callback's invariant survives the whole file, and a printed document produces
  exactly its calls, in order, with error code 0.
\<close>

locale ini_handler =
  fixes handler :: "'u handler" and inv :: "'u \<Rightarrow> bool"
  assumes handler_accepts: "inv u \<Longrightarrow> fst (handler u s n v)"
    and handler_keeps: "inv u \<Longrightarrow> inv (snd (handler u s n v))"
begin

lemma ini_line_user_inv: "inv (user st) \<Longrightarrow> inv (user (ini_line handler buf st))"
  by (cases handler buf st rule: ini_line_cases) (simp_all add: handler_keeps)

lemma fold_user_inv: "inv (user st) \<Longrightarrow> inv (user (fold (ini_line handler) bufs st))"
  by (induction bufs arbitrary: st) (simp_all add: ini_line_user_inv)

lemma parse_file_user_inv: "inv u \<Longrightarrow> inv (snd (ini_parse_file handler cs u))"
  by (simp add: ini_parse_file_def Let_def parse_lines_fold fold_user_inv ini_init_def)

lemma fold_items:
  assumes "\<And>i. i \<in> set is \<Longrightarrow> clean_item i" and "inv (user st)" and "error st = 0"
  shows "error (fold (ini_line handler) (map (\<lambda>i. item_line i @ [newline]) is) st) = 0 \<and>
    user (fold (ini_line handler) (map (\<lambda>i. item_line i @ [newline]) is) st) =
      run_calls handler (ini_calls (cur_section st) is) (user st)"
  using assms
proof (induction "is" arbitrary: st)
  case (Cons i "is")
  then have i: "clean_item i" by simp
  let ?st = "ini_line handler (item_line i @ [newline]) st"
  have "error ?st = 0 \<and> inv (user ?st) \<and>
      run_calls handler (ini_calls (cur_section ?st) is) (user ?st) =
      run_calls handler (ini_calls (cur_section st) (i # is)) (user st)"
    using i Cons.prems(2,3)
    by (cases i) (simp_all add: ini_line_comment ini_line_section ini_line_pair handler_accepts
      handler_keeps run_calls_def del: item_line.simps clean_item.simps)
  with Cons show ?case by simp
qed (simp add: run_calls_def)

lemma parse_printed:
  assumes "\<And>i. i \<in> set is \<Longrightarrow> clean_item i" and "inv u"
  shows "ini_parse_file handler (print_ini is) u = (0, run_calls handler (ini_calls [] is) u)"
  using fold_items [of "is" "ini_init u"] assms
  by (simp add: ini_parse_file_def parse_lines_fold file_lines_print_ini ini_init_def Let_def)

end

subsection \<open>Errors and scans\<close>

lemma ini_inv_init: "ini_inv (ini_init u)"
  by (simp add: ini_inv_def ini_init_def MAX_SECTION_def MAX_NAME_def)

lemma error_fold_later:
  "error st = 0 \<Longrightarrow> error (fold (ini_line h) bufs st) = 0 \<or>
     lineno st < error (fold (ini_line h) bufs st)"
proof (induction bufs arbitrary: st)
  case (Cons b bufs)
  show ?case
  proof (cases "error (ini_line h b st) = 0")
    case True
    with Cons.IH [of "ini_line h b st"] show ?thesis by auto
  next
    case False
    with Cons.prems error_ini_line [of h b st] show ?thesis by (auto simp: error_fold_sticky)
  qed
qed simp

text \<open>
  \<open>find_char_or_comment\<close> returns the first position at which the wanted character stands or a
  comment begins (a semicolon right after white space), and the end of the string if there is
  none: it reaches such a position and no earlier one qualifies.
\<close>

theorem find_char_or_comment_spec:
  "let e = find_char_or_comment s c in
     e \<le> length s \<and> (\<forall>j < e. \<not> stops_at s c j) \<and> (e = length s \<or> stops_at s c e)"
  using find_loop_le [of False s c] find_loop_no_earlier [of _ False s c]
    find_loop_stops [of False s c]
  by (auto simp: find_char_or_comment_def stops_at_def Let_def le_less split: if_splits)


theorem find_char_or_comment_spec_witness:
  "find_char_or_comment ''key = v ;note'' CHR '':'' = 8 \<and> \<not> stops_at ''key = v ;note'' CHR '':'' 3"
  using find_char_or_comment_spec [of "''key = v ;note''" "CHR '':''"]
  by (simp add: find_char_or_comment_def isspace_def Let_def)

text \<open>
  C31. The fixed-size arrays \<open>section[50]\<close> and \<open>prev_name[50]\<close> of \<open>ini_parse_file\<close> never hold a
  string that does not fit, after any number of lines of any file and with any callback.
\<close>

theorem ini_buffers_bounded:
  "let st = fold (ini_line h) (take k (file_lines cs)) (ini_init u)
   in length (cur_section st) < MAX_SECTION \<and> length (prev_name st) < MAX_NAME"
  using fold_ini_line_inv [OF ini_inv_init, of h "take k (file_lines cs)" u]
  by (simp add: ini_inv_def Let_def)

subsection \<open>The parser against the file format\<close>

text \<open>
  What a line of an INI file is, said of the text of the line alone: a comment starts at a
  semicolon after white space; a heading needs its closing bracket, a pair its \<open>=\<close> or, where
  there is none, its \<open>:\<close>, before a comment; an indented line after a pair goes on with its value.
\<close>

datatype line_kind = Ignored | Heading string | NameValue string string | Continued string | Malformed

fun uncommented :: "bool \<Rightarrow> string \<Rightarrow> string" where
  "uncommented after_space [] = []"
| "uncommented after_space (x # s) =
     (if after_space \<and> x = CHR '';'' then [] else x # uncommented (isspace x) s)"

definition trim_right :: "string \<Rightarrow> string" where
  "trim_right s = rev (dropWhile isspace (rev s))"

definition split_pair :: "char \<Rightarrow> string \<Rightarrow> line_kind" where
  "split_pair c t = NameValue (trim_right (takeWhile (\<lambda>x. x \<noteq> c) t))
     (trim_right (uncommented False (dropWhile isspace (tl (dropWhile (\<lambda>x. x \<noteq> c) t)))))"

definition text_kind :: "bool \<Rightarrow> bool \<Rightarrow> string \<Rightarrow> line_kind" where
  "text_kind in_pair indented t =
     (if t = [] \<or> hd t \<in> {CHR '';'', CHR ''#''} then Ignored
      else if in_pair \<and> indented then Continued t
      else if hd t = CHR ''[''
        then if CHR '']'' \<in> set (uncommented False (tl t))
             then Heading (takeWhile (\<lambda>x. x \<noteq> CHR '']'') (tl t)) else Malformed
      else if CHR ''='' \<in> set (uncommented False t) then split_pair CHR ''='' t
      else if CHR '':'' \<in> set (uncommented False t) then split_pair CHR '':'' t
      else Malformed)"

definition kind_of_line :: "nat \<Rightarrow> bool \<Rightarrow> string \<Rightarrow> line_kind" where
  "kind_of_line n in_pair buf =
     (let line = takeWhile (\<lambda>x. x \<noteq> nul) buf;
          bom = n = 1 \<and> take 3 line = [CHR 0xEF, CHR 0xBB, CHR 0xBF];
          body = trim_right (if bom then drop 3 line else line)
      in text_kind in_pair (bom \<or> body \<noteq> [] \<and> isspace (hd body)) (dropWhile isspace body))"

text \<open>
  The lines that fail, by number, and the caller's data after the last line: a malformed line
  fails, and so does one whose pair the callback refuses. Names are kept to what the arrays hold.
\<close>

fun failing_lines :: "'u handler \<Rightarrow> nat \<Rightarrow> string \<Rightarrow> string \<Rightarrow> 'u \<Rightarrow> string list \<Rightarrow> nat list \<times> 'u" where
  "failing_lines h n sec prev u [] = ([], u)"
| "failing_lines h n sec prev u (buf # bufs) =
     (case kind_of_line n (prev \<noteq> []) buf of
        Ignored \<Rightarrow> failing_lines h (Suc n) sec prev u bufs
      | Malformed \<Rightarrow> apfst (\<lambda>ns. n # ns) (failing_lines h (Suc n) sec prev u bufs)
      | Heading s \<Rightarrow> failing_lines h (Suc n) (take 49 s) [] u bufs
      | Continued v \<Rightarrow>
          (case h u sec prev v of (ok, u') \<Rightarrow>
             apfst (\<lambda>ns. if ok then ns else n # ns) (failing_lines h (Suc n) sec prev u' bufs))
      | NameValue name v \<Rightarrow>
          (case h u sec name v of (ok, u') \<Rightarrow>
             apfst (\<lambda>ns. if ok then ns else n # ns) (failing_lines h (Suc n) sec (take 49 name) u' bufs)))"

definition first_or_0 :: "nat list \<Rightarrow> int" where
  "first_or_0 ns = (case ns of [] \<Rightarrow> 0 | n # _ \<Rightarrow> int n)"

lemma trim_right_rstrip: "rstrip s = trim_right s"
  by (simp add: rstrip_eq trim_right_def)

lemma char_at_Cons_Suc: "char_at (x # s) (Suc i) = char_at s i"
  by (simp add: char_at_def)

lemma find_loop_uncommented:
  assumes "c \<noteq> CHR '';''" and "c \<noteq> nul"
  shows "char_at s (find_loop w s c) = c \<longleftrightarrow> c \<in> set (uncommented w s)"
    and "c \<in> set (uncommented w s) \<Longrightarrow> find_loop w s c = length (takeWhile (\<lambda>x. x \<noteq> c) s)"
  using assms by (induction s arbitrary: w) (auto simp: char_at_Cons_Suc split: if_splits)

lemma find_loop_nul:
  "nul \<notin> set s \<Longrightarrow>
    (if char_at s (find_loop w s nul) = CHR '';'' then take (find_loop w s nul) s else s) = uncommented w s"
proof (induction s arbitrary: w)
  case (Cons x s)
  from Cons.prems Cons.IH [of "isspace x"] show ?case by (auto simp: char_at_Cons_Suc split: if_splits)
qed simp

lemma take_takeWhile_length: "take (length (takeWhile P s)) s = takeWhile P s"
  by (induction s) auto

lemma drop_takeWhile_length: "drop (length (takeWhile P s)) s = dropWhile P s"
  by (induction s) auto

lemma pair_value_uncommented:
  "nul \<notin> set s \<Longrightarrow> pair_value s = trim_right (uncommented False (dropWhile isspace s))"
  using find_loop_nul [of "dropWhile isspace s" False] set_dropWhileD [of nul isspace s]
  by (force simp: pair_value_def find_char_or_comment_def lskip_dropWhile trim_right_rstrip Let_def)

lemma bom_length_take:
  "bom_length k line = (if k = 1 \<and> take 3 line = [CHR 0xEF, CHR 0xBB, CHR 0xBF] then 3 else 0)"
proof -
  consider "length line < 3" | a b c l where "line = a # b # c # l"
    by (cases line; cases "tl line"; cases "tl (tl line)") auto
  then show ?thesis
    by cases (auto simp: bom_length_def char_at_def nth_Cons' take_Cons' numeral_3_eq_3)
qed

lemma section_line_text:
  "section_line (CHR ''['' # s) st =
     (if CHR '']'' \<in> set (uncommented False s)
      then st\<lparr>cur_section := take 49 (takeWhile (\<lambda>x. x \<noteq> CHR '']'') s), prev_name := []\<rparr>
      else note_error st)"
  by (simp add: section_line_def find_char_or_comment_def find_loop_uncommented strncpy0_def
    MAX_SECTION_def take_takeWhile_length)

lemma pair_line_text:
  assumes "nul \<notin> set t"
  shows "pair_line h t st =
    (case (if CHR ''='' \<in> set (uncommented False t) then split_pair CHR ''='' t
           else if CHR '':'' \<in> set (uncommented False t) then split_pair CHR '':'' t else Malformed)
     of NameValue name v \<Rightarrow> call_handler h name v (st\<lparr>prev_name := take 49 name\<rparr>) | _ \<Rightarrow> note_error st)"
proof -
  have tail: "nul \<notin> set (tl (dropWhile P t))" for P
  proof -
    have "set (tl xs) \<subseteq> set xs" for xs :: string by (cases xs) auto
    then show ?thesis using assms set_dropWhileD [of nul P t] by blast
  qed
  have after: "drop (Suc (length (takeWhile P t))) t = tl (dropWhile P t)" for P
    by (simp add: drop_Suc drop_takeWhile_length flip: tl_drop)
  have stop: "char_at t (find_loop False t c) \<in> {c, CHR '';'', nul}" for c
    using find_loop_stops [of False t c] by (auto simp: char_at_def)
  have at: "char_at t (find_loop False t c) = c \<longleftrightarrow> c \<in> set (uncommented False t)"
    and len: "c \<in> set (uncommented False t) \<Longrightarrow> find_loop False t c = length (takeWhile (\<lambda>x. x \<noteq> c) t)"
    if "c \<in> {CHR ''='', CHR '':''}" for c
    using that find_loop_uncommented [where c = c and s = t and w = False] by auto
  have pair: "call_handler h (rstrip (take (find_loop False t c) t))
        (pair_value (drop (Suc (find_loop False t c)) t))
        (st\<lparr>prev_name := strncpy0 (rstrip (take (find_loop False t c) t)) MAX_NAME\<rparr>) =
      (case split_pair c t of NameValue name v \<Rightarrow> call_handler h name v (st\<lparr>prev_name := take 49 name\<rparr>))"
    if "c \<in> {CHR ''='', CHR '':''}" and "c \<in> set (uncommented False t)" for c
    using that(2) by (simp add: len [OF that] split_pair_def strncpy0_def MAX_NAME_def
      take_takeWhile_length after tail pair_value_uncommented trim_right_rstrip)
  consider "CHR ''='' \<in> set (uncommented False t)"
    | "CHR ''='' \<notin> set (uncommented False t)" "CHR '':'' \<in> set (uncommented False t)"
    | "CHR ''='' \<notin> set (uncommented False t)" "CHR '':'' \<notin> set (uncommented False t)" by blast
  then show ?thesis
  proof cases
    case 1
    then show ?thesis
      using at [of "CHR ''=''"] pair [of "CHR ''=''"]
      by (simp add: pair_line_def pair_end_def find_char_or_comment_def Let_def split_pair_def)
  next
    case 2
    then show ?thesis
      using at [of "CHR ''=''"] at [of "CHR '':''"] pair [of "CHR '':''"]
      by (simp add: pair_line_def pair_end_def find_char_or_comment_def Let_def split_pair_def)
  next
    case 3
    then show ?thesis
      using at [of "CHR ''=''"] at [of "CHR '':''"] stop [of "CHR '':''"]
      by (auto simp: pair_line_def pair_end_def find_char_or_comment_def Let_def)
  qed
qed

lemma ini_dispatch_text:
  assumes "nul \<notin> set t"
  shows "ini_dispatch h k t st =
    (case text_kind (prev_name st \<noteq> []) (0 < k) t of
       Ignored \<Rightarrow> st
     | Malformed \<Rightarrow> note_error st
     | Heading s \<Rightarrow> st\<lparr>cur_section := take 49 s, prev_name := []\<rparr>
     | Continued v \<Rightarrow> call_handler h (prev_name st) v st
     | NameValue name v \<Rightarrow> call_handler h name v (st\<lparr>prev_name := take 49 name\<rparr>))"
proof (cases t)
  case (Cons c t')
  then show ?thesis
    using assms by (simp add: ini_dispatch_def text_kind_def section_line_text pair_line_text split_pair_def)
qed (simp add: ini_dispatch_def text_kind_def)

lemma ini_line_kind:
  assumes "0 \<le> lineno st"
  shows "ini_line h buf st =
    (let st' = st\<lparr>lineno := lineno st + 1\<rparr>
     in case kind_of_line (Suc (nat (lineno st))) (prev_name st \<noteq> []) buf of
          Ignored \<Rightarrow> st'
        | Malformed \<Rightarrow> note_error st'
        | Heading s \<Rightarrow> st'\<lparr>cur_section := take 49 s, prev_name := []\<rparr>
        | Continued v \<Rightarrow> call_handler h (prev_name st) v st'
        | NameValue name v \<Rightarrow> call_handler h name v (st'\<lparr>prev_name := take 49 name\<rparr>))"
proof -
  let ?line = "takeWhile (\<lambda>x. x \<noteq> nul) buf"
  let ?bom = "lineno st = 0 \<and> take 3 ?line = [CHR 0xEF, CHR 0xBB, CHR 0xBF]"
  let ?body = "trim_right (if ?bom then drop 3 ?line else ?line)"
  let ?t = "dropWhile isspace ?body"
  have "nul \<notin> set ?line" by (auto dest: set_takeWhileD)
  then have nul: "nul \<notin> set ?t"
    by (auto simp: trim_right_def dest!: set_dropWhileD in_set_dropD split: if_splits)
  have moved: "0 < (if ?bom then 3 else 0) + lskip ?body \<longleftrightarrow> ?bom \<or> ?body \<noteq> [] \<and> isspace (hd ?body)"
    by (cases ?body) auto
  have one: "Suc (nat (lineno st)) = 1 \<longleftrightarrow> lineno st = 0" using assms by auto
  let ?k = "(if ?bom then 3 else 0) + lskip ?body" and ?st = "st\<lparr>lineno := lineno st + 1\<rparr>"
  have line: "ini_line h buf st = ini_dispatch h ?k ?t ?st"
    by (cases ?bom) (auto simp: ini_line_def c_str_def bom_length_take trim_right_rstrip lskip_dropWhile Let_def)
  have kind: "kind_of_line (Suc (nat (lineno st))) p buf = text_kind p (0 < ?k) ?t" for p
    unfolding kind_of_line_def one Let_def moved ..
  have "prev_name ?st = prev_name st" by simp
  then show ?thesis
    using ini_dispatch_text [OF nul, of h ?k ?st] unfolding line kind Let_def by presburger
qed

lemma fold_failing_lines:
  assumes "0 \<le> lineno st"
  shows "(let st' = fold (ini_line h) bufs st;
              (ns, u') = failing_lines h (Suc (nat (lineno st))) (cur_section st) (prev_name st) (user st) bufs
          in error st' = (if error st \<noteq> 0 then error st else first_or_0 ns) \<and> user st' = u')"
  using assms
proof (induction bufs arbitrary: st)
  case (Cons buf bufs)
  have IH: "lineno st' = lineno st + 1 \<Longrightarrow>
      error (fold (ini_line h) bufs st') = (if error st' \<noteq> 0 then error st' else first_or_0 (fst (failing_lines h
        (Suc (Suc (nat (lineno st)))) (cur_section st') (prev_name st') (user st') bufs))) \<and>
      user (fold (ini_line h) bufs st') = snd (failing_lines h
        (Suc (Suc (nat (lineno st)))) (cur_section st') (prev_name st') (user st') bufs)" for st'
    using Cons.IH [of st'] Cons.prems by (auto simp: Let_def split_beta nat_add_distrib)
  have n: "int (Suc (nat (lineno st))) = lineno st + 1" using Cons.prems by simp
  show ?case
    using Cons.prems n
    by (cases "kind_of_line (Suc (nat (lineno st))) (prev_name st \<noteq> []) buf")
      (simp_all add: IH ini_line_kind [OF Cons.prems] Let_def split_beta first_or_0_def del: of_nat_Suc)
qed (simp add: first_or_0_def)

text \<open>
  C13. What \<open>ini_parse_file\<close> returns is the number of the first line of the file that fails, and 0
  when none does: a line fails when it is malformed (a heading without its bracket, a text that is
  no pair) or when the callback refuses its pair. Later lines are still parsed: the caller's data is
  that of the callback run on every heading, pair and continued value of the file.
\<close>

theorem ini_parse_first_error:
  "ini_parse_file h cs u = apfst first_or_0 (failing_lines h 1 [] [] u (file_lines cs))"
  using fold_failing_lines [of "ini_init u" h "file_lines cs"]
  by (cases "failing_lines h 1 [] [] u (file_lines cs)")
    (simp add: ini_parse_file_def parse_lines_fold ini_init_def Let_def)

end
