(* ===== verification/IniReader.thy ===== *)
theory IniReader
  imports Ini
begin

text \<open>
  The class \<open>INIReader\<close>: the callback \<open>ValueHandler\<close> that collects the pairs of a file, the
  constructor, and the typed getters. \<open>std::map\<close> is a map, \<open>std::set<std::string>\<close> the strictly
  ascending list of its elements, which is the order in which its iterators visit them.

  The theory proves that \<open>ValueHandler\<close> meets the contract the parser asks of a callback, that the
  reader's index structures stay consistent, and what the getters return for a printed file.
\<close>

subsection \<open>State and operations\<close>

record INIReader =
  ini_error :: int
  ini_values :: "string \<Rightarrow> string option"
  ini_sections :: "string list"
  ini_fields :: "string \<Rightarrow> string list option"

definition lower :: "string \<Rightarrow> string" where
  "lower s = map tolower s"

definition std_set_insert :: "string \<Rightarrow> string list \<Rightarrow> string list" where
  "std_set_insert x s = insort_insert x s"

definition MakeKey :: "string \<Rightarrow> string \<Rightarrow> string" where
  "MakeKey sec name = lower (sec @ ''='' @ name)"

definition append_value :: "string \<Rightarrow> string \<Rightarrow> string" where
  "append_value old val = (if 0 < length old then old @ [newline] else old) @ val"

definition ValueHandler :: "INIReader \<Rightarrow> string \<Rightarrow> string \<Rightarrow> string \<Rightarrow> bool \<times> INIReader" where
  "ValueHandler reader sec name val =
     (let key = MakeKey sec name;
          old = (case ini_values reader key of Some v \<Rightarrow> v | None \<Rightarrow> []);
          sectionKey = lower sec;
          fieldsSet = (case ini_fields reader sectionKey of None \<Rightarrow> [] | Some fs \<Rightarrow> fs)
      in (True, reader\<lparr>ini_values := (ini_values reader)(key \<mapsto> append_value old val),
                       ini_sections := std_set_insert sec (ini_sections reader),
                       ini_fields := (ini_fields reader)(sectionKey \<mapsto> std_set_insert name fieldsSet)\<rparr>))"

definition empty_reader :: INIReader where
  "empty_reader = \<lparr>ini_error = 0, ini_values = Map.empty, ini_sections = [], ini_fields = Map.empty\<rparr>"

definition INIReader_new :: "files \<Rightarrow> string \<Rightarrow> INIReader" where
  "INIReader_new fs filename =
     (let (e, r) = ini_parse fs filename ValueHandler empty_reader in r\<lparr>ini_error := e\<rparr>)"

definition ParseError :: "INIReader \<Rightarrow> int" where
  "ParseError r = ini_error r"

definition Get :: "INIReader \<Rightarrow> string \<Rightarrow> string \<Rightarrow> string \<Rightarrow> string" where
  "Get r sec name default_value =
     (case ini_values r (MakeKey sec name) of Some v \<Rightarrow> v | None \<Rightarrow> default_value)"

definition GetInteger :: "INIReader \<Rightarrow> string \<Rightarrow> string \<Rightarrow> int \<Rightarrow> int" where
  "GetInteger r sec name default_value =
     (case strtol0 (c_str (Get r sec name [])) of Some n \<Rightarrow> n | None \<Rightarrow> default_value)"

definition GetBoolean :: "INIReader \<Rightarrow> string \<Rightarrow> string \<Rightarrow> bool \<Rightarrow> bool" where
  "GetBoolean r sec name default_value =
     (let valstr = lower (Get r sec name [])
      in if valstr = ''true'' \<or> valstr = ''yes'' \<or> valstr = ''on'' \<or> valstr = ''1'' then True
         else if valstr = ''false'' \<or> valstr = ''no'' \<or> valstr = ''off'' \<or> valstr = ''0'' then False
         else default_value)"

definition GetSections :: "INIReader \<Rightarrow> string list" where
  "GetSections r = ini_sections r"

definition GetFields :: "INIReader \<Rightarrow> string \<Rightarrow> string list" where
  "GetFields r sec = (case ini_fields r (lower sec) of None \<Rightarrow> [] | Some fs \<Rightarrow> fs)"

subsection \<open>Specification vocabulary\<close>

text \<open>The sets are sorted without repetition, and the three index structures agree.\<close>

definition reader_inv :: "INIReader \<Rightarrow> bool" where
  "reader_inv r \<longleftrightarrow>
     sorted (ini_sections r) \<and> distinct (ini_sections r) \<and>
     (\<forall>sk fs. ini_fields r sk = Some fs \<longrightarrow> sorted fs \<and> distinct fs \<and> fs \<noteq> [] \<and>
        (\<forall>n \<in> set fs. lower (sk @ ''='' @ n) \<in> dom (ini_values r))) \<and>
     (\<forall>s \<in> set (ini_sections r). lower s \<in> dom (ini_fields r))"

text \<open>The text \<open>Get\<close> returns for a key after a sequence of handler calls.\<close>

definition joined :: "string \<Rightarrow> (string \<times> string \<times> string) list \<Rightarrow> string option" where
  "joined key calls =
     foldl (\<lambda>acc (s, n, v). if MakeKey s n = key
              then Some (append_value (case acc of Some a \<Rightarrow> a | None \<Rightarrow> []) v) else acc) None calls"

text \<open>
  The same said of the printed pairs alone: a name is compared letter by letter without case, and
  several values of one name stand on lines of their own, without the empty ones in front.
\<close>

definition caseless :: "string \<Rightarrow> string \<Rightarrow> bool" where
  "caseless s t \<longleftrightarrow> length s = length t \<and> (\<forall>i < length s. tolower (s ! i) = tolower (t ! i))"

fun on_lines :: "string list \<Rightarrow> string" where
  "on_lines [] = []"
| "on_lines [v] = v"
| "on_lines (v # w # vs) = v @ newline # on_lines (w # vs)"

definition values_printed :: "string \<Rightarrow> string \<Rightarrow> (string \<times> string \<times> string) list \<Rightarrow> string list" where
  "values_printed sec name calls =
     map (snd \<circ> snd) (filter (\<lambda>(s, n, v). caseless s sec \<and> caseless n name) calls)"

definition value_printed :: "string \<Rightarrow> string \<Rightarrow> (string \<times> string \<times> string) list \<Rightarrow> string option" where
  "value_printed sec name calls =
     (let vs = values_printed sec name calls
      in if vs = [] then None else Some (on_lines (dropWhile (\<lambda>v. v = []) vs)))"

subsection \<open>Ordered sets\<close>

text \<open>The contract of the ordered sets: insertion adds the element and keeps iteration canonical.\<close>

locale ordered_set =
  fixes ins :: "'k::linorder \<Rightarrow> 's \<Rightarrow> 's" and items :: "'s \<Rightarrow> 'k list" and ok :: "'s \<Rightarrow> bool"
  assumes ins_set: "set (items (ins k s)) = insert k (set (items s))"
    and ins_ok: "ok s \<Longrightarrow> ok (ins k s)"
    and ok_iff: "ok s \<longleftrightarrow> sorted (items s) \<and> distinct (items s)"
begin

lemma fold_ins_set: "set (items (fold ins ks s)) = set ks \<union> set (items s)"
  by (induction ks arbitrary: s) (auto simp: ins_set)

lemma fold_ins_ok: "ok s \<Longrightarrow> ok (fold ins ks s)"
  by (induction ks arbitrary: s) (simp_all add: ins_ok)

text \<open>Two sets with the same elements are iterated alike, whatever the insertion order.\<close>

lemma iteration_canonical:
  "ok s \<Longrightarrow> ok t \<Longrightarrow> set (items s) = set (items t) \<Longrightarrow> items s = items t"
  by (simp add: ok_iff sorted_distinct_set_unique)

end

interpretation string_set: ordered_set std_set_insert "\<lambda>s. s" "\<lambda>s. sorted s \<and> distinct s"
  by unfold_locales
    (simp_all add: std_set_insert_def set_insort_insert sorted_insort_insert distinct_insort_insert)

subsection \<open>Keys\<close>

lemma tolower_eq_equals [simp]: "tolower c = CHR ''='' \<longleftrightarrow> c = CHR ''=''"
proof -
  have "tolower c \<noteq> c \<Longrightarrow> tolower c \<noteq> CHR ''='' \<and> c \<noteq> CHR ''=''"
  proof -
    assume a: "tolower c \<noteq> c"
    then have r: "65 \<le> (of_char c :: nat)" "(of_char c :: nat) \<le> 90"
      by (auto simp: tolower_def Let_def split: if_splits)
    then have "tolower c = char_of ((of_char c :: nat) + 32)" by (simp add: tolower_def)
    then have "97 \<le> (of_char (tolower c) :: nat)" using r by simp
    then show ?thesis using r by auto
  qed
  then show ?thesis by (cases "tolower c = c") auto
qed

lemma lower_append [simp]: "lower (s @ t) = lower s @ lower t"
  by (simp add: lower_def)

lemma lower_lower [simp]: "lower (lower s) = lower s"
  by (simp add: lower_def comp_def)

lemma lower_Nil_iff [simp]: "lower s = [] \<longleftrightarrow> s = []"
  by (simp add: lower_def)

lemma equals_in_lower [simp]: "CHR ''='' \<in> set (lower s) \<longleftrightarrow> CHR ''='' \<in> set s"
  by (auto simp: lower_def image_iff) (metis tolower_eq_equals)+

lemma lower_Cons_equals [simp]: "lower (CHR ''='' # n) = CHR ''='' # lower n"
  by (simp add: lower_def)

lemma split_last_eq:
  assumes "s @ c # n = s' @ c # n'" and "c \<notin> set n" and "c \<notin> set n'"
  shows "s = s' \<and> n = n'"
  using assms by (induction s arbitrary: s') (auto simp: Cons_eq_append_conv)

lemma MakeKey_eq_iff:
  assumes "CHR ''='' \<notin> set n" and "CHR ''='' \<notin> set n'"
  shows "MakeKey s n = MakeKey s' n' \<longleftrightarrow> lower s = lower s' \<and> lower n = lower n'"
proof
  assume "MakeKey s n = MakeKey s' n'"
  then show "lower s = lower s' \<and> lower n = lower n'"
    using split_last_eq [of "lower s" "CHR ''=''" "lower n" "lower s'" "lower n'"] assms
    by (simp add: MakeKey_def)
qed (simp add: MakeKey_def)

subsection \<open>The handler meets the parser's contract\<close>

lemma ValueHandler_simps [simp]:
  "fst (ValueHandler r s n v)"
  "ini_error (snd (ValueHandler r s n v)) = ini_error r"
  "ini_values (snd (ValueHandler r s n v)) = (ini_values r)(MakeKey s n \<mapsto>
     append_value (case ini_values r (MakeKey s n) of Some a \<Rightarrow> a | None \<Rightarrow> []) v)"
  "ini_sections (snd (ValueHandler r s n v)) = std_set_insert s (ini_sections r)"
  "ini_fields (snd (ValueHandler r s n v)) = (ini_fields r)(lower s \<mapsto>
     std_set_insert n (case ini_fields r (lower s) of None \<Rightarrow> [] | Some fs \<Rightarrow> fs))"
  by (simp_all add: ValueHandler_def Let_def)

lemma std_set_insert_simps [simp]:
  "set (std_set_insert x s) = insert x (set s)"
  "sorted s \<Longrightarrow> sorted (std_set_insert x s)" "distinct s \<Longrightarrow> distinct (std_set_insert x s)"
  "std_set_insert x s \<noteq> []"
  using string_set.ins_set [of x s]
  by (auto simp: std_set_insert_def sorted_insort_insert distinct_insort_insert)

lemma reader_inv_ValueHandler: "reader_inv r \<Longrightarrow> reader_inv (snd (ValueHandler r s n v))"
  by (auto simp: reader_inv_def MakeKey_def split: option.splits if_splits
      dest!: sym [of "Some _"]) fastforce

lemma reader_inv_empty: "reader_inv empty_reader"
  by (simp add: reader_inv_def empty_reader_def)

interpretation reader: ini_handler ValueHandler reader_inv
  by unfold_locales (simp_all add: reader_inv_ValueHandler)


subsection \<open>What the getters see after a sequence of handler calls\<close>

lemma run_calls_Nil [simp]: "run_calls h [] u = u"
  by (simp add: run_calls_def)

lemma run_calls_Cons [simp]: "run_calls h ((s, n, v) # cs) u = run_calls h cs (snd (h u s n v))"
  by (simp add: run_calls_def)

lemma run_calls_values:
  "ini_values (run_calls ValueHandler cs r) key =
     foldl (\<lambda>acc (s, n, v). if MakeKey s n = key
       then Some (append_value (case acc of Some a \<Rightarrow> a | None \<Rightarrow> []) v) else acc)
       (ini_values r key) cs"
  by (induction cs arbitrary: r) auto

lemma run_calls_joined: "ini_values (run_calls ValueHandler cs empty_reader) key = joined key cs"
  by (simp add: run_calls_values joined_def empty_reader_def)

lemma run_calls_sections:
  "set (GetSections (run_calls ValueHandler cs r)) = set (map fst cs) \<union> set (GetSections r)"
proof (induction cs arbitrary: r)
  case (Cons c cs)
  obtain s n v where c: "c = (s, n, v)" by (cases c)
  show ?case
    using Cons.IH [of "snd (ValueHandler r s n v)"] by (simp add: c GetSections_def)
qed simp

lemma GetFields_ValueHandler:
  "set (GetFields (snd (ValueHandler r s n v)) sec) =
     (if lower s = lower sec then insert n (set (GetFields r sec)) else set (GetFields r sec))"
  by (auto simp: GetFields_def split: option.splits)

lemma run_calls_fields:
  "set (GetFields (run_calls ValueHandler cs r) sec) =
     {n. \<exists>s v. (s, n, v) \<in> set cs \<and> lower s = lower sec} \<union> set (GetFields r sec)"
proof (induction cs arbitrary: r)
  case (Cons c cs)
  obtain s n v where c: "c = (s, n, v)" by (cases c)
  show ?case
    unfolding c run_calls_Cons Cons.IH GetFields_ValueHandler by auto
qed simp

lemma run_calls_error [simp]: "ini_error (run_calls ValueHandler cs r) = ini_error r"
  by (induction cs arbitrary: r) auto

lemma foldl_joined_extends:
  "\<exists>rest. foldl (\<lambda>acc (s, n, v). if MakeKey s n = key
      then Some (append_value (case acc of Some a \<Rightarrow> a | None \<Rightarrow> []) v) else acc) (Some (w @ r)) cs =
     Some (w @ rest) \<and> (rest = [] \<or> hd rest = newline)"
  if "w \<noteq> []" "r = [] \<or> hd r = newline"
  using that(2)
proof (induction cs arbitrary: r)
  case (Cons c cs)
  obtain s n v where c: "c = (s, n, v)" by (cases c)
  have "append_value (w @ r) v = w @ (r @ newline # v)" using that(1) by (simp add: append_value_def)
  moreover have "r @ newline # v = [] \<or> hd (r @ newline # v) = newline"
    using Cons.prems by (cases r) auto
  ultimately show ?case using Cons.IH [of r] Cons.IH [of "r @ newline # v"] Cons.prems c by auto
qed simp

lemma joined_None:
  "\<forall>(s, n, v) \<in> set cs. MakeKey s n \<noteq> key \<Longrightarrow> joined key cs = None"
  unfolding joined_def by (induction cs) auto

lemma joined_first:
  assumes "MakeKey s n = key" and "v \<noteq> []"
    and "\<And>s' n' v'. (s', n', v') \<in> set before \<Longrightarrow> MakeKey s' n' \<noteq> key"
  shows "\<exists>rest. joined key (before @ (s, n, v) # cs) = Some (v @ rest) \<and>
     (rest = [] \<or> hd rest = newline)"
proof -
  have "joined key before = None"
    using assms(3) by (intro joined_None) auto
  then show ?thesis
    using foldl_joined_extends [of v "[]" key cs] assms(1,2)
    by (simp add: joined_def append_value_def)
qed

lemma caseless_lower: "caseless s t \<longleftrightarrow> lower s = lower t"
  by (auto simp: caseless_def lower_def list_eq_iff_nth_eq)

lemma on_lines_snoc: "on_lines (vs @ [v]) = (if vs = [] then v else on_lines vs @ newline # v)"
  by (induction vs rule: on_lines.induct) auto

lemma on_lines_Nil_iff: "on_lines (dropWhile (\<lambda>v. v = []) vs) = [] \<longleftrightarrow> dropWhile (\<lambda>v. v = []) vs = []"
proof (cases "dropWhile (\<lambda>v. v = []) vs")
  case Nil
  show ?thesis unfolding Nil by simp
next
  case (Cons w ws)
  then have "w \<noteq> []" using hd_dropWhile [of "\<lambda>v. v = []" vs] by (metis list.sel(1) list.distinct(1))
  then show ?thesis unfolding Cons by (cases ws) auto
qed

lemma on_lines_append_value:
  "append_value (on_lines (dropWhile (\<lambda>v. v = []) vs)) v = on_lines (dropWhile (\<lambda>v. v = []) (vs @ [v]))"
proof (cases "\<forall>x \<in> set vs. x = []")
  case True
  then have none: "dropWhile (\<lambda>v. v = []) vs = []" by simp
  show ?thesis unfolding none using True by (simp add: append_value_def dropWhile_append2)
next
  case False
  then obtain x where x: "x \<in> set vs" "x \<noteq> []" by blast
  then have "dropWhile (\<lambda>v. v = []) (vs @ [v]) = dropWhile (\<lambda>v. v = []) vs @ [v]"
    by (simp add: dropWhile_append1)
  moreover have "dropWhile (\<lambda>v. v = []) vs \<noteq> []" using x by auto
  ultimately show ?thesis
    using on_lines_Nil_iff [of vs] by (simp add: append_value_def on_lines_snoc)
qed

lemma joined_value_printed:
  assumes "CHR ''='' \<notin> set name" and "\<And>s n v. (s, n, v) \<in> set calls \<Longrightarrow> CHR ''='' \<notin> set n"
  shows "joined (MakeKey sec name) calls = value_printed sec name calls"
  using assms(2)
proof (induction calls rule: rev_induct)
  case (snoc c calls)
  obtain s n v where c: "c = (s, n, v)" by (cases c)
  have key: "MakeKey s n = MakeKey sec name \<longleftrightarrow> caseless s sec \<and> caseless n name"
    using MakeKey_eq_iff assms(1) snoc.prems [of s n v] by (simp add: c caseless_lower)
  have IH: "joined (MakeKey sec name) calls = value_printed sec name calls"
    by (rule snoc.IH) (use snoc.prems in auto)
  have j: "joined (MakeKey sec name) (calls @ [c]) =
      (if caseless s sec \<and> caseless n name
       then Some (append_value (case joined (MakeKey sec name) calls of Some a \<Rightarrow> a | None \<Rightarrow> []) v)
       else joined (MakeKey sec name) calls)"
    by (simp add: joined_def c key)
  show ?case
    unfolding j IH
    using on_lines_append_value [of "values_printed sec name calls" v]
    by (auto simp: value_printed_def values_printed_def c Let_def append_value_def)
qed (simp add: joined_def value_printed_def values_printed_def)

lemma ini_calls_names:
  "(s, n, v) \<in> set (ini_calls sec is) \<Longrightarrow> (\<And>i. i \<in> set is \<Longrightarrow> clean_item i) \<Longrightarrow> CHR ''='' \<notin> set n"
proof (induction "is" arbitrary: sec)
  case (Cons i "is")
  from Cons.prems Cons.IH show ?case by (cases i) force+
qed simp

subsection \<open>Properties of the reader\<close>

text \<open>
  C16. Whatever the file holds, and also when it cannot be opened, the constructed reader is
  consistent: its sections and every field set are sorted and free of repetitions, every
  recorded section has a field set, and every recorded field has a value.
\<close>

theorem INIReader_new_inv: "reader_inv (INIReader_new fs filename)"
proof -
  have upd: "reader_inv (r\<lparr>ini_error := e\<rparr>) = reader_inv r" for r e by (simp add: reader_inv_def)
  show ?thesis
  proof (cases "fs filename")
    case None
    then show ?thesis by (simp add: INIReader_new_def ini_parse_def upd reader_inv_empty)
  next
    case (Some cs)
    then show ?thesis
      using reader.parse_file_user_inv [OF reader_inv_empty, of cs]
      by (cases "ini_parse_file ValueHandler cs empty_reader")
        (simp add: INIReader_new_def ini_parse_def upd)
  qed
qed

lemma INIReader_new_printed:
  assumes "fs filename = Some (print_ini is)" and "\<And>i. i \<in> set is \<Longrightarrow> clean_item i"
  shows "INIReader_new fs filename = run_calls ValueHandler (ini_calls [] is) empty_reader"
proof -
  have upd: "ini_error r = 0 \<Longrightarrow> r\<lparr>ini_error := 0\<rparr> = r" for r :: INIReader
    by (cases r) simp
  have "ini_error (run_calls ValueHandler cs empty_reader) = 0" for cs
    by (simp add: empty_reader_def)
  note this [THEN upd]
  then show ?thesis
    using reader.parse_printed [OF assms(2) reader_inv_empty] assms(1)
    by (simp add: INIReader_new_def ini_parse_def)
qed

text \<open>
  C14. Reading back a printed document: no parse error is reported, \<open>Get\<close> returns for every
  name without an equals sign the values printed for it, on lines of their own and without the
  empty ones in front (sections and names are compared without case), and the default when there
  are none; the sections and the fields of a section are exactly the printed ones.
\<close>

theorem INIReader_reads_printed:
  assumes "fs filename = Some (print_ini is)" and "\<forall>i \<in> set is. clean_item i"
    and "CHR ''='' \<notin> set name"
  shows "let r = INIReader_new fs filename; calls = ini_calls [] is in
    ParseError r = 0 \<and>
    Get r sec name d = (case value_printed sec name calls of Some v \<Rightarrow> v | None \<Rightarrow> d) \<and>
    set (GetSections r) = set (map fst calls) \<and>
    set (GetFields r sec) = {n. \<exists>s v. (s, n, v) \<in> set calls \<and> caseless s sec}"
proof -
  have r: "INIReader_new fs filename = run_calls ValueHandler (ini_calls [] is) empty_reader"
    using assms by (intro INIReader_new_printed) auto
  have "joined (MakeKey sec name) (ini_calls [] is) = value_printed sec name (ini_calls [] is)"
    using assms by (intro joined_value_printed) (auto dest: ini_calls_names)
  then show ?thesis
    by (simp add: Let_def r Get_def run_calls_joined run_calls_sections run_calls_fields ParseError_def
      caseless_lower) (simp add: empty_reader_def GetSections_def GetFields_def)
qed

theorem INIReader_reads_printed_witness:
  "let is = [Section ''Sec'', Setting ''Key'' ''0x1F'', Setting ''Two'' ''a'', Section ''sEC'', Setting ''tWO'' ''b''];
     r = INIReader_new [''a.ini'' \<mapsto> print_ini is] ''a.ini''
   in ParseError r = 0 \<and> Get r ''SEC'' ''Key'' [] = ''0x1F'' \<and> Get r ''SEC'' ''TWO'' [] = ''a'' @ newline # ''b''"
proof -
  let ?is = "[Section ''Sec'', Setting ''Key'' ''0x1F'', Setting ''Two'' ''a'', Section ''sEC'', Setting ''tWO'' ''b'']"
  let ?fs = "[''a.ini'' \<mapsto> print_ini ?is]"
  have clean: "\<forall>i \<in> set ?is. clean_item i"
    by (simp add: plain_def isspace_def MAX_SECTION_def INI_MAX_LINE_def)
  have "value_printed ''SEC'' ''Key'' (ini_calls [] ?is) = Some ''0x1F''"
    "value_printed ''SEC'' ''TWO'' (ini_calls [] ?is) = Some (''a'' @ newline # ''b'')"
    by (simp_all add: value_printed_def values_printed_def caseless_lower lower_def tolower_def char_of_def
      bit_0 Let_def)
  then show ?thesis
    using INIReader_reads_printed [of ?fs "''a.ini''" ?is "''Key''" "''SEC''" "[]"]
      INIReader_reads_printed [of ?fs "''a.ini''" ?is "''TWO''" "''SEC''" "[]"] clean
    by (simp add: Let_def)
qed

text \<open>
  When the file cannot be opened the reader reports -1 and every getter returns the
  caller's default, with no sections and no fields.
\<close>

theorem INIReader_missing_file:
  assumes "fs filename = None"
  shows "let r = INIReader_new fs filename in
    ParseError r = -1 \<and> Get r sec name d = d \<and> GetInteger r sec name n = n \<and>
    GetBoolean r sec name b = b \<and> GetSections r = [] \<and> GetFields r sec = []"
  using assms
  by (simp add: INIReader_new_def ini_parse_def empty_reader_def ParseError_def Get_def
    GetInteger_def GetBoolean_def GetSections_def GetFields_def strtol0_def sign_of_def base_of_def
    hex_prefixed_def lower_def Let_def)

theorem INIReader_missing_file_witness:
  "ParseError (INIReader_new Map.empty ''none.ini'') = -1 \<and>
   GetInteger (INIReader_new Map.empty ''none.ini'') ''s'' ''k'' 7 = 7"
  using INIReader_missing_file [of Map.empty "''none.ini''" "''s''" "''k''" "[]" 7 True]
  by (simp add: Let_def)

end
