(* ===== verification/ConfigRegister.thy ===== *)
theory ConfigRegister
  imports IniReader
begin

text \<open>
  \<open>ConfigEntry\<close> and \<open>ConfigRegisterBlock\<close>: a named 16-bit register with its default, and a block
  of registers with the messages that program it. The registers and blocks are addressed by signed
  \<open>char\<close>s, which C++ sign-extends before shifting; the model keeps that.

  The theory shows what bytes a configuration message puts on the wire, which registers a message
  list covers, what \<open>readINI\<close> does to every register, the laws of access by name, and the behaviour
  of \<open>ConfigEntry::operator==\<close>, whose first comparison is an assignment.
\<close>

subsection \<open>State and operations\<close>

record ConfigEntry =
  entry_value :: u16
  entry_default :: u16
  entry_address :: u8
  entry_name :: string
  entry_description :: string

definition ConfigEntry_new :: "u16 \<Rightarrow> u8 \<Rightarrow> string \<Rightarrow> string \<Rightarrow> ConfigEntry" where
  "ConfigEntry_new dflt addr nm descr =
     \<lparr>entry_value = dflt, entry_default = dflt, entry_address = addr, entry_name = nm,
      entry_description = descr\<rparr>"

definition ConfigEntry_unused :: "u8 \<Rightarrow> ConfigEntry" where
  "ConfigEntry_unused addr =
     \<lparr>entry_value = 0, entry_default = 0, entry_address = addr, entry_name = ''UNUSED'',
      entry_description = ''Unused''\<rparr>"

text \<open>
  \<open>address=rhs.address && \<dots>\<close> assigns the truth value of the right-hand side to the left
  operand's \<open>address\<close> and returns it; the result is the returned value and the changed operand.
\<close>

definition ConfigEntry_eq :: "ConfigEntry \<Rightarrow> ConfigEntry \<Rightarrow> bool \<times> ConfigEntry" where
  "ConfigEntry_eq lhs rhs =
     (let b = (entry_address rhs \<noteq> 0 \<and> entry_value lhs = entry_value rhs \<and>
               entry_name lhs = entry_name rhs \<and> entry_description lhs = entry_description rhs)
      in (b, lhs\<lparr>entry_address := (if b then 1 else 0)\<rparr>))"

record ConfigRegisterBlock =
  config_entries :: "ConfigEntry list"
  config_messages :: "u32 list"
  block_address :: u8
  block_name :: string
  messages_created :: bool

definition ConfigRegisterBlock_new :: "u8 \<Rightarrow> string \<Rightarrow> ConfigRegisterBlock" where
  "ConfigRegisterBlock_new addr nm =
     \<lparr>config_entries = [], config_messages = [], block_address = addr, block_name = nm,
      messages_created = False\<rparr>"

definition setAddress :: "ConfigRegisterBlock \<Rightarrow> u8 \<Rightarrow> ConfigRegisterBlock" where
  "setAddress b a = b\<lparr>block_address := a\<rparr>"

definition setName :: "ConfigRegisterBlock \<Rightarrow> string \<Rightarrow> ConfigRegisterBlock" where
  "setName b n = b\<lparr>block_name := n\<rparr>"

definition addEntry :: "ConfigRegisterBlock \<Rightarrow> ConfigEntry \<Rightarrow> ConfigRegisterBlock" where
  "addEntry b e = b\<lparr>config_entries := config_entries b @ [e]\<rparr>"

definition entry_selected :: "bool \<Rightarrow> ConfigEntry \<Rightarrow> bool" where
  "entry_selected write_all e \<longleftrightarrow>
     (entry_value e \<noteq> entry_default e \<or> write_all) \<and> entry_name e \<noteq> ''UNUSED''"

text \<open>\<open>address<<24 | entry.address << 16 | entry.value\<close>, the chars promoted to \<open>int\<close>.\<close>

definition config_word :: "u8 \<Rightarrow> ConfigEntry \<Rightarrow> u32" where
  "config_word addr e =
     push_bit 24 (scast addr) OR push_bit 16 (scast (entry_address e)) OR ucast (entry_value e)"

fun messages_loop :: "u8 \<Rightarrow> bool \<Rightarrow> ConfigEntry list \<Rightarrow> u32 list \<Rightarrow> u32 list" where
  "messages_loop addr write_all [] msgs = msgs"
| "messages_loop addr write_all (e # es) msgs =
     messages_loop addr write_all es
       (if entry_selected write_all e then msgs @ [bswap_32 (config_word addr e)] else msgs)"

definition createConfigMessages :: "ConfigRegisterBlock \<Rightarrow> bool \<Rightarrow> ConfigRegisterBlock" where
  "createConfigMessages b write_all =
     b\<lparr>config_messages := messages_loop (block_address b) write_all (config_entries b) [],
       messages_created := True\<rparr>"

definition getConfigMessages :: "ConfigRegisterBlock \<Rightarrow> bool \<Rightarrow> u32 list \<times> ConfigRegisterBlock" where
  "getConfigMessages b write_all =
     (let b' = createConfigMessages b write_all in (config_messages b', b'))"

definition entry_text :: "bool \<Rightarrow> ConfigEntry \<Rightarrow> string" where
  "entry_text write_description e =
     (if write_description
      then '';'' @ showbase_hex (unat (scast (entry_address e) :: u32)) @ '' '' @
           entry_description e @ [newline]
      else []) @
     entry_name e @ '' = '' @ showbase_hex (unat (entry_value e)) @ [newline]"

fun entries_text :: "bool \<Rightarrow> bool \<Rightarrow> ConfigEntry list \<Rightarrow> string" where
  "entries_text write_all write_description [] = []"
| "entries_text write_all write_description (e # es) =
     (if entry_selected write_all e then entry_text write_description e else []) @
     entries_text write_all write_description es"

definition block_writeINI ::
    "ConfigRegisterBlock \<Rightarrow> string \<Rightarrow> bool \<Rightarrow> bool \<Rightarrow> string \<times> ConfigRegisterBlock" where
  "block_writeINI b out write_all write_description =
     (let b' = (if \<not> messages_created b then createConfigMessages b False else b)
      in (out @ ''['' @ block_name b' @ '']'' @ [newline] @
            entries_text write_all write_description (config_entries b'), b'))"

definition findEntry :: "ConfigRegisterBlock \<Rightarrow> string \<Rightarrow> int" where
  "findEntry b nm =
     (case find_first (\<lambda>e. nm = entry_name e) (config_entries b) of Some i \<Rightarrow> int i | None \<Rightarrow> -1)"

definition read_field :: "INIReader \<Rightarrow> string \<Rightarrow> ConfigRegisterBlock \<Rightarrow> ConfigRegisterBlock" where
  "read_field reader f b =
     (let entry = findEntry b f
      in if 0 \<le> entry
         then b\<lparr>config_entries := (config_entries b)[nat entry :=
                (config_entries b ! nat entry)
                  \<lparr>entry_value := word_of_int (GetInteger reader (block_name b) f 0)\<rparr>]\<rparr>
         else b)"

definition block_readINI :: "INIReader \<Rightarrow> ConfigRegisterBlock \<Rightarrow> ConfigRegisterBlock" where
  "block_readINI reader b =
     (if block_name b \<in> set (GetSections reader)
      then fold (read_field reader) (GetFields reader (block_name b)) b
      else b)"

text \<open>
  \<open>getConfigEntry\<close> returns a reference, given here by its index; when no entry has the name the
  function flows off its end without returning, which is undefined behaviour.
\<close>

definition getConfigEntry :: "ConfigRegisterBlock \<Rightarrow> string \<Rightarrow> nat outcome" where
  "getConfigEntry b nm =
     (case find_first (\<lambda>e. entry_name e = nm) (config_entries b) of
        Some i \<Rightarrow> Done i | None \<Rightarrow> UB ''getConfigEntry: no return'')"

subsection \<open>Access by name\<close>

text \<open>
  The contract of a vector whose elements are found by their first occurrence of a name and
  whose payload is written through the returned reference.
\<close>

locale named_items =
  fixes name_of :: "'a \<Rightarrow> string" and sel :: "'a \<Rightarrow> 'v" and upd :: "('v \<Rightarrow> 'v) \<Rightarrow> 'a \<Rightarrow> 'a"
  assumes name_upd: "name_of (upd f a) = name_of a" and sel_upd: "sel (upd f a) = f (sel a)"
begin

lemma names_write: "map name_of (xs[i := upd f (xs ! i)]) = map name_of xs"
proof (cases "i < length xs")
  case True
  then show ?thesis by (simp add: map_update name_upd) (metis list_update_id length_map nth_map)
qed (simp add: list_update_beyond)

lemma find_by_names:
  "find_first (\<lambda>a. name_of a = n) xs = find_first (\<lambda>m. m = n) (map name_of xs)"
  by (simp add: find_first_map comp_def)

lemma find_write:
  "find_first (\<lambda>a. name_of a = n) (xs[i := upd f (xs ! i)]) = find_first (\<lambda>a. name_of a = n) xs"
  by (simp add: find_by_names names_write)

lemma read_write:
  assumes "find_first (\<lambda>a. name_of a = m) xs = Some i" and "find_first (\<lambda>a. name_of a = n) xs = Some j"
  shows "sel (xs[i := upd f (xs ! i)] ! j) = (if m = n then f (sel (xs ! j)) else sel (xs ! j))"
proof (cases "m = n")
  case True
  with assms show ?thesis by (simp add: find_first_Some sel_upd)
next
  case False
  with assms have "i \<noteq> j" by (auto simp: find_first_Some)
  with False show ?thesis by simp
qed

end

interpretation entries: named_items entry_name entry_value entry_value_update
  by unfold_locales simp_all

interpretation blocks: named_items block_name config_entries config_entries_update
  by unfold_locales simp_all


subsection \<open>Messages\<close>

lemma messages_loop_eq:
  "messages_loop addr wa es msgs =
     msgs @ map (\<lambda>e. bswap_32 (config_word addr e)) (filter (entry_selected wa) es)"
  by (induction es arbitrary: msgs) simp_all

lemma createConfigMessages_simps [simp]:
  "config_entries (createConfigMessages b wa) = config_entries b"
  "block_name (createConfigMessages b wa) = block_name b"
  "block_address (createConfigMessages b wa) = block_address b"
  "config_messages (createConfigMessages b wa) =
     map (\<lambda>e. bswap_32 (config_word (block_address b) e)) (filter (entry_selected wa) (config_entries b))"
  "messages_created (createConfigMessages b wa)"
  by (simp_all add: createConfigMessages_def messages_loop_eq)

lemma no_sign_bit: "unat (a::u8) < 128 \<Longrightarrow> 7 \<le> n \<Longrightarrow> \<not> bit a n"
proof -
  assume a: "unat a < 128" and n: "7 \<le> n"
  have "(2::nat) ^ 7 \<le> 2 ^ n" using n by (rule power_increasing) simp
  then have "unat a div 2 ^ n = 0" using a by simp
  then have "\<not> bit (unat a) n" by (simp add: bit_iff_odd)
  then show ?thesis by (simp add: bit_simps)
qed

lemma sign_position: "n < 8 \<Longrightarrow> (if 7 \<le> n then 7 else n) = (n::nat)"
  by auto

lemma bytes_of_config_word:
  assumes "unat (entry_address e) < 128"
  shows "bytes_of_word (bswap_32 (config_word addr e)) =
    [addr, entry_address e, ucast (drop_bit 8 (entry_value e)), ucast (entry_value e)]"
proof -
  note nb = no_sign_bit [OF assms]
  have nv: "\<not> bit (entry_value e) n" if "16 \<le> n" for n
    using bit_imp_le_length [of "entry_value e" n] that by auto
  have "bytes_of_word (config_word addr e) =
      [ucast (entry_value e), ucast (drop_bit 8 (entry_value e)), entry_address e, addr]"
    by (auto simp: bytes_of_word_def config_word_def bit_simps nb nv min_def sign_position intro!: bit_word_eqI)
  then show ?thesis by (simp add: bytes_of_bswap_32)
qed

subsection \<open>Reading a file into a block\<close>

definition field_value :: "INIReader \<Rightarrow> string \<Rightarrow> string \<Rightarrow> u16" where
  "field_value reader sec f = word_of_int (GetInteger reader sec f 0)"

lemma find_first_sym: "find_first (\<lambda>e. nm = entry_name e) es = find_first (\<lambda>e. entry_name e = nm) es"
  by (simp add: eq_commute)

lemma read_field_simps [simp]:
  "block_name (read_field r f b) = block_name b"
  "block_address (read_field r f b) = block_address b"
  "config_messages (read_field r f b) = config_messages b"
  "messages_created (read_field r f b) = messages_created b"
  by (simp_all add: read_field_def Let_def)

lemma read_field_entries:
  "config_entries (read_field r f b) =
     (case find_first (\<lambda>e. entry_name e = f) (config_entries b) of None \<Rightarrow> config_entries b
      | Some i \<Rightarrow> (config_entries b)[i :=
          entry_value_update (\<lambda>_. field_value r (block_name b) f) (config_entries b ! i)])"
  by (simp add: read_field_def Let_def findEntry_def find_first_sym field_value_def split: option.split)

lemma read_field_frame [simp]:
  "length (config_entries (read_field r f b)) = length (config_entries b)"
  "map entry_name (config_entries (read_field r f b)) = map entry_name (config_entries b)"
  by (simp_all add: read_field_entries entries.names_write split: option.split)

lemma find_read_field [simp]:
  "find_first (\<lambda>e. entry_name e = n) (config_entries (read_field r f b)) =
     find_first (\<lambda>e. entry_name e = n) (config_entries b)"
  by (simp add: entries.find_by_names)

lemma read_field_nth:
  assumes "i < length (config_entries b)"
  shows "config_entries (read_field r f b) ! i =
    (if find_first (\<lambda>e. entry_name e = f) (config_entries b) = Some i
     then entry_value_update (\<lambda>_. field_value r (block_name b) f) (config_entries b ! i)
     else config_entries b ! i)"
  using assms by (auto simp: read_field_entries nth_list_update split: option.split)

lemma fold_read_field_simps [simp]:
  "block_name (fold (read_field r) fs b) = block_name b"
  "block_address (fold (read_field r) fs b) = block_address b"
  "length (config_entries (fold (read_field r) fs b)) = length (config_entries b)"
  by (induction fs arbitrary: b) simp_all

lemma fold_read_field_nth:
  assumes "i < length (config_entries b)"
  shows "config_entries (fold (read_field r) fs b) ! i =
    (let e = config_entries b ! i in
     if entry_name e \<in> set fs \<and>
        find_first (\<lambda>e'. entry_name e' = entry_name e) (config_entries b) = Some i
     then e\<lparr>entry_value := field_value r (block_name b) (entry_name e)\<rparr> else e)"
  using assms
proof (induction fs arbitrary: b)
  case (Cons f fs)
  let ?b = "read_field r f b"
  have nm: "entry_name (config_entries ?b ! i) = entry_name (config_entries b ! i)"
    using Cons.prems by (simp add: read_field_nth)
  have hit: "find_first (\<lambda>e. entry_name e = f) (config_entries b) = Some i \<Longrightarrow>
      f = entry_name (config_entries b ! i)"
    by (simp add: find_first_Some)
  have "i < length (config_entries ?b)" using Cons.prems by simp
  from Cons.IH [OF this] show ?case
    unfolding nm using Cons.prems hit by (auto simp: read_field_nth Let_def)
qed simp

lemma length_block_readINI [simp]:
  "length (config_entries (block_readINI r b)) = length (config_entries b)"
  by (simp add: block_readINI_def)

lemma block_readINI_nth:
  assumes "i < length (config_entries b)"
  shows "config_entries (block_readINI r b) ! i =
    (let e = config_entries b ! i in
     if block_name b \<in> set (GetSections r) \<and> entry_name e \<in> set (GetFields r (block_name b)) \<and>
        findEntry b (entry_name e) = int i
     then e\<lparr>entry_value := word_of_int (GetInteger r (block_name b) (entry_name e) 0)\<rparr> else e)"
  using fold_read_field_nth [OF assms]
  by (auto simp: block_readINI_def findEntry_def find_first_sym field_value_def Let_def
    split: option.split)

lemma findEntry_names:
  "map entry_name (config_entries b) = map entry_name (config_entries b') \<Longrightarrow>
     findEntry b n = findEntry b' n"
  by (simp add: findEntry_def find_first_sym entries.find_by_names)

text \<open>
  On the wire a configuration message is four bytes: the block address, the register address
  and the 16-bit value, most significant byte first, provided the register address is below 0x80
  (above it, sign extension would spill into the block address).
\<close>

theorem config_message_wire_format:
  assumes "unat (entry_address e) < 128"
  shows "bytes_of_words [bswap_32 (config_word addr e)] =
    [addr, entry_address e, ucast (drop_bit 8 (entry_value e)), ucast (entry_value e)]"
  using bytes_of_config_word [OF assms] by simp

theorem config_message_wire_format_witness:
  "bytes_of_words [bswap_32 (config_word 0x20 (ConfigEntry_new 0x1234 0x04 ''ADC_CDS_NSkips'' []))] =
    [0x20, 0x04, 0x12, 0x34]"
  using config_message_wire_format [of "ConfigEntry_new 0x1234 0x04 ''ADC_CDS_NSkips'' []" "0x20"]
  by (simp add: ConfigEntry_new_def)

text \<open>
  A block's messages are those of its registers that are not the placeholder \<open>UNUSED\<close> and,
  unless \<open>write_all\<close> is set, differ from their default; in register order, one each. The registers
  themselves are left as they are.
\<close>

theorem getConfigMessages_selects:
  "getConfigMessages b wa = (ms, b') \<Longrightarrow>
     config_entries b' = config_entries b \<and> config_messages b' = ms \<and>
     ms = map (\<lambda>e. bswap_32 (config_word (block_address b) e))
            (filter (\<lambda>e. entry_name e \<noteq> ''UNUSED'' \<and> (wa \<or> entry_value e \<noteq> entry_default e))
               (config_entries b))"
  by (auto simp: getConfigMessages_def Let_def entry_selected_def [abs_def] conj_commute disj_commute)

theorem getConfigMessages_selects_witness:
  "let b = (ConfigRegisterBlock_new 0x20 ''B'')\<lparr>config_entries :=
         [(ConfigEntry_new 1 2 ''A'' [])\<lparr>entry_value := 3\<rparr>, ConfigEntry_new 1 3 ''C'' [], ConfigEntry_unused 4]\<rparr>
   in length (fst (getConfigMessages b False)) = 1"
  using getConfigMessages_selects [of "(ConfigRegisterBlock_new 0x20 ''B'')\<lparr>config_entries :=
      [(ConfigEntry_new 1 2 ''A'' [])\<lparr>entry_value := 3\<rparr>, ConfigEntry_new 1 3 ''C'' [], ConfigEntry_unused 4]\<rparr>"
      False, OF prod.collapse [symmetric]]
  by (simp add: ConfigEntry_new_def ConfigEntry_unused_def)

text \<open>
  \<open>readINI\<close> writes exactly the registers the file names: a register takes the value the
  reader gives for its name when the block has a section, the section has a field spelled like the
  register, and the register is the first of the block with that name. Every other register keeps
  its value, and names, addresses, defaults and descriptions never change.
\<close>

theorem block_readINI_effect:
  assumes "i < length (config_entries b)"
  shows "config_entries (block_readINI r b) ! i =
    (let e = config_entries b ! i in
     if block_name b \<in> set (GetSections r) \<and> entry_name e \<in> set (GetFields r (block_name b)) \<and>
        findEntry b (entry_name e) = int i
     then e\<lparr>entry_value := word_of_int (GetInteger r (block_name b) (entry_name e) 0)\<rparr> else e) \<and>
    length (config_entries (block_readINI r b)) = length (config_entries b)"
  using block_readINI_nth [OF assms, of r] by (simp add: Let_def)

theorem block_readINI_effect_witness:
  "let b = (ConfigRegisterBlock_new 0x20 ''B'')\<lparr>config_entries := [ConfigEntry_new 1 2 ''A'' []]\<rparr>;
       r = snd (ValueHandler empty_reader ''B'' ''A'' ''0x10'')
   in entry_value (config_entries (block_readINI r b) ! 0) = 16"
  using block_readINI_effect [of 0 "(ConfigRegisterBlock_new 0x20 ''B'')\<lparr>config_entries :=
      [ConfigEntry_new 1 2 ''A'' []]\<rparr>" "snd (ValueHandler empty_reader ''B'' ''A'' ''0x10'')"]
  by (simp add: ConfigEntry_new_def ConfigRegisterBlock_new_def GetSections_def GetFields_def empty_reader_def
    std_set_insert_def insort_insert_key_def findEntry_def GetInteger_def Get_def append_value_def
    strtol0_def sign_of_def base_of_def hex_prefixed_def isspace_def is_digit_of_def digit_value_def
    digits_value_def long_clamp_def c_str_def Let_def)

text \<open>
  \<open>ConfigEntry::operator==\<close> does not compare addresses. Its result depends on the right
  operand's address being nonzero and not on the left operand's address at all, so an entry at
  address 0 is not equal to itself and entries at different addresses can be equal; and it
  overwrites the left operand's address with 0 or 1.
\<close>

theorem ConfigEntry_eq_assigns:
  "fst (ConfigEntry_eq (e\<lparr>entry_address := a\<rparr>) (e\<lparr>entry_address := c\<rparr>)) = (c \<noteq> 0) \<and>
   entry_address (snd (ConfigEntry_eq e e')) = (if fst (ConfigEntry_eq e e') then 1 else 0)"
  by (simp add: ConfigEntry_eq_def Let_def)

end
