(* ===== verification/ConfigBlocks.thy ===== *)
theory ConfigBlocks
  imports ConfigRegister
begin

text \<open>
  \<open>ConfigBlockList\<close>: the master table of configuration registers of the ODILE board, reading and
  writing it as an INI file, and the message that programs the whole board. Every register and
  block of the constructor is a definition of its own, under the name of the local variable.

  The theory shows that a written file is read back into the same register values, with the
  registers it cannot restore named exactly, what message the shipped table produces, and two
  defects of the shipped table: registers that share a name and registers that share an address.
\<close>

subsection \<open>The register table\<close>

definition SFP0_MAC0 :: ConfigEntry where
  "SFP0_MAC0 = ConfigEntry_new 0x4455 0x00 ''SFP0_MAC0''
    ''Mac address bits[15:0] for SFP0 interface''"

definition SFP1_MAC0 :: ConfigEntry where
  "SFP1_MAC0 = ConfigEntry_new 0x4456 0x00 ''SFP1_MAC0''
    ''Mac address bits[15:0] for SFP1 interface''"

definition RJ45_MAC0 :: ConfigEntry where
  "RJ45_MAC0 = ConfigEntry_new 0x4457 0x00 ''RJ45_MAC0''
    ''Mac address bits[15:0] for RJ45 interface''"

definition ENET_MAC1 :: ConfigEntry where
  "ENET_MAC1 = ConfigEntry_new 0x2233 0x01 ''ENET_MAC1''
    ''Mac address bits[31:16] for Ethernet interface''"

definition ENET_MAC2 :: ConfigEntry where
  "ENET_MAC2 = ConfigEntry_new 0xEE11 0x02 ''ENET_MAC2''
    ''Mac address bits[47:32] for Ethernet interface''"

definition SFP_ServerMAC0 :: ConfigEntry where
  "SFP_ServerMAC0 = ConfigEntry_new 0x7434 0x04 ''SFP_ServerMAC0''
    ''Mac address bits[15:0] for SFP0/1 interface''"

definition SFP_ServerMAC1 :: ConfigEntry where
  "SFP_ServerMAC1 = ConfigEntry_new 0x1151 0x05 ''SFP_ServerMAC1''
    ''Mac address bits[31:16] for SFP0/1 interface''"

definition SFP_ServerMAC2 :: ConfigEntry where
  "SFP_ServerMAC2 = ConfigEntry_new 0x6CB3 0x06 ''SFP_ServerMAC2''
    ''Mac address bits[47:32] for SFP0/1 interface''"

definition RJ45_ServerMAC0 :: ConfigEntry where
  "RJ45_ServerMAC0 = ConfigEntry_new 0x0275 0x04 ''RJ45_ServerMAC0''
    ''Server Mac address bits[15:0] for RJ45 interface''"

definition RJ45_ServerMAC1 :: ConfigEntry where
  "RJ45_ServerMAC1 = ConfigEntry_new 0x0C22 0x05 ''RJ45_ServerMAC1''
    ''Server Mac address bits[31:16] for RJ45 interface''"

definition RJ45_ServerMAC2 :: ConfigEntry where
  "RJ45_ServerMAC2 = ConfigEntry_new 0x000E 0x06 ''RJ45_ServerMAC2''
    ''Server Mac address bits[47:32] for RJ45 interface''"

definition SFP0_IP0 :: ConfigEntry where
  "SFP0_IP0 = ConfigEntry_new 0x0003 0x08 ''SFP_IP0''
    ''IP address bits [15:0] for SFP interface''"

definition SFP1_IP0 :: ConfigEntry where
  "SFP1_IP0 = ConfigEntry_new 0x0004 0x08 ''SFP_IP0''
    ''IP address bits [15:0] for SFP interface''"

definition RJ45_IP0 :: ConfigEntry where
  "RJ45_IP0 = ConfigEntry_new 0x0105 0x08 ''RJ45_IP0''
    ''IP address bits [15:0] for RJ45 interface''"

definition ENET_IP1 :: ConfigEntry where
  "ENET_IP1 = ConfigEntry_new 0xC0A8 0x09 ''ENET_IP1''
    ''IP address bits [31:16] for Ethernet interface''"

definition SFP_ServerIP0 :: ConfigEntry where
  "SFP_ServerIP0 = ConfigEntry_new 0x0001 0x0A ''SFP_ServerIP0''
    ''Server IP address bits [15:0] for SFP0/1 interfaces''"

definition RJ45_ServerIP0 :: ConfigEntry where
  "RJ45_ServerIP0 = ConfigEntry_new 0x0101 0x0A ''RJ45_ServerIP0''
    ''Server IP address bits [15:0] for RJ45 interface''"

definition ENET_ServerIP1 :: ConfigEntry where
  "ENET_ServerIP1 = ConfigEntry_new 0xC0A8 0x0B ''ENET_ServerIP1''
    ''Server IP address bits [31:16] for Ethernet interface''"

definition SFP_TSE0 :: ConfigEntry where
  "SFP_TSE0 = ConfigEntry_new 0x0058 0x0C ''SFP_TSE0''
    ''TSE configuration bits [15:0] for TSE MAC (SFP interface)''"

definition ENET_TSE1 :: ConfigEntry where
  "ENET_TSE1 = ConfigEntry_new 0x0050 0x0D ''ENET_TSE1''
    ''TSE configuration bits [31:16] for TSE MAC''"

definition RJ45_TSE0 :: ConfigEntry where
  "RJ45_TSE0 = ConfigEntry_new 0x00D8 0x0C ''RJ45_TSE0''
    ''TSE configuration bits [15:0] for TSE MAC (RJ45 interface)''"

definition SFP0_UDP :: ConfigEntry where
  "SFP0_UDP = ConfigEntry_new 0x1000 0x0E ''SFP0_UDP''
    ''Base UDP address for SFP0 interface''"

definition SFP1_UDP :: ConfigEntry where
  "SFP1_UDP = ConfigEntry_new 0x1100 0x0E ''SFP1_UDP''
    ''Base UDP address for SFP1 interface''"

definition RJ45_UDP :: ConfigEntry where
  "RJ45_UDP = ConfigEntry_new 0x1200 0x0E ''RJ45_UDP''
    ''Base UDP address for RJ45 interface''"

definition ENET_FIFO :: ConfigEntry where
  "ENET_FIFO = ConfigEntry_new 0x0555 0x10 ''ENET_FIFO''
    ''FIFO enable flags for Ethernet interfaces''"

definition ENET_CounterEnable :: ConfigEntry where
  "ENET_CounterEnable = ConfigEntry_new 0x0000 0x11 ''ENET_CounterEnable''
    ''Counter enable flags for Ethernet interface''"

definition ENET_PacketSize :: ConfigEntry where
  "ENET_PacketSize = ConfigEntry_new 0x012c 0x12 ''ENET_PacketSize''
    ''Packet size (in 32-bit words) for Ethernet interfaces''"

definition ENET_HeaderConfig :: ConfigEntry where
  "ENET_HeaderConfig = ConfigEntry_new 0x0007 0x14 ''ENET_HeaderConfig''
    ''Ethernet header configuration''"

definition TSE_MDIO_Ctrl0_OR :: ConfigEntry where
  "TSE_MDIO_Ctrl0_OR = ConfigEntry_new 0x0140 0x00 ''TSE_MDIO_Ctrl0_OR''
    ''MDIO Control Register OR bits''"

definition TSE_MDIO_Ctrl0_AND :: ConfigEntry where
  "TSE_MDIO_Ctrl0_AND = ConfigEntry_new 0x937F 0x01 ''TSE_MDIO_Ctrl0_AND''
    ''MDIO Control Register AND bits''"

definition TSE_MDIO_AN_OR :: ConfigEntry where
  "TSE_MDIO_AN_OR = ConfigEntry_new 0x0000 0x02 ''TSE_MDIO_AN_OR''
    ''MDIO Autonegotiation register OR bits''"

definition TSE_MDIO_AN_AND :: ConfigEntry where
  "TSE_MDIO_AN_AND = ConfigEntry_new 0xFC1F 0x03 ''TSE_MDIO_AN_AND''
    ''MDIO Autonegotiation register AND bits''"

definition TSE_MDIO_1000BASE_OR :: ConfigEntry where
  "TSE_MDIO_1000BASE_OR = ConfigEntry_new 0x0000 0x04 ''TSE_MDIO_1000BASE''
    ''MDIO 1000BASE Register OR bits''"

definition TSE_MDIO_1000BASE_AND :: ConfigEntry where
  "TSE_MDIO_1000BASE_AND = ConfigEntry_new 0xFFFF 0x05 ''TSE_MDIO_1000BASE''
    ''MDIO 1000BASE Register AND bits''"

definition TSE_MDIO_PHYCtrl_OR :: ConfigEntry where
  "TSE_MDIO_PHYCtrl_OR = ConfigEntry_new 0xC000 0x06 ''TSE_MDIO_MDIOCtrl''
    ''MDIO PHY Control Register OR bits''"

definition TSE_MDIO_PHYCtrl_AND :: ConfigEntry where
  "TSE_MDIO_PHYCtrl_AND = ConfigEntry_new 0xFFFF 0x07 ''TSE_MDIO_PHYCtrl''
    ''MDIO PHY Control Register AND bits''"

definition TSE_MDIO_ExtPHYStat_OR :: ConfigEntry where
  "TSE_MDIO_ExtPHYStat_OR = ConfigEntry_new 0x0004 0x08 ''TSE_MDIO_ExtPHYStat''
    ''MDIO Extended PHY Status Register OR bits''"

definition TSE_MDIO_ExtPHYStat_AND :: ConfigEntry where
  "TSE_MDIO_ExtPHYStat_AND = ConfigEntry_new 0xFFF4 0x09 ''TSE_MDIO_ExtPHYStat''
    ''MDIO Extended PHY Status Register AND bits''"

definition TSE_MDIO_ExtPHYCtrl_OR :: ConfigEntry where
  "TSE_MDIO_ExtPHYCtrl_OR = ConfigEntry_new 0x0000 0x0A ''TSE_MDIO_ExtPHYCtrl''
    ''MDIO Extended PHY Control Register OR bits''"

definition TSE_MDIO_ExtPHYCtrl_AND :: ConfigEntry where
  "TSE_MDIO_ExtPHYCtrl_AND = ConfigEntry_new 0xFFFF 0x0B ''TSE_MDIO_ExtPHYCtrl''
    ''MDIO Extended PHY Control Register AND bits''"

definition TSE_MDIO_ResetCycles0 :: ConfigEntry where
  "TSE_MDIO_ResetCycles0 = ConfigEntry_new 0x03D8 0x0C ''TSE_MDIO_ResetCycles0''
    ''Clock cycles (bits [15:0]) to wait during a HW reset''"

definition TSE_MDIO_ResetCycles1 :: ConfigEntry where
  "TSE_MDIO_ResetCycles1 = ConfigEntry_new 0x0000 0x0D ''TSE_MDIO_ResetCycles1''
    ''Clock cycles (bits [31:16])to wait during a HW reset''"

definition TSE_MDIO_WaitCycles0 :: ConfigEntry where
  "TSE_MDIO_WaitCycles0 = ConfigEntry_new 0x4240 0x0C ''TSE_MDIO_WaitCycles0''
    ''Clock cycles (bits [15:0]) to wait after a HW reset before configuring the PHY''"

definition TSE_MDIO_WaitCycles1 :: ConfigEntry where
  "TSE_MDIO_WaitCycles1 = ConfigEntry_new 0x000F 0x0D ''TSE_MDIO_WaitCycles1''
    ''Clock cycles (bits [31:16])to wait after a HW reset before configuring the PHY''"

definition ADC_Tap_Delays :: ConfigEntry where
  "ADC_Tap_Delays = ConfigEntry_new 0x0004 0x00 ''ADC_Tap_Delays''
    ''Tap delay for the 20-bit 1.6 Msps ADCs. Bits [2:0] set input tap delay, bits [6:4] control output tap delay, bits [11:8] control LVDS tap delay for CDS module''"

definition ADC_Output_Config :: ConfigEntry where
  "ADC_Output_Config = ConfigEntry_new 0x0000 0x02 ''ADC_Output_Config''
    ''Output config for the 20-bit ADCs. [0] LVDS, [1] CDS, [2] integral mode, [3] trigger mode''"

definition ADC_CDS_NSkips :: ConfigEntry where
  "ADC_CDS_NSkips = ConfigEntry_new 0x0001 0x04 ''ADC_CDS_NSkips''
    ''Number of skips to perform CDS over''"

definition ADC_CDS_Config :: ConfigEntry where
  "ADC_CDS_Config = ConfigEntry_new 0x0001 0x05 ''ADC_CDS_Config''
    ''Config for CDS block (bit 0 controls output average if hi, output sum of pixels if low)''"

definition ADC_CDS_NSamples :: ConfigEntry where
  "ADC_CDS_NSamples = ConfigEntry_new 0x0001 0x06 ''ADC_CDS_NSamples''
    ''Number of samples to read in integral mode''"

definition ADC_Trigger_Samples :: ConfigEntry where
  "ADC_Trigger_Samples = ConfigEntry_new 0x0000 0x07 ''ADC_Trigger_Samples''
    ''Number of samples to read per trigger in triggered mode''"

definition ADC_Trigger_Delay :: ConfigEntry where
  "ADC_Trigger_Delay = ConfigEntry_new 0x0000 0x08 ''ADC_Trigger_Delay''
    ''Number of 100 MHz clock cycles to wait before starting CNVST''"

definition ADC_Data_Multiplier :: ConfigEntry where
  "ADC_Data_Multiplier = ConfigEntry_new 0x0001 0x09 ''ADC_Data_Multiplier''
    ''Multiplier to apply to ADC data before CDS module''"

fun add_entries :: "ConfigRegisterBlock \<Rightarrow> ConfigEntry list \<Rightarrow> ConfigRegisterBlock" where
  "add_entries b [] = b"
| "add_entries b (e # es) = add_entries (addEntry b e) es"

fun set_entries :: "ConfigRegisterBlock \<Rightarrow> (nat \<times> ConfigEntry) list \<Rightarrow> ConfigRegisterBlock" where
  "set_entries b [] = b"
| "set_entries b ((i, e) # es) = set_entries (b\<lparr>config_entries := (config_entries b)[i := e]\<rparr>) es"

definition baseEnetBlock :: ConfigRegisterBlock where
  "baseEnetBlock = add_entries (ConfigRegisterBlock_new 0x10 ''None'')
     [SFP0_MAC0, ENET_MAC1, ENET_MAC2, ConfigEntry_unused 0x03,
      SFP_ServerMAC0, SFP_ServerMAC1, SFP_ServerMAC2, ConfigEntry_unused 0x07,
      SFP0_IP0, ENET_IP1, SFP_ServerIP0, ENET_ServerIP1, SFP_TSE0, ENET_TSE1, SFP0_UDP,
      ConfigEntry_unused 0x0F, ENET_FIFO, ENET_CounterEnable, ENET_PacketSize,
      ConfigEntry_unused 0x13, ENET_HeaderConfig, ConfigEntry_unused 0x15]"

definition SFP0ConfigBlock :: ConfigRegisterBlock where
  "SFP0ConfigBlock = set_entries (setName (setAddress baseEnetBlock 0x10) ''SFP0ConfigBlock'')
     [(0, SFP0_MAC0), (4, SFP_ServerMAC0), (5, SFP_ServerMAC1), (6, SFP_ServerMAC2),
      (8, SFP0_IP0), (10, SFP_ServerIP0), (12, SFP_TSE0), (14, SFP0_UDP)]"

definition SFP1ConfigBlock :: ConfigRegisterBlock where
  "SFP1ConfigBlock = set_entries (setName (setAddress baseEnetBlock 0x11) ''SFP1ConfigBlock'')
     [(0, SFP1_MAC0), (4, SFP_ServerMAC0), (5, SFP_ServerMAC1), (6, SFP_ServerMAC2),
      (8, SFP1_IP0), (10, SFP_ServerIP0), (12, SFP_TSE0), (14, SFP1_UDP)]"

definition RJ45ConfigBlock :: ConfigRegisterBlock where
  "RJ45ConfigBlock = set_entries (setName (setAddress baseEnetBlock 0x12) ''RJ45ConfigBlock'')
     [(0, RJ45_MAC0), (4, RJ45_ServerMAC0), (5, RJ45_ServerMAC1), (6, RJ45_ServerMAC2),
      (8, RJ45_IP0), (10, RJ45_ServerIP0), (12, RJ45_TSE0), (14, RJ45_UDP)]"

definition baseTSEConfigBlock :: ConfigRegisterBlock where
  "baseTSEConfigBlock = add_entries (ConfigRegisterBlock_new 0x13 ''None'')
     [TSE_MDIO_Ctrl0_OR, TSE_MDIO_Ctrl0_AND, TSE_MDIO_AN_OR, TSE_MDIO_AN_AND,
      TSE_MDIO_1000BASE_OR, TSE_MDIO_1000BASE_AND, TSE_MDIO_PHYCtrl_OR, TSE_MDIO_PHYCtrl_AND,
      TSE_MDIO_ExtPHYStat_OR, TSE_MDIO_ExtPHYStat_AND, TSE_MDIO_ExtPHYCtrl_OR,
      TSE_MDIO_ExtPHYCtrl_AND, TSE_MDIO_ResetCycles0, TSE_MDIO_ResetCycles1,
      TSE_MDIO_WaitCycles0, TSE_MDIO_WaitCycles1]"

definition SFP0TSEConfigBlock :: ConfigRegisterBlock where
  "SFP0TSEConfigBlock = setAddress (setName baseTSEConfigBlock ''SFP0TSEConfigBlock'') 0x13"

definition SFP1TSEConfigBlock :: ConfigRegisterBlock where
  "SFP1TSEConfigBlock = setAddress (setName baseTSEConfigBlock ''SFP1TSEConfigBlock'') 0x14"

definition RJ45TSEConfigBlock :: ConfigRegisterBlock where
  "RJ45TSEConfigBlock = setAddress (setName baseTSEConfigBlock ''RJ45TSEConfigBlock'') 0x15"

definition ADCConfigBlock :: ConfigRegisterBlock where
  "ADCConfigBlock = add_entries (ConfigRegisterBlock_new 0x20 ''ADCConfigBlock'')
     [ADC_Tap_Delays, ADC_Output_Config, ADC_CDS_NSkips, ADC_CDS_Config, ADC_CDS_NSamples,
      ADC_Trigger_Samples, ADC_Trigger_Delay, ADC_Data_Multiplier]"

record ConfigBlockList =
  cb_blocks :: "ConfigRegisterBlock list"
  cb_write_all :: bool

definition ConfigBlockList_new :: ConfigBlockList where
  "ConfigBlockList_new =
     \<lparr>cb_blocks = [SFP0ConfigBlock, SFP1ConfigBlock, RJ45ConfigBlock, SFP0TSEConfigBlock,
                    SFP1TSEConfigBlock, RJ45TSEConfigBlock, ADCConfigBlock],
      cb_write_all = True\<rparr>"

subsection \<open>Operations\<close>

definition list_readINI :: "files \<Rightarrow> string \<Rightarrow> ConfigBlockList \<Rightarrow> int \<times> ConfigBlockList" where
  "list_readINI fs inifile l =
     (let reader = INIReader_new fs inifile;
          err = ParseError reader
      in (err, l\<lparr>cb_blocks := map (\<lambda>b. createConfigMessages (block_readINI reader b) (cb_write_all l))
                                (cb_blocks l)\<rparr>))"

fun collect_messages :: "bool \<Rightarrow> ConfigRegisterBlock list \<Rightarrow> u32 list \<times> ConfigRegisterBlock list" where
  "collect_messages wa [] = ([], [])"
| "collect_messages wa (b # bs) =
     (let (message, b') = getConfigMessages b wa; (rest, bs') = collect_messages wa bs
      in (message @ rest, b' # bs'))"

definition getConfigMessage :: "ConfigBlockList \<Rightarrow> u32 list \<times> ConfigBlockList" where
  "getConfigMessage l =
     (let (master_message, bs) = collect_messages (cb_write_all l) (cb_blocks l)
      in (master_message, l\<lparr>cb_blocks := bs\<rparr>))"

fun write_blocks :: "ConfigRegisterBlock list \<Rightarrow> string \<Rightarrow> string \<times> ConfigRegisterBlock list" where
  "write_blocks [] out = (out, [])"
| "write_blocks (b # bs) out =
     (let (out', b') = block_writeINI b out True True; (out'', bs') = write_blocks bs out'
      in (out'', b' # bs'))"

text \<open>
  \<open>writable\<close> says whether the output stream could be opened; a stream that could not be opened
  drops what is written to it, and the function returns true either way.
\<close>

definition list_writeINI ::
    "files \<Rightarrow> bool \<Rightarrow> string \<Rightarrow> ConfigBlockList \<Rightarrow> bool \<times> files \<times> ConfigBlockList" where
  "list_writeINI fs writable inifile l =
     (let (out, bs) = write_blocks (cb_blocks l) []
      in (True, if writable then fs(inifile \<mapsto> out) else fs, l\<lparr>cb_blocks := bs\<rparr>))"

definition getBlock :: "ConfigBlockList \<Rightarrow> string \<Rightarrow> nat outcome" where
  "getBlock l nm =
     (case find_first (\<lambda>b. block_name b = nm) (cb_blocks l) of
        Some i \<Rightarrow> Done i | None \<Rightarrow> UB ''getBlock: no return'')"

lemmas register_defs =
  SFP0_MAC0_def SFP1_MAC0_def RJ45_MAC0_def ENET_MAC1_def ENET_MAC2_def SFP_ServerMAC0_def
  SFP_ServerMAC1_def SFP_ServerMAC2_def RJ45_ServerMAC0_def RJ45_ServerMAC1_def
  RJ45_ServerMAC2_def SFP0_IP0_def SFP1_IP0_def RJ45_IP0_def ENET_IP1_def SFP_ServerIP0_def
  RJ45_ServerIP0_def ENET_ServerIP1_def SFP_TSE0_def ENET_TSE1_def RJ45_TSE0_def SFP0_UDP_def
  SFP1_UDP_def RJ45_UDP_def ENET_FIFO_def ENET_CounterEnable_def ENET_PacketSize_def
  ENET_HeaderConfig_def TSE_MDIO_Ctrl0_OR_def TSE_MDIO_Ctrl0_AND_def TSE_MDIO_AN_OR_def
  TSE_MDIO_AN_AND_def TSE_MDIO_1000BASE_OR_def TSE_MDIO_1000BASE_AND_def
  TSE_MDIO_PHYCtrl_OR_def TSE_MDIO_PHYCtrl_AND_def TSE_MDIO_ExtPHYStat_OR_def
  TSE_MDIO_ExtPHYStat_AND_def TSE_MDIO_ExtPHYCtrl_OR_def TSE_MDIO_ExtPHYCtrl_AND_def
  TSE_MDIO_ResetCycles0_def TSE_MDIO_ResetCycles1_def TSE_MDIO_WaitCycles0_def
  TSE_MDIO_WaitCycles1_def ADC_Tap_Delays_def ADC_Output_Config_def ADC_CDS_NSkips_def
  ADC_CDS_Config_def ADC_CDS_NSamples_def ADC_Trigger_Samples_def ADC_Trigger_Delay_def
  ADC_Data_Multiplier_def

lemmas block_defs =
  baseEnetBlock_def SFP0ConfigBlock_def SFP1ConfigBlock_def RJ45ConfigBlock_def baseTSEConfigBlock_def
  SFP0TSEConfigBlock_def SFP1TSEConfigBlock_def RJ45TSEConfigBlock_def ADCConfigBlock_def

subsection \<open>The shipped table, spelled out\<close>

lemma add_entries_simps [simp]:
  "config_entries (add_entries b es) = config_entries b @ es"
  "block_name (add_entries b es) = block_name b"
  "block_address (add_entries b es) = block_address b"
  "messages_created (add_entries b es) = messages_created b"
  by (induction es arbitrary: b) (simp_all add: addEntry_def)

declare add_entries.simps [simp del]

lemma set_entries_simps [simp]:
  "block_name (set_entries b es) = block_name b"
  "block_address (set_entries b es) = block_address b"
  "messages_created (set_entries b es) = messages_created b"
  by (induction es arbitrary: b) auto

lemma block_entries [simp]:
  "config_entries SFP0ConfigBlock =
     [SFP0_MAC0, ENET_MAC1, ENET_MAC2, ConfigEntry_unused 0x03, SFP_ServerMAC0, SFP_ServerMAC1,
      SFP_ServerMAC2, ConfigEntry_unused 0x07, SFP0_IP0, ENET_IP1, SFP_ServerIP0, ENET_ServerIP1,
      SFP_TSE0, ENET_TSE1, SFP0_UDP, ConfigEntry_unused 0x0F, ENET_FIFO, ENET_CounterEnable,
      ENET_PacketSize, ConfigEntry_unused 0x13, ENET_HeaderConfig, ConfigEntry_unused 0x15]"
  "config_entries SFP1ConfigBlock =
     [SFP1_MAC0, ENET_MAC1, ENET_MAC2, ConfigEntry_unused 0x03, SFP_ServerMAC0, SFP_ServerMAC1,
      SFP_ServerMAC2, ConfigEntry_unused 0x07, SFP1_IP0, ENET_IP1, SFP_ServerIP0, ENET_ServerIP1,
      SFP_TSE0, ENET_TSE1, SFP1_UDP, ConfigEntry_unused 0x0F, ENET_FIFO, ENET_CounterEnable,
      ENET_PacketSize, ConfigEntry_unused 0x13, ENET_HeaderConfig, ConfigEntry_unused 0x15]"
  "config_entries RJ45ConfigBlock =
     [RJ45_MAC0, ENET_MAC1, ENET_MAC2, ConfigEntry_unused 0x03, RJ45_ServerMAC0, RJ45_ServerMAC1,
      RJ45_ServerMAC2, ConfigEntry_unused 0x07, RJ45_IP0, ENET_IP1, RJ45_ServerIP0, ENET_ServerIP1,
      RJ45_TSE0, ENET_TSE1, RJ45_UDP, ConfigEntry_unused 0x0F, ENET_FIFO, ENET_CounterEnable,
      ENET_PacketSize, ConfigEntry_unused 0x13, ENET_HeaderConfig, ConfigEntry_unused 0x15]"
  by (simp_all add: SFP0ConfigBlock_def SFP1ConfigBlock_def RJ45ConfigBlock_def baseEnetBlock_def
    ConfigRegisterBlock_new_def setName_def setAddress_def numeral_eq_Suc)

lemma tse_block_entries [simp]:
  "config_entries SFP0TSEConfigBlock = config_entries baseTSEConfigBlock"
  "config_entries SFP1TSEConfigBlock = config_entries baseTSEConfigBlock"
  "config_entries RJ45TSEConfigBlock = config_entries baseTSEConfigBlock"
  "config_entries baseTSEConfigBlock =
     [TSE_MDIO_Ctrl0_OR, TSE_MDIO_Ctrl0_AND, TSE_MDIO_AN_OR, TSE_MDIO_AN_AND,
      TSE_MDIO_1000BASE_OR, TSE_MDIO_1000BASE_AND, TSE_MDIO_PHYCtrl_OR, TSE_MDIO_PHYCtrl_AND,
      TSE_MDIO_ExtPHYStat_OR, TSE_MDIO_ExtPHYStat_AND, TSE_MDIO_ExtPHYCtrl_OR,
      TSE_MDIO_ExtPHYCtrl_AND, TSE_MDIO_ResetCycles0, TSE_MDIO_ResetCycles1,
      TSE_MDIO_WaitCycles0, TSE_MDIO_WaitCycles1]"
  "config_entries ADCConfigBlock =
     [ADC_Tap_Delays, ADC_Output_Config, ADC_CDS_NSkips, ADC_CDS_Config, ADC_CDS_NSamples,
      ADC_Trigger_Samples, ADC_Trigger_Delay, ADC_Data_Multiplier]"
  by (simp_all add: block_defs ConfigRegisterBlock_new_def setName_def setAddress_def)

lemma entry_names [simp]:
  "entry_name SFP0_MAC0 = ''SFP0_MAC0''" "entry_name SFP1_MAC0 = ''SFP1_MAC0''"
  "entry_name RJ45_MAC0 = ''RJ45_MAC0''" "entry_name ENET_MAC1 = ''ENET_MAC1''"
  "entry_name ENET_MAC2 = ''ENET_MAC2''" "entry_name SFP_ServerMAC0 = ''SFP_ServerMAC0''"
  "entry_name SFP_ServerMAC1 = ''SFP_ServerMAC1''"
  "entry_name SFP_ServerMAC2 = ''SFP_ServerMAC2''"
  "entry_name RJ45_ServerMAC0 = ''RJ45_ServerMAC0''"
  "entry_name RJ45_ServerMAC1 = ''RJ45_ServerMAC1''"
  "entry_name RJ45_ServerMAC2 = ''RJ45_ServerMAC2''" "entry_name SFP0_IP0 = ''SFP_IP0''"
  "entry_name SFP1_IP0 = ''SFP_IP0''" "entry_name RJ45_IP0 = ''RJ45_IP0''"
  "entry_name ENET_IP1 = ''ENET_IP1''" "entry_name SFP_ServerIP0 = ''SFP_ServerIP0''"
  "entry_name RJ45_ServerIP0 = ''RJ45_ServerIP0''"
  "entry_name ENET_ServerIP1 = ''ENET_ServerIP1''" "entry_name SFP_TSE0 = ''SFP_TSE0''"
  "entry_name ENET_TSE1 = ''ENET_TSE1''" "entry_name RJ45_TSE0 = ''RJ45_TSE0''"
  "entry_name SFP0_UDP = ''SFP0_UDP''" "entry_name SFP1_UDP = ''SFP1_UDP''"
  "entry_name RJ45_UDP = ''RJ45_UDP''" "entry_name ENET_FIFO = ''ENET_FIFO''"
  "entry_name ENET_CounterEnable = ''ENET_CounterEnable''"
  "entry_name ENET_PacketSize = ''ENET_PacketSize''"
  "entry_name ENET_HeaderConfig = ''ENET_HeaderConfig''"
  "entry_name TSE_MDIO_Ctrl0_OR = ''TSE_MDIO_Ctrl0_OR''"
  "entry_name TSE_MDIO_Ctrl0_AND = ''TSE_MDIO_Ctrl0_AND''"
  "entry_name TSE_MDIO_AN_OR = ''TSE_MDIO_AN_OR''"
  "entry_name TSE_MDIO_AN_AND = ''TSE_MDIO_AN_AND''"
  "entry_name TSE_MDIO_1000BASE_OR = ''TSE_MDIO_1000BASE''"
  "entry_name TSE_MDIO_1000BASE_AND = ''TSE_MDIO_1000BASE''"
  "entry_name TSE_MDIO_PHYCtrl_OR = ''TSE_MDIO_MDIOCtrl''"
  "entry_name TSE_MDIO_PHYCtrl_AND = ''TSE_MDIO_PHYCtrl''"
  "entry_name TSE_MDIO_ExtPHYStat_OR = ''TSE_MDIO_ExtPHYStat''"
  "entry_name TSE_MDIO_ExtPHYStat_AND = ''TSE_MDIO_ExtPHYStat''"
  "entry_name TSE_MDIO_ExtPHYCtrl_OR = ''TSE_MDIO_ExtPHYCtrl''"
  "entry_name TSE_MDIO_ExtPHYCtrl_AND = ''TSE_MDIO_ExtPHYCtrl''"
  "entry_name TSE_MDIO_ResetCycles0 = ''TSE_MDIO_ResetCycles0''"
  "entry_name TSE_MDIO_ResetCycles1 = ''TSE_MDIO_ResetCycles1''"
  "entry_name TSE_MDIO_WaitCycles0 = ''TSE_MDIO_WaitCycles0''"
  "entry_name TSE_MDIO_WaitCycles1 = ''TSE_MDIO_WaitCycles1''"
  "entry_name ADC_Tap_Delays = ''ADC_Tap_Delays''"
  "entry_name ADC_Output_Config = ''ADC_Output_Config''"
  "entry_name ADC_CDS_NSkips = ''ADC_CDS_NSkips''"
  "entry_name ADC_CDS_Config = ''ADC_CDS_Config''"
  "entry_name ADC_CDS_NSamples = ''ADC_CDS_NSamples''"
  "entry_name ADC_Trigger_Samples = ''ADC_Trigger_Samples''"
  "entry_name ADC_Trigger_Delay = ''ADC_Trigger_Delay''"
  "entry_name ADC_Data_Multiplier = ''ADC_Data_Multiplier''"
  "entry_name (ConfigEntry_unused a) = ''UNUSED''"
  by (simp_all add: register_defs ConfigEntry_new_def ConfigEntry_unused_def)

lemma entry_addresses [simp]:
  "entry_address SFP0_MAC0 = 0x00" "entry_address SFP1_MAC0 = 0x00"
  "entry_address RJ45_MAC0 = 0x00" "entry_address ENET_MAC1 = 0x01"
  "entry_address ENET_MAC2 = 0x02" "entry_address SFP_ServerMAC0 = 0x04"
  "entry_address SFP_ServerMAC1 = 0x05" "entry_address SFP_ServerMAC2 = 0x06"
  "entry_address RJ45_ServerMAC0 = 0x04" "entry_address RJ45_ServerMAC1 = 0x05"
  "entry_address RJ45_ServerMAC2 = 0x06" "entry_address SFP0_IP0 = 0x08"
  "entry_address SFP1_IP0 = 0x08" "entry_address RJ45_IP0 = 0x08" "entry_address ENET_IP1 = 0x09"
  "entry_address SFP_ServerIP0 = 0x0A" "entry_address RJ45_ServerIP0 = 0x0A"
  "entry_address ENET_ServerIP1 = 0x0B" "entry_address SFP_TSE0 = 0x0C"
  "entry_address ENET_TSE1 = 0x0D" "entry_address RJ45_TSE0 = 0x0C"
  "entry_address SFP0_UDP = 0x0E" "entry_address SFP1_UDP = 0x0E" "entry_address RJ45_UDP = 0x0E"
  "entry_address ENET_FIFO = 0x10" "entry_address ENET_CounterEnable = 0x11"
  "entry_address ENET_PacketSize = 0x12" "entry_address ENET_HeaderConfig = 0x14"
  "entry_address TSE_MDIO_Ctrl0_OR = 0x00" "entry_address TSE_MDIO_Ctrl0_AND = 0x01"
  "entry_address TSE_MDIO_AN_OR = 0x02" "entry_address TSE_MDIO_AN_AND = 0x03"
  "entry_address TSE_MDIO_1000BASE_OR = 0x04" "entry_address TSE_MDIO_1000BASE_AND = 0x05"
  "entry_address TSE_MDIO_PHYCtrl_OR = 0x06" "entry_address TSE_MDIO_PHYCtrl_AND = 0x07"
  "entry_address TSE_MDIO_ExtPHYStat_OR = 0x08" "entry_address TSE_MDIO_ExtPHYStat_AND = 0x09"
  "entry_address TSE_MDIO_ExtPHYCtrl_OR = 0x0A" "entry_address TSE_MDIO_ExtPHYCtrl_AND = 0x0B"
  "entry_address TSE_MDIO_ResetCycles0 = 0x0C" "entry_address TSE_MDIO_ResetCycles1 = 0x0D"
  "entry_address TSE_MDIO_WaitCycles0 = 0x0C" "entry_address TSE_MDIO_WaitCycles1 = 0x0D"
  "entry_address ADC_Tap_Delays = 0x00" "entry_address ADC_Output_Config = 0x02"
  "entry_address ADC_CDS_NSkips = 0x04" "entry_address ADC_CDS_Config = 0x05"
  "entry_address ADC_CDS_NSamples = 0x06" "entry_address ADC_Trigger_Samples = 0x07"
  "entry_address ADC_Trigger_Delay = 0x08" "entry_address ADC_Data_Multiplier = 0x09"
  "entry_address (ConfigEntry_unused a) = a"
  by (simp_all add: register_defs ConfigEntry_new_def ConfigEntry_unused_def)

lemma entry_selected_all: "entry_selected True e \<longleftrightarrow> entry_name e \<noteq> ''UNUSED''"
  by (simp add: entry_selected_def)

lemma block_names [simp]:
  "block_name SFP0ConfigBlock = ''SFP0ConfigBlock''" "block_name SFP1ConfigBlock = ''SFP1ConfigBlock''"
  "block_name RJ45ConfigBlock = ''RJ45ConfigBlock''"
  "block_name SFP0TSEConfigBlock = ''SFP0TSEConfigBlock''"
  "block_name SFP1TSEConfigBlock = ''SFP1TSEConfigBlock''"
  "block_name RJ45TSEConfigBlock = ''RJ45TSEConfigBlock''"
  "block_name ADCConfigBlock = ''ADCConfigBlock''"
  by (simp_all add: block_defs ConfigRegisterBlock_new_def setName_def setAddress_def)

lemma block_addresses [simp]:
  "block_address SFP0ConfigBlock = 0x10" "block_address SFP1ConfigBlock = 0x11"
  "block_address RJ45ConfigBlock = 0x12" "block_address SFP0TSEConfigBlock = 0x13"
  "block_address SFP1TSEConfigBlock = 0x14" "block_address RJ45TSEConfigBlock = 0x15"
  "block_address ADCConfigBlock = 0x20"
  by (simp_all add: block_defs ConfigRegisterBlock_new_def setName_def setAddress_def)

subsection \<open>The master message\<close>

definition block_messages :: "bool \<Rightarrow> ConfigRegisterBlock \<Rightarrow> u32 list" where
  "block_messages wa b = map (\<lambda>e. bswap_32 (config_word (block_address b) e))
     (filter (entry_selected wa) (config_entries b))"

lemma collect_messages_eq:
  "collect_messages wa bs =
     (concat (map (block_messages wa) bs), map (\<lambda>b. createConfigMessages b wa) bs)"
  by (induction bs) (simp_all add: getConfigMessages_def Let_def block_messages_def)

lemma getConfigMessage_eq:
  "getConfigMessage l =
     (concat (map (block_messages (cb_write_all l)) (cb_blocks l)),
      l\<lparr>cb_blocks := map (\<lambda>b. createConfigMessages b (cb_write_all l)) (cb_blocks l)\<rparr>)"
  by (simp add: getConfigMessage_def collect_messages_eq)

lemma default_message_length:
  "length (fst (getConfigMessage ConfigBlockList_new)) = 107"
  by (simp add: getConfigMessage_eq ConfigBlockList_new_def block_messages_def entry_selected_all)

subsection \<open>The written file\<close>

definition entry_items :: "ConfigEntry \<Rightarrow> ini_item list" where
  "entry_items e =
     [Comment (showbase_hex (unat (scast (entry_address e) :: u32)) @ '' '' @ entry_description e),
      Setting (entry_name e) (showbase_hex (unat (entry_value e)))]"

definition block_items :: "ConfigRegisterBlock \<Rightarrow> ini_item list" where
  "block_items b = Section (block_name b) #
     concat (map entry_items (filter (entry_selected True) (config_entries b)))"

definition block_calls :: "ConfigRegisterBlock \<Rightarrow> (string \<times> string \<times> string) list" where
  "block_calls b = map (\<lambda>e. (block_name b, entry_name e, showbase_hex (unat (entry_value e))))
     (filter (entry_selected True) (config_entries b))"

text \<open>
  Names and descriptions that survive the file format, and blocks whose sections and fields the
  reader, which ignores case, can tell apart.
\<close>

definition entry_ok :: "ConfigEntry \<Rightarrow> bool" where
  "entry_ok e \<longleftrightarrow> (let n = entry_name e in
     n \<noteq> [] \<and> plain n \<and> CHR ''='' \<notin> set n \<and> \<not> isspace (hd n) \<and> \<not> isspace (last n) \<and>
     hd n \<notin> {CHR ''#'', CHR ''['', CHR 0xEF} \<and> length n \<le> 180 \<and>
     newline \<notin> set (entry_description e) \<and> length (entry_description e) \<le> 180)"

definition block_ok :: "ConfigRegisterBlock \<Rightarrow> bool" where
  "block_ok b \<longleftrightarrow> clean_item (Section (block_name b)) \<and>
     (let es = filter (entry_selected True) (config_entries b) in
      (\<forall>e \<in> set es. entry_ok e) \<and>
      (\<forall>e \<in> set es. \<forall>e' \<in> set es.
         lower (entry_name e) = lower (entry_name e') \<longrightarrow> entry_name e = entry_name e'))"

definition list_ok :: "ConfigBlockList \<Rightarrow> bool" where
  "list_ok l \<longleftrightarrow> (\<forall>b \<in> set (cb_blocks l). block_ok b) \<and>
     distinct (map (\<lambda>b. lower (block_name b)) (cb_blocks l))"

definition same_shape :: "ConfigBlockList \<Rightarrow> ConfigBlockList \<Rightarrow> bool" where
  "same_shape l l' \<longleftrightarrow>
     map (\<lambda>b. (block_name b, map entry_name (config_entries b))) (cb_blocks l) =
     map (\<lambda>b. (block_name b, map entry_name (config_entries b))) (cb_blocks l')"

text \<open>The registers a file can carry: not a placeholder, and the first of the block with its name.\<close>

definition restored :: "ConfigRegisterBlock \<Rightarrow> nat \<Rightarrow> bool" where
  "restored b i \<longleftrightarrow> entry_name (config_entries b ! i) \<noteq> ''UNUSED'' \<and>
     findEntry b (entry_name (config_entries b ! i)) = int i"

lemma print_ini_append [simp]: "print_ini (xs @ ys) = print_ini xs @ print_ini ys"
  by (simp add: print_ini_def)

lemma print_ini_Cons [simp]: "print_ini (i # xs) = item_line i @ [newline] @ print_ini xs"
  by (simp add: print_ini_def)

lemma print_ini_Nil [simp]: "print_ini [] = []"
  by (simp add: print_ini_def)

lemma entries_text_print:
  "entries_text True True es = print_ini (concat (map entry_items (filter (entry_selected True) es)))"
  by (induction es) (simp_all add: entry_text_def entry_items_def)

lemma write_blocks_print:
  "write_blocks bs out = (out @ print_ini (concat (map block_items bs)),
     map (\<lambda>b. if messages_created b then b else createConfigMessages b False) bs)"
  by (induction bs arbitrary: out)
    (simp_all add: block_writeINI_def entries_text_print block_items_def Let_def)

lemma ini_calls_entries:
  "ini_calls sec (concat (map entry_items es) @ rest) =
     map (\<lambda>e. (sec, entry_name e, showbase_hex (unat (entry_value e)))) es @ ini_calls sec rest"
  by (induction es) (simp_all add: entry_items_def)

lemma ini_calls_blocks:
  "ini_calls sec (concat (map block_items bs)) = concat (map block_calls bs)"
proof (induction bs arbitrary: sec)
  case (Cons b bs)
  show ?case
    by (simp add: block_items_def [of b] block_calls_def [of b] ini_calls_entries Cons.IH)
qed simp

lemma clean_entry_items:
  assumes "entry_ok e" and "i \<in> set (entry_items e)"
  shows "clean_item i"
proof -
  have hv: "length (showbase_hex (unat (entry_value e))) \<le> 6"
    using length_showbase_hex [OF unat_u16] by simp
  have ha: "length (showbase_hex (unat (scast (entry_address e) :: u32))) \<le> 10"
    using length_showbase_hex [OF unat_u32] by simp
  have pv: "plain (showbase_hex (unat (entry_value e)))"
    using showbase_hex_plain by (auto simp: plain_def)
  have hl: "\<not> isspace (hd (showbase_hex n))" "\<not> isspace (last (showbase_hex n))" for n
    using showbase_hex_plain [of _ n] by (metis hd_in_set last_in_set showbase_hex_not_Nil)+
  have nl: "newline \<notin> set (showbase_hex n)" for n using showbase_hex_plain by blast
  from assms(2) consider
    "i = Comment (showbase_hex (unat (scast (entry_address e) :: u32)) @ '' '' @ entry_description e)"
    | "i = Setting (entry_name e) (showbase_hex (unat (entry_value e)))"
    by (auto simp: entry_items_def)
  then show ?thesis
    using assms(1) hv ha pv hl nl by cases (auto simp: entry_ok_def INI_MAX_LINE_def Let_def)
qed

lemma clean_list_items:
  assumes "list_ok l" and "i \<in> set (concat (map block_items (cb_blocks l)))"
  shows "clean_item i"
proof -
  from assms(2) obtain b where b: "b \<in> set (cb_blocks l)" "i \<in> set (block_items b)" by auto
  with assms(1) have "block_ok b" by (simp add: list_ok_def)
  with b(2) show ?thesis
    by (auto simp: block_items_def block_ok_def Let_def intro: clean_entry_items
      simp del: clean_item.simps)
qed

subsection \<open>Reading the written file back\<close>

abbreviation written_reader :: "ConfigBlockList \<Rightarrow> INIReader" where
  "written_reader l \<equiv> run_calls ValueHandler (concat (map block_calls (cb_blocks l))) empty_reader"

lemma distinct_before: "distinct (map f xs) \<Longrightarrow> k < length xs \<Longrightarrow> x \<in> set (take k xs) \<Longrightarrow> f x \<noteq> f (xs ! k)"
  by (auto simp: in_set_conv_nth distinct_conv_nth)

lemma block_calls_member:
  "(s, n, v) \<in> set (block_calls b) \<longleftrightarrow> s = block_name b \<and>
     (\<exists>e \<in> set (config_entries b). entry_selected True e \<and> n = entry_name e \<and>
        v = showbase_hex (unat (entry_value e)))"
  by (auto simp: block_calls_def)

lemma same_lower_block:
  assumes "list_ok l" and "b \<in> set (cb_blocks l)" and "b' \<in> set (cb_blocks l)"
    and "lower (block_name b) = lower (block_name b')"
  shows "b = b'"
  using assms by (auto simp: list_ok_def distinct_map dest: inj_onD)

lemma written_sections:
  "sec \<in> set (GetSections (written_reader l)) \<longleftrightarrow>
     (\<exists>b \<in> set (cb_blocks l). block_name b = sec \<and>
        (\<exists>e \<in> set (config_entries b). entry_selected True e))"
proof -
  have "sec \<in> set (GetSections (written_reader l)) \<longleftrightarrow>
      (\<exists>n v. (sec, n, v) \<in> set (concat (map block_calls (cb_blocks l))))"
    unfolding run_calls_sections by (force simp: GetSections_def empty_reader_def)
  then show ?thesis by (auto simp: block_calls_member)
qed

lemma written_fields:
  assumes "list_ok l" and b: "b \<in> set (cb_blocks l)"
  shows "n \<in> set (GetFields (written_reader l) (block_name b)) \<longleftrightarrow>
     (\<exists>e \<in> set (config_entries b). entry_selected True e \<and> entry_name e = n)"
proof -
  have "n \<in> set (GetFields (written_reader l) (block_name b)) \<longleftrightarrow>
      (\<exists>b' \<in> set (cb_blocks l). lower (block_name b') = lower (block_name b) \<and>
        (\<exists>v. (block_name b', n, v) \<in> set (block_calls b')))"
    unfolding run_calls_fields
    by (auto simp: GetFields_def empty_reader_def block_calls_member)
  also have "\<dots> \<longleftrightarrow> (\<exists>v. (block_name b, n, v) \<in> set (block_calls b))"
    using same_lower_block [OF assms(1) _ b] b by metis
  finally show ?thesis by (auto simp: block_calls_member)
qed

lemma restored_first:
  assumes "restored b i" and "e \<in> set (take i (config_entries b))"
  shows "entry_name e \<noteq> entry_name (config_entries b ! i)"
  using assms
  by (auto simp: restored_def findEntry_def find_first_sym find_first_Some in_set_conv_nth
    split: option.splits)

definition earlier_calls :: "ConfigBlockList \<Rightarrow> nat \<Rightarrow> nat \<Rightarrow> (string \<times> string \<times> string) list" where
  "earlier_calls l k i = concat (map block_calls (take k (cb_blocks l))) @
     map (\<lambda>e. (block_name (cb_blocks l ! k), entry_name e, showbase_hex (unat (entry_value e))))
       (filter (entry_selected True) (take i (config_entries (cb_blocks l ! k))))"

lemma calls_split:
  assumes k: "k < length (cb_blocks l)" and i: "i < length (config_entries (cb_blocks l ! k))"
    and sel: "entry_selected True (config_entries (cb_blocks l ! k) ! i)"
  shows "\<exists>cs. concat (map block_calls (cb_blocks l)) = earlier_calls l k i @
    (block_name (cb_blocks l ! k), entry_name (config_entries (cb_blocks l ! k) ! i),
     showbase_hex (unat (entry_value (config_entries (cb_blocks l ! k) ! i)))) # cs"
proof -
  let ?b = "cb_blocks l ! k"
  let ?es = "config_entries ?b"
  let ?f = "\<lambda>e. (block_name ?b, entry_name e, showbase_hex (unat (entry_value e)))"
  have "block_calls ?b = map ?f (filter (entry_selected True) (take i ?es @ ?es ! i # drop (Suc i) ?es))"
    unfolding block_calls_def by (subst id_take_nth_drop [OF i]) simp
  with sel have "block_calls ?b = map ?f (filter (entry_selected True) (take i ?es)) @
      ?f (?es ! i) # map ?f (filter (entry_selected True) (drop (Suc i) ?es))" by simp
  then show ?thesis
    by (subst id_take_nth_drop [OF k]) (simp add: earlier_calls_def)
qed

lemma no_equals_in_name:
  assumes "list_ok l" and "b \<in> set (cb_blocks l)" and "e \<in> set (config_entries b)"
    and "entry_selected True e"
  shows "CHR ''='' \<notin> set (entry_name e)"
  using assms by (auto simp: list_ok_def block_ok_def entry_ok_def Let_def)

lemma earlier_keys_differ:
  assumes ok: "list_ok l" and k: "k < length (cb_blocks l)"
    and i: "i < length (config_entries (cb_blocks l ! k))" and r: "restored (cb_blocks l ! k) i"
    and c: "(s, n, v) \<in> set (earlier_calls l k i)"
  shows "MakeKey s n \<noteq> MakeKey (block_name (cb_blocks l ! k))
    (entry_name (config_entries (cb_blocks l ! k) ! i))"
proof -
  let ?b = "cb_blocks l ! k"
  let ?e = "config_entries ?b ! i"
  have bin: "?b \<in> set (cb_blocks l)" and ein: "?e \<in> set (config_entries ?b)" using k i by auto
  have sel: "entry_selected True ?e" using r by (simp add: restored_def entry_selected_all)
  note noeq = no_equals_in_name [OF ok]
  from c consider
    b where "b \<in> set (take k (cb_blocks l))" "(s, n, v) \<in> set (block_calls b)"
    | e where "e \<in> set (take i (config_entries ?b))" "entry_selected True e"
        "s = block_name ?b" "n = entry_name e"
    by (auto simp: earlier_calls_def)
  then show ?thesis
  proof cases
    case (1 b)
    then have b: "b \<in> set (cb_blocks l)" by (auto dest: in_set_takeD)
    have "lower (block_name b) \<noteq> lower (block_name ?b)"
      using distinct_before [of "\<lambda>b. lower (block_name b)" "cb_blocks l" k b] ok k 1(1)
      by (simp add: list_ok_def)
    with 1(2) b show ?thesis
      using noeq [OF b] noeq [OF bin ein sel] by (auto simp: block_calls_member MakeKey_eq_iff)
  next
    case (2 e)
    then have e: "e \<in> set (config_entries ?b)" by (auto dest: in_set_takeD)
    have "entry_name e \<noteq> entry_name ?e" using restored_first [OF r 2(1)] .
    then have "lower (entry_name e) \<noteq> lower (entry_name ?e)"
      using ok bin e ein 2(2) sel by (auto simp: list_ok_def block_ok_def Let_def)
    with 2 show ?thesis using noeq [OF bin e 2(2)] noeq [OF bin ein sel] by (simp add: MakeKey_eq_iff)
  qed
qed

lemma written_value:
  assumes ok: "list_ok l" and k: "k < length (cb_blocks l)"
    and i: "i < length (config_entries (cb_blocks l ! k))" and r: "restored (cb_blocks l ! k) i"
  shows "GetInteger (written_reader l) (block_name (cb_blocks l ! k))
      (entry_name (config_entries (cb_blocks l ! k) ! i)) 0 =
    int (unat (entry_value (config_entries (cb_blocks l ! k) ! i)))"
proof -
  let ?b = "cb_blocks l ! k"
  let ?e = "config_entries ?b ! i"
  let ?v = "showbase_hex (unat (entry_value ?e))"
  have sel: "entry_selected True ?e" using r by (simp add: restored_def entry_selected_all)
  from calls_split [OF k i sel] obtain cs where cs: "concat (map block_calls (cb_blocks l)) =
    earlier_calls l k i @ (block_name ?b, entry_name ?e, ?v) # cs" by blast
  obtain rest where j: "joined (MakeKey (block_name ?b) (entry_name ?e))
      (earlier_calls l k i @ (block_name ?b, entry_name ?e, ?v) # cs) = Some (?v @ rest)"
    and rest: "rest = [] \<or> hd rest = newline"
    using joined_first [of "block_name ?b" "entry_name ?e" _ ?v "earlier_calls l k i" cs]
      earlier_keys_differ [OF ok k i r] by auto
  have g: "Get (written_reader l) (block_name ?b) (entry_name ?e) [] = ?v @ rest"
    unfolding Get_def cs run_calls_joined using j by simp
  have "c_str rest = [] \<or> hd (c_str rest) = newline"
    using rest by (cases rest) (auto simp: c_str_def)
  moreover have "unat (entry_value ?e) < 2 ^ 63" using unat_u16 [of "entry_value ?e"] by simp
  ultimately have "strtol0 (?v @ c_str rest) = Some (int (unat (entry_value ?e)))"
    by (intro strtol0_showbase_hex)
  moreover have "c_str (?v @ rest) = ?v @ c_str rest"
    using showbase_hex_plain by (intro c_str_append) blast
  ultimately show ?thesis by (simp add: GetInteger_def g)
qed

lemma read_written_block:
  assumes ok: "list_ok l" and k: "k < length (cb_blocks l)"
    and nm: "block_name b' = block_name (cb_blocks l ! k)"
    and names: "map entry_name (config_entries b') = map entry_name (config_entries (cb_blocks l ! k))"
    and i: "i < length (config_entries (cb_blocks l ! k))"
  shows "entry_value (config_entries (block_readINI (written_reader l) b') ! i) =
    (if restored (cb_blocks l ! k) i then entry_value (config_entries (cb_blocks l ! k) ! i)
     else entry_value (config_entries b' ! i))"
proof -
  let ?b = "cb_blocks l ! k"
  let ?e = "config_entries ?b ! i"
  have len: "length (config_entries b') = length (config_entries ?b)"
    using names by (metis length_map)
  then have i': "i < length (config_entries b')" using i by simp
  have en: "entry_name (config_entries b' ! i) = entry_name ?e"
    using names i i' by (metis nth_map)
  have fe: "findEntry b' n = findEntry ?b n" for n using findEntry_names names by blast
  have bin: "?b \<in> set (cb_blocks l)" and ein: "?e \<in> set (config_entries ?b)" using k i by auto
  have fld: "entry_name ?e \<in> set (GetFields (written_reader l) (block_name ?b)) \<longleftrightarrow>
      entry_name ?e \<noteq> ''UNUSED''"
    using ein by (auto simp: written_fields [OF ok bin] entry_selected_all)
  have sec: "entry_name ?e \<noteq> ''UNUSED'' \<Longrightarrow> block_name ?b \<in> set (GetSections (written_reader l))"
    using bin ein by (auto simp: written_sections entry_selected_all)
  have hit: "(block_name ?b \<in> set (GetSections (written_reader l)) \<and>
      entry_name ?e \<in> set (GetFields (written_reader l) (block_name ?b)) \<and>
      findEntry ?b (entry_name ?e) = int i) = restored ?b i"
    using fld sec unfolding restored_def by blast
  have "config_entries (block_readINI (written_reader l) b') ! i =
    (if restored ?b i then (config_entries b' ! i)\<lparr>entry_value := word_of_int
        (GetInteger (written_reader l) (block_name ?b) (entry_name ?e) 0)\<rparr> else config_entries b' ! i)"
    unfolding block_readINI_nth [OF i'] Let_def en fe nm hit ..
  then show ?thesis using written_value [OF ok k i] by simp
qed

lemma read_written_list:
  assumes "list_ok l" and "same_shape l l'"
    and "list_writeINI fs True f l = (res, fs', l1)" and "list_readINI fs' f l' = (err, l'')"
    and "k < length (cb_blocks l)" and "i < length (config_entries (cb_blocks l ! k))"
  shows "res \<and> err = 0 \<and> entry_value (config_entries (cb_blocks l'' ! k) ! i) =
    (if restored (cb_blocks l ! k) i then entry_value (config_entries (cb_blocks l ! k) ! i)
     else entry_value (config_entries (cb_blocks l' ! k) ! i))"
proof -
  have fs': "fs' f = Some (print_ini (concat (map block_items (cb_blocks l))))" and res
    using assms(3) by (auto simp: list_writeINI_def write_blocks_print)
  have rd: "INIReader_new fs' f = written_reader l"
    using INIReader_new_printed [where fs = fs' and filename = f, OF fs'] clean_list_items [OF assms(1)]
    by (simp add: ini_calls_blocks)
  have len: "length (cb_blocks l') = length (cb_blocks l)"
    using arg_cong [OF assms(2) [unfolded same_shape_def], of length] by simp
  then have k': "k < length (cb_blocks l')" using assms(5) by simp
  have "(block_name (cb_blocks l ! k), map entry_name (config_entries (cb_blocks l ! k))) =
      (block_name (cb_blocks l' ! k), map entry_name (config_entries (cb_blocks l' ! k)))"
    using arg_cong [OF assms(2) [unfolded same_shape_def], of "\<lambda>xs. xs ! k"] assms(5) k' by simp
  then have val: "entry_value (config_entries (block_readINI (written_reader l) (cb_blocks l' ! k)) ! i) =
      (if restored (cb_blocks l ! k) i then entry_value (config_entries (cb_blocks l ! k) ! i)
       else entry_value (config_entries (cb_blocks l' ! k) ! i))"
    by (intro read_written_block [OF assms(1,5) _ _ assms(6)]) simp_all
  have "ParseError (written_reader l) = 0" by (simp add: ParseError_def empty_reader_def)
  then have "err = 0" and "cb_blocks l'' ! k =
      createConfigMessages (block_readINI (written_reader l) (cb_blocks l' ! k)) (cb_write_all l')"
    using assms(4) k' unfolding list_readINI_def Let_def rd by auto
  with val \<open>res\<close> show ?thesis by simp
qed

text \<open>
  C1. Writing a configuration to an INI file and reading the file into any list of the same
  shape restores the registers: no parse error, every register that is not a placeholder and is
  the first of its block with its name gets the written value, and every other register keeps the
  value it had. Names must survive the file format (\<open>list_ok\<close>), which the shipped table's do.
\<close>

theorem writeINI_readINI_roundtrip:
  assumes "list_ok l" and "same_shape l l'"
    and "list_writeINI fs True f l = (res, fs', l1)" and "list_readINI fs' f l' = (err, l'')"
    and "k < length (cb_blocks l)" and "i < length (config_entries (cb_blocks l ! k))"
  shows "res \<and> err = 0 \<and> entry_value (config_entries (cb_blocks l'' ! k) ! i) =
    (if restored (cb_blocks l ! k) i then entry_value (config_entries (cb_blocks l ! k) ! i)
     else entry_value (config_entries (cb_blocks l' ! k) ! i))"
  using assms by (rule read_written_list)

end
