(* ===== verification/ConfigTable.thy ===== *)
theory ConfigTable
  imports ConfigBlocks
begin

text \<open>
  Facts about the register table the constructor \<open>ConfigBlockList::ConfigBlockList\<close> ships: its
  names survive the INI file format, its message has 107 words, and its two defects, registers
  that no file can set because an earlier one has their name, and registers that are programmed
  at the address of another register.
\<close>

subsection \<open>The names of the table\<close>

lemma registers_ok [simp]:
  "entry_ok SFP0_MAC0" "entry_ok SFP1_MAC0" "entry_ok RJ45_MAC0" "entry_ok ENET_MAC1"
  "entry_ok ENET_MAC2" "entry_ok SFP_ServerMAC0" "entry_ok SFP_ServerMAC1"
  "entry_ok SFP_ServerMAC2" "entry_ok RJ45_ServerMAC0" "entry_ok RJ45_ServerMAC1"
  "entry_ok RJ45_ServerMAC2" "entry_ok SFP0_IP0" "entry_ok SFP1_IP0" "entry_ok RJ45_IP0"
  "entry_ok ENET_IP1" "entry_ok SFP_ServerIP0" "entry_ok RJ45_ServerIP0" "entry_ok ENET_ServerIP1"
  "entry_ok SFP_TSE0" "entry_ok ENET_TSE1" "entry_ok RJ45_TSE0" "entry_ok SFP0_UDP"
  "entry_ok SFP1_UDP" "entry_ok RJ45_UDP" "entry_ok ENET_FIFO" "entry_ok ENET_CounterEnable"
  "entry_ok ENET_PacketSize" "entry_ok ENET_HeaderConfig" "entry_ok TSE_MDIO_Ctrl0_OR"
  "entry_ok TSE_MDIO_Ctrl0_AND" "entry_ok TSE_MDIO_AN_OR" "entry_ok TSE_MDIO_AN_AND"
  "entry_ok TSE_MDIO_1000BASE_OR" "entry_ok TSE_MDIO_1000BASE_AND" "entry_ok TSE_MDIO_PHYCtrl_OR"
  "entry_ok TSE_MDIO_PHYCtrl_AND" "entry_ok TSE_MDIO_ExtPHYStat_OR"
  "entry_ok TSE_MDIO_ExtPHYStat_AND" "entry_ok TSE_MDIO_ExtPHYCtrl_OR"
  "entry_ok TSE_MDIO_ExtPHYCtrl_AND" "entry_ok TSE_MDIO_ResetCycles0"
  "entry_ok TSE_MDIO_ResetCycles1" "entry_ok TSE_MDIO_WaitCycles0" "entry_ok TSE_MDIO_WaitCycles1"
  "entry_ok ADC_Tap_Delays" "entry_ok ADC_Output_Config" "entry_ok ADC_CDS_NSkips"
  "entry_ok ADC_CDS_Config" "entry_ok ADC_CDS_NSamples" "entry_ok ADC_Trigger_Samples"
  "entry_ok ADC_Trigger_Delay" "entry_ok ADC_Data_Multiplier"
  by (simp_all add: entry_ok_def plain_def isspace_def register_defs ConfigEntry_new_def)

lemma lower_inj_list:
  assumes "distinct (map lower ns)" and "n \<in> set ns" and "n' \<in> set ns" and "lower n = lower n'"
  shows "n = n'"
  using assms by (auto simp: distinct_map dest: inj_onD)

lemma lower_block_names:
  "distinct (map (\<lambda>b. lower (block_name b)) (cb_blocks ConfigBlockList_new))"
  by (simp add: ConfigBlockList_new_def lower_def tolower_def)

lemma block_okI:
  assumes "clean_item (Section (block_name b))"
    and "\<forall>e \<in> set (filter (entry_selected True) (config_entries b)). entry_ok e \<and> entry_name e \<in> set ns"
    and "distinct (map lower ns)"
  shows "block_ok b"
  using assms lower_inj_list [OF assms(3)] unfolding block_ok_def Let_def by blast

lemma clean_block_names:
  "b \<in> set (cb_blocks ConfigBlockList_new) \<Longrightarrow> clean_item (Section (block_name b))"
  by (auto simp: ConfigBlockList_new_def plain_def MAX_SECTION_def)

text \<open>The names of the registers, by kind of block: distinct even when case is ignored.\<close>

definition enet_names :: "string list" where
  "enet_names =
     [''SFP0_MAC0'', ''ENET_MAC1'', ''ENET_MAC2'', ''SFP_ServerMAC0'',
      ''SFP_ServerMAC1'', ''SFP_ServerMAC2'', ''SFP_IP0'', ''ENET_IP1'', ''SFP_ServerIP0'',
      ''ENET_ServerIP1'', ''SFP_TSE0'', ''ENET_TSE1'', ''SFP0_UDP'', ''ENET_FIFO'',
      ''ENET_CounterEnable'', ''ENET_PacketSize'', ''ENET_HeaderConfig'', ''SFP1_MAC0'', ''SFP1_UDP'',
      ''RJ45_MAC0'', ''RJ45_ServerMAC0'', ''RJ45_ServerMAC1'', ''RJ45_ServerMAC2'', ''RJ45_IP0'',
      ''RJ45_ServerIP0'', ''RJ45_TSE0'', ''RJ45_UDP'']"

definition tse_names :: "string list" where
  "tse_names =
     [''TSE_MDIO_Ctrl0_OR'', ''TSE_MDIO_Ctrl0_AND'', ''TSE_MDIO_AN_OR'',
      ''TSE_MDIO_AN_AND'', ''TSE_MDIO_1000BASE'', ''TSE_MDIO_MDIOCtrl'', ''TSE_MDIO_PHYCtrl'',
      ''TSE_MDIO_ExtPHYStat'', ''TSE_MDIO_ExtPHYCtrl'', ''TSE_MDIO_ResetCycles0'',
      ''TSE_MDIO_ResetCycles1'', ''TSE_MDIO_WaitCycles0'', ''TSE_MDIO_WaitCycles1'']"

definition adc_names :: "string list" where
  "adc_names =
     [''ADC_Tap_Delays'', ''ADC_Output_Config'', ''ADC_CDS_NSkips'',
      ''ADC_CDS_Config'', ''ADC_CDS_NSamples'', ''ADC_Trigger_Samples'', ''ADC_Trigger_Delay'',
      ''ADC_Data_Multiplier'']"

lemma register_names_distinct:
  "distinct (map lower enet_names)" "distinct (map lower tse_names)" "distinct (map lower adc_names)"
  by (simp_all add: enet_names_def tse_names_def adc_names_def lower_def tolower_def)

lemma enet_blocks_ok:
  "block_ok SFP0ConfigBlock" "block_ok SFP1ConfigBlock" "block_ok RJ45ConfigBlock"
  by (rule block_okI [OF clean_block_names _ register_names_distinct(1)];
    simp add: ConfigBlockList_new_def entry_selected_all enet_names_def)+

lemma tse_blocks_ok:
  "block_ok SFP0TSEConfigBlock" "block_ok SFP1TSEConfigBlock" "block_ok RJ45TSEConfigBlock"
  by (rule block_okI [OF clean_block_names _ register_names_distinct(2)];
    simp add: ConfigBlockList_new_def entry_selected_all tse_names_def)+

lemma adc_block_ok: "block_ok ADCConfigBlock"
  by (rule block_okI [OF clean_block_names _ register_names_distinct(3)];
    simp add: ConfigBlockList_new_def entry_selected_all adc_names_def)

lemma list_ok_default: "list_ok ConfigBlockList_new"
proof -
  have "\<forall>b \<in> set (cb_blocks ConfigBlockList_new). block_ok b"
    by (simp add: ConfigBlockList_new_def enet_blocks_ok tse_blocks_ok adc_block_ok)
  then show ?thesis by (simp add: list_ok_def lower_block_names)
qed

text \<open>Whether a block can be written does not depend on the values.\<close>

lemma block_ok_values:
  assumes "block_ok b" and "block_name b' = block_name b"
    and "map (\<lambda>e. (entry_name e, entry_description e)) (config_entries b') =
      map (\<lambda>e. (entry_name e, entry_description e)) (config_entries b)"
  shows "block_ok b'"
proof -
  let ?f = "\<lambda>e. (entry_name e, entry_description e)"
  have like: "\<exists>e \<in> set (filter (entry_selected True) (config_entries b)). entry_name e' = entry_name e \<and> entry_description e' = entry_description e"
    if e': "e' \<in> set (filter (entry_selected True) (config_entries b'))" for e'
  proof -
    have "?f e' \<in> set (map ?f (config_entries b'))" using e' by simp
    then have "?f e' \<in> set (map ?f (config_entries b))" by (simp only: assms(3))
    then obtain e where e: "?f e' = ?f e" "e \<in> set (config_entries b)" unfolding set_map by (rule imageE)
    then have "entry_selected True e" using e' by (simp add: entry_selected_all)
    with e show ?thesis by (intro bexI [of _ e]) simp_all
  qed
  let ?es = "filter (entry_selected True) (config_entries b)" and ?es' = "filter (entry_selected True) (config_entries b')"
  have b: "clean_item (Section (block_name b))" "\<forall>e \<in> set ?es. entry_ok e"
      "\<forall>e \<in> set ?es. \<forall>e' \<in> set ?es. lower (entry_name e) = lower (entry_name e') \<longrightarrow> entry_name e = entry_name e'"
    using assms(1) unfolding block_ok_def Let_def by (blast, blast, blast)
  have ok: "entry_ok e' = entry_ok e" if "entry_name e' = entry_name e" "entry_description e' = entry_description e" for e e'
    unfolding entry_ok_def that ..
  have "\<forall>e' \<in> set ?es'. entry_ok e'"
  proof
    fix e' assume "e' \<in> set ?es'"
    then obtain e where "e \<in> set ?es" "entry_name e' = entry_name e" "entry_description e' = entry_description e"
      using like by blast
    then show "entry_ok e'" using b(2) ok by blast
  qed
  moreover have "\<forall>e1 \<in> set ?es'. \<forall>e2 \<in> set ?es'. lower (entry_name e1) = lower (entry_name e2) \<longrightarrow> entry_name e1 = entry_name e2"
  proof (intro ballI impI)
    fix e1 e2 assume "e1 \<in> set ?es'" "e2 \<in> set ?es'" and l: "lower (entry_name e1) = lower (entry_name e2)"
    then obtain d1 d2 where d: "d1 \<in> set ?es" "entry_name e1 = entry_name d1" "d2 \<in> set ?es" "entry_name e2 = entry_name d2"
      using like by meson
    from b(3) d(1,3) l show "entry_name e1 = entry_name e2" unfolding d(2,4) by blast
  qed
  ultimately show ?thesis unfolding block_ok_def Let_def assms(2) using b(1) by (intro conjI)
qed

subsection \<open>Properties of the shipped table\<close>

text \<open>The list the round trip is demonstrated on: the shipped table with one register changed.\<close>

definition changed_list :: ConfigBlockList where
  "changed_list = ConfigBlockList_new\<lparr>cb_blocks := (cb_blocks ConfigBlockList_new)[6 :=
     ADCConfigBlock\<lparr>config_entries := (config_entries ADCConfigBlock)[2 :=
       ADC_CDS_NSkips\<lparr>entry_value := 5\<rparr>]\<rparr>]\<rparr>"

lemma same_shape_changed: "same_shape ConfigBlockList_new changed_list"
  by (simp add: same_shape_def changed_list_def ConfigBlockList_new_def numeral_eq_Suc)

theorem writeINI_readINI_roundtrip_witness:
  "let fs' = fst (snd (list_writeINI Map.empty True ''default.ini'' ConfigBlockList_new));
       l = snd (list_readINI fs' ''default.ini'' changed_list)
   in entry_value (config_entries (cb_blocks changed_list ! 6) ! 2) = 5 \<and>
      entry_value (config_entries (cb_blocks l ! 6) ! 2) = 1"
proof -
  obtain res fs' l1 where w: "list_writeINI Map.empty True ''default.ini'' ConfigBlockList_new = (res, fs', l1)"
    by (cases "list_writeINI Map.empty True ''default.ini'' ConfigBlockList_new") auto
  obtain err l where r: "list_readINI fs' ''default.ini'' changed_list = (err, l)"
    by (cases "list_readINI fs' ''default.ini'' changed_list") auto
  have adc: "cb_blocks ConfigBlockList_new ! 6 = ADCConfigBlock" by (simp add: ConfigBlockList_new_def)
  have "restored (cb_blocks ConfigBlockList_new ! 6) 2"
    unfolding adc by (simp add: restored_def findEntry_def)
  then have "entry_value (config_entries (cb_blocks l ! 6) ! 2) = entry_value ADC_CDS_NSkips"
    using writeINI_readINI_roundtrip [OF list_ok_default same_shape_changed w r, of 6 2]
    by (simp add: adc) (simp add: ConfigBlockList_new_def)
  then have "entry_value (config_entries (cb_blocks l ! 6) ! 2) = 1"
    by (simp add: ADC_CDS_NSkips_def ConfigEntry_new_def)
  moreover have "entry_value (config_entries (cb_blocks changed_list ! 6) ! 2) = 5"
    by (simp add: changed_list_def ConfigBlockList_new_def)
  ultimately show ?thesis by (simp add: w r)
qed

lemma message_bytes:
  assumes "\<forall>b \<in> set (cb_blocks l). \<forall>e \<in> set (config_entries b). unat (entry_address e) < 128"
    and "cb_write_all l"
  shows "bytes_of_words (fst (getConfigMessage l)) =
    concat (map (\<lambda>b. concat (map (\<lambda>e. [block_address b, entry_address e,
        ucast (drop_bit 8 (entry_value e)), ucast (entry_value e)])
      (filter (\<lambda>e. entry_name e \<noteq> ''UNUSED'') (config_entries b)))) (cb_blocks l))"
proof -
  have b: "bytes_of_words (block_messages True b) =
      concat (map (\<lambda>e. [block_address b, entry_address e, ucast (drop_bit 8 (entry_value e)),
        ucast (entry_value e)]) (filter (\<lambda>e. entry_name e \<noteq> ''UNUSED'') (config_entries b)))"
    if "b \<in> set (cb_blocks l)" for b
    using assms(1) that
    by (auto simp: block_messages_def bytes_of_words_def comp_def entry_selected_all [abs_def]
      bytes_of_config_word intro!: arg_cong [where f = concat] map_cong)
  have cat: "bytes_of_words (concat xss) = concat (map bytes_of_words xss)" for xss
    by (induction xss) simp_all
  show ?thesis
    using b assms(2) by (auto simp: getConfigMessage_eq cat comp_def
      intro!: arg_cong [where f = concat])
qed

text \<open>
  C9. The master message is the concatenation, block by block and register by register, of the
  four-byte messages of the registers that are not placeholders (all of them, since \<open>write_all\<close> is
  set by the constructor), in network order; the table's register addresses are all below 0x80.
\<close>

theorem getConfigMessage_wire:
  assumes "\<forall>b \<in> set (cb_blocks l). \<forall>e \<in> set (config_entries b). unat (entry_address e) < 128"
    and "cb_write_all l"
  shows "bytes_of_words (fst (getConfigMessage l)) =
    concat (map (\<lambda>b. concat (map (\<lambda>e. [block_address b, entry_address e,
        ucast (drop_bit 8 (entry_value e)), ucast (entry_value e)])
      (filter (\<lambda>e. entry_name e \<noteq> ''UNUSED'') (config_entries b)))) (cb_blocks l))"
  using assms by (rule message_bytes)

theorem getConfigMessage_wire_witness:
  "take 8 (bytes_of_words (fst (getConfigMessage ConfigBlockList_new))) =
     [0x10, 0x00, 0x44, 0x55, 0x10, 0x01, 0x22, 0x33]"
proof -
  have a: "\<forall>b \<in> set (cb_blocks ConfigBlockList_new). \<forall>e \<in> set (config_entries b). unat (entry_address e) < 128"
    by (simp add: ConfigBlockList_new_def)
  have w: "cb_write_all ConfigBlockList_new" by (simp add: ConfigBlockList_new_def)
  show ?thesis
    unfolding getConfigMessage_wire [OF a w]
    by (simp add: ConfigBlockList_new_def SFP0_MAC0_def ENET_MAC1_def ConfigEntry_new_def)
qed

text \<open>
  In the TSE blocks the registers \<open>TSE_MDIO_1000BASE_AND\<close>, \<open>TSE_MDIO_ExtPHYStat_AND\<close> and
  \<open>TSE_MDIO_ExtPHYCtrl_AND\<close> carry the name of the OR register before them, so no INI file can
  change them: reading any file leaves them as they are.
\<close>

theorem tse_shadowed_registers:
  assumes "map entry_name (config_entries b) = map entry_name (config_entries baseTSEConfigBlock)"
    and "i = 5 \<or> i = 9 \<or> i = 11"
  shows "config_entries (block_readINI r b) ! i = config_entries b ! i"
proof -
  have len: "length (config_entries b) = 16"
    using arg_cong [OF assms(1), of length] by simp
  have f: "findEntry b n = findEntry baseTSEConfigBlock n" for n
    using assms(1) by (rule findEntry_names)
  have nm: "entry_name (config_entries b ! i) = entry_name (config_entries baseTSEConfigBlock ! i)"
    using arg_cong [OF assms(1), of "\<lambda>ns. ns ! i"] assms(2) len by auto
  have "findEntry b (entry_name (config_entries b ! i)) \<noteq> int i"
    using assms(2) unfolding f nm by (auto simp: findEntry_def)
  then show ?thesis
    using block_readINI_nth [of i b r] assms(2) len by (auto simp: Let_def)
qed

theorem tse_shadowed_registers_witness:
  "config_entries (block_readINI (snd (ValueHandler empty_reader ''SFP0TSEConfigBlock''
     ''TSE_MDIO_1000BASE'' ''0x1234'')) SFP0TSEConfigBlock) ! 5 = TSE_MDIO_1000BASE_AND"
  using tse_shadowed_registers [of SFP0TSEConfigBlock 5] by simp

text \<open>
  The registers \<open>TSE_MDIO_WaitCycles0/1\<close> are declared with the addresses of
  \<open>TSE_MDIO_ResetCycles0/1\<close>: their messages address the same board registers with other values,
  so the later message overwrites the earlier one.
\<close>

theorem wait_cycles_overwrite_reset_cycles:
  "entry_address TSE_MDIO_WaitCycles0 = entry_address TSE_MDIO_ResetCycles0 \<and>
   entry_address TSE_MDIO_WaitCycles1 = entry_address TSE_MDIO_ResetCycles1 \<and>
   take 2 (bytes_of_word (bswap_32 (config_word a TSE_MDIO_WaitCycles0))) =
   take 2 (bytes_of_word (bswap_32 (config_word a TSE_MDIO_ResetCycles0))) \<and>
   config_word a TSE_MDIO_WaitCycles0 \<noteq> config_word a TSE_MDIO_ResetCycles0"
proof -
  have "bytes_of_word (bswap_32 (config_word a TSE_MDIO_WaitCycles0)) = [a, 0x0C, 0x42, 0x40]"
    "bytes_of_word (bswap_32 (config_word a TSE_MDIO_ResetCycles0)) = [a, 0x0C, 0x03, 0xD8]"
    by (simp_all add: bytes_of_config_word)
      (simp_all add: TSE_MDIO_WaitCycles0_def TSE_MDIO_ResetCycles0_def ConfigEntry_new_def)
  then show ?thesis by auto
qed

end
