(* ===== verification/IeeeFloat.thy ===== *)
theory IeeeFloat
  imports Complex_Main CLib
begin

text \<open>
  Binary floating point as the x86-64 programs use it: \<open>float\<close> and \<open>double\<close> are the IEEE 754
  formats of 32 and 64 bits, every operation is rounded to the nearest value of its type, ties to
  even, and conversion to \<open>int\<close> truncates. A number is a sign, a significand and a power of two,
  and all operations compute on integers, so they can be evaluated. The lemmas give the value of a
  rounded quotient: rounding is monotone, keeps what the format can hold and has a relative error
  of at most \<open>2 powi - precision\<close> above the subnormal range.
\<close>

subsection \<open>Formats and numbers\<close>

text \<open>The powers of two of the last place: that of the subnormal numbers and the largest one.\<close>

record float_format =
  precision :: nat
  min_exp :: int
  max_exp :: int

definition float32 :: float_format where
  "float32 = \<lparr>precision = 24, min_exp = -149, max_exp = 104\<rparr>"

definition double64 :: float_format where
  "double64 = \<lparr>precision = 53, min_exp = -1074, max_exp = 971\<rparr>"

datatype ieee = Finite bool nat int | Infinite bool | NaN

subsection \<open>Rounding\<close>

text \<open>The fraction \<open>n / d\<close> in units of the power \<open>e\<close> of two, as another fraction.\<close>

definition units :: "int \<Rightarrow> nat \<Rightarrow> nat \<Rightarrow> nat \<times> nat" where
  "units e n d = (if 0 \<le> e then (n, d * 2 ^ nat e) else (n * 2 ^ nat (- e), d))"

definition round_even :: "nat \<Rightarrow> nat \<Rightarrow> nat" where
  "round_even n d =
     (let q = n div d; r = n mod d
      in if 2 * r < d then q else if 2 * r = d \<and> even q then q else q + 1)"

fun bit_len :: "nat \<Rightarrow> nat" where
  "bit_len n = (if n = 0 then 0 else Suc (bit_len (n div 2)))"

declare bit_len.simps [simp del]

text \<open>The power of two of the last place of \<open>n / d\<close>.\<close>

definition unit_exp :: "float_format \<Rightarrow> nat \<Rightarrow> nat \<Rightarrow> int" where
  "unit_exp fmt n d =
     (let e = int (bit_len n) - int (bit_len d) - int (precision fmt);
          (a, b) = units e n d
      in max (min_exp fmt) (if a < 2 ^ precision fmt * b then e else e + 1))"

definition round_frac :: "float_format \<Rightarrow> bool \<Rightarrow> nat \<Rightarrow> nat \<Rightarrow> ieee" where
  "round_frac fmt s n d =
     (let e = unit_exp fmt n d;
          (a, b) = units e n d;
          m = round_even a b;
          (m', e') = (if m = 2 ^ precision fmt then (2 ^ (precision fmt - 1), e + 1) else (m, e))
      in if n = 0 then Finite s 0 (min_exp fmt)
         else if max_exp fmt < e' then Infinite s else Finite s m' e')"

subsection \<open>Operations\<close>

definition of_int_fp :: "float_format \<Rightarrow> int \<Rightarrow> ieee" where
  "of_int_fp fmt k = round_frac fmt (k < 0) (nat \<bar>k\<bar>) 1"

fun mul_fp :: "float_format \<Rightarrow> ieee \<Rightarrow> ieee \<Rightarrow> ieee" where
  "mul_fp fmt (Finite s m e) (Finite t n f) =
     (let (a, b) = units (- (e + f)) (m * n) 1 in round_frac fmt (s \<noteq> t) a b)"
| "mul_fp fmt (Infinite s) (Infinite t) = Infinite (s \<noteq> t)"
| "mul_fp fmt (Infinite s) (Finite t n f) = (if n = 0 then NaN else Infinite (s \<noteq> t))"
| "mul_fp fmt (Finite s m e) (Infinite t) = (if m = 0 then NaN else Infinite (s \<noteq> t))"
| "mul_fp fmt _ _ = NaN"

fun div_fp :: "float_format \<Rightarrow> ieee \<Rightarrow> ieee \<Rightarrow> ieee" where
  "div_fp fmt (Finite s m e) (Finite t n f) =
     (if n = 0 then if m = 0 then NaN else Infinite (s \<noteq> t)
      else let (a, b) = units (f - e) m n in round_frac fmt (s \<noteq> t) a b)"
| "div_fp fmt (Infinite s) (Finite t n f) = Infinite (s \<noteq> t)"
| "div_fp fmt (Finite s m e) (Infinite t) = Finite (s \<noteq> t) 0 (min_exp fmt)"
| "div_fp fmt _ _ = NaN"

text \<open>Conversion to another format.\<close>

fun convert_fp :: "float_format \<Rightarrow> ieee \<Rightarrow> ieee" where
  "convert_fp fmt (Finite s m e) = (let (a, b) = units (- e) m 1 in round_frac fmt s a b)"
| "convert_fp fmt x = x"

text \<open>Conversion to \<open>int\<close>: the integral part, undefined when it does not fit.\<close>

fun to_int_fp :: "ieee \<Rightarrow> int outcome" where
  "to_int_fp (Finite s m e) =
     (let (a, b) = units (- e) m 1; k = int (a div b); i = (if s then - k else k)
      in if - (2 ^ 31) \<le> i \<and> i < 2 ^ 31 then Done i else UB ''float to int out of range'')"
| "to_int_fp _ = UB ''float to int out of range''"

subsection \<open>Values\<close>

fun fp_value :: "ieee \<Rightarrow> real" where
  "fp_value (Finite s m e) = (if s then -1 else 1) * real m * 2 powi e"
| "fp_value _ = 0"

fun finite_fp :: "ieee \<Rightarrow> bool" where
  "finite_fp (Finite s m e) \<longleftrightarrow> True"
| "finite_fp _ \<longleftrightarrow> False"

lemma units_value:
  assumes "units e n d = (a, b)" and "0 < d"
  shows "real n / real d = (real a / real b) * 2 powi e" and "0 < b"
  using assms by (auto simp: units_def power_int_def field_simps split: if_splits)

lemma bit_len_bounds: "n < 2 ^ bit_len n" "0 < n \<Longrightarrow> 2 ^ (bit_len n - 1) \<le> n"
proof (induction n rule: bit_len.induct)
  case (1 n)
  { case 1 show ?case
    proof (cases "n = 0")
      case False
      with "1.IH"(1) have "n div 2 < 2 ^ bit_len (n div 2)" by simp
      with False show ?thesis by (subst bit_len.simps) simp
    qed simp }
  { case 2 show ?case
    proof (cases "n = 1")
      case True then show ?thesis by (simp add: bit_len.simps)
    next
      case False
      with 2 have "0 < n div 2" by linarith
      moreover from this obtain k where "bit_len (n div 2) = Suc k" using bit_len.simps [of "n div 2"] by auto
      ultimately have "2 ^ k \<le> n div 2" using "1.IH"(2) 2 by simp
      then have "2 ^ Suc k \<le> n" by simp
      then show ?thesis using 2 \<open>bit_len (n div 2) = Suc k\<close> by (subst bit_len.simps) simp
    qed }
qed

subsection \<open>Rounding real numbers\<close>

definition rne :: "real \<Rightarrow> int" where
  "rne x = (if x - \<lfloor>x\<rfloor> < 1 / 2 \<or> x - \<lfloor>x\<rfloor> = 1 / 2 \<and> even \<lfloor>x\<rfloor> then \<lfloor>x\<rfloor> else \<lfloor>x\<rfloor> + 1)"

lemma round_even_rne:
  assumes "0 < d"
  shows "int (round_even n d) = rne (real n / real d)"
proof -
  let ?q = "n div d" and ?r = "n mod d"
  have fl: "\<lfloor>real n / real d\<rfloor> = int ?q" by (simp add: floor_divide_of_nat_eq)
  have "real n = real ?q * real d + real ?r" by (metis of_nat_add of_nat_mult div_mult_mod_eq)
  then have fr: "real n / real d - real ?q = real ?r / real d" using assms by (simp add: field_simps)
  have lt: "real ?r / real d < 1 / 2 \<longleftrightarrow> 2 * ?r < d"
  proof -
    have "real ?r / real d < 1 / 2 \<longleftrightarrow> real (2 * ?r) < real d" using assms by (simp add: field_simps)
    then show ?thesis by (simp only: of_nat_less_iff)
  qed
  have eq: "real ?r / real d = 1 / 2 \<longleftrightarrow> 2 * ?r = d"
  proof -
    have "real ?r / real d = 1 / 2 \<longleftrightarrow> real (2 * ?r) = real d" using assms by (auto simp: field_simps)
    then show ?thesis by (simp only: of_nat_eq_iff)
  qed
  have "rne (real n / real d) = (if 2 * ?r < d \<or> 2 * ?r = d \<and> even (int ?q) then int ?q else int ?q + 1)"
    unfolding rne_def fl by (simp only: of_int_of_nat_eq fr lt eq)
  then show ?thesis by (auto simp: round_even_def Let_def)
qed

lemma rne_error: "\<bar>of_int (rne x) - x\<bar> \<le> 1 / 2"
proof -
  have "of_int \<lfloor>x\<rfloor> \<le> x" "x < of_int \<lfloor>x\<rfloor> + 1" by linarith+
  then show ?thesis unfolding rne_def by (auto split: if_splits simp: abs_le_iff)
qed

lemma rne_of_int [simp]: "rne (of_int k) = k"
  by (simp add: rne_def)

lemma rne_mono: "x \<le> y \<Longrightarrow> rne x \<le> rne y"
proof (rule ccontr)
  assume xy: "x \<le> y" and "\<not> rne x \<le> rne y"
  then have "of_int (rne y) + 1 \<le> (of_int (rne x) :: real)" by linarith
  with xy rne_error [of x] rne_error [of y] have "x = y" by linarith
  with \<open>\<not> rne x \<le> rne y\<close> show False by simp
qed

text \<open>The exponent of the last place of a positive number, and the value it is rounded to.\<close>

definition place :: "float_format \<Rightarrow> real \<Rightarrow> int" where
  "place fmt x = max (min_exp fmt) (\<lfloor>log 2 x\<rfloor> + 1 - int (precision fmt))"

definition rnd :: "float_format \<Rightarrow> real \<Rightarrow> real" where
  "rnd fmt x = (if x = 0 then 0 else of_int (rne (x / 2 powi place fmt x)) * 2 powi place fmt x)"

lemma rnd_0 [simp]: "rnd fmt 0 = 0"
  by (simp add: rnd_def)

lemma floor_log2:
  assumes "0 < x"
  shows "\<lfloor>log 2 x\<rfloor> = k \<longleftrightarrow> 2 powi k \<le> x \<and> x < 2 powi (k + 1)"
proof -
  have "2 powi k \<le> x \<longleftrightarrow> of_int k \<le> log 2 x" "x < 2 powi (k + 1) \<longleftrightarrow> log 2 x < of_int (k + 1)" for k
    using assms by (simp_all add: le_log_iff log_less_iff powr_real_of_int' flip: powr_real_of_int')
  then show ?thesis by (simp add: floor_eq_iff)
qed


lemma powi_pos [simp]: "0 < (2::real) powi k"
  by simp

lemma powi_of_nat: "(2::real) ^ k = 2 powi int k"
  by simp

lemma powi_neg: "(2::real) powi (- int k) = 1 / 2 ^ k"
  by (simp add: power_int_minus divide_inverse)

lemma powi_le_iff: "(2::real) powi a \<le> 2 powi b \<longleftrightarrow> a \<le> b"
proof
  assume "(2::real) powi a \<le> 2 powi b"
  moreover have "(2::real) powi b * 2 \<le> 2 powi a" if "b < a"
    using that power_int_increasing [of "b + 1" a "2::real"] by (simp add: power_int_add)
  ultimately show "a \<le> b" using powi_pos [of b] by (force simp: not_le [symmetric])
qed (simp add: power_int_increasing)

lemma bit_len_log:
  assumes "0 < n"
  shows "\<lfloor>log 2 (real n)\<rfloor> = int (bit_len n) - 1"
proof -
  obtain k where k: "bit_len n = Suc k" using assms by (subst (asm) bit_len.simps) (auto simp: bit_len.simps)
  have "2 ^ k \<le> n" "n < 2 ^ Suc k" using bit_len_bounds [of n] assms k by auto
  then have "(2::real) ^ k \<le> real n" "real n < 2 ^ Suc k"
    by (metis of_nat_le_iff of_nat_numeral of_nat_power, metis of_nat_less_iff of_nat_numeral of_nat_power)
  then have "2 powi int k \<le> real n" "real n < 2 powi (int k + 1)"
    by (simp_all add: power_int_add)
  then show ?thesis using assms k by (simp add: floor_log2)
qed

lemma unit_exp_place:
  assumes "0 < n" and "0 < d"
  shows "unit_exp fmt n d = place fmt (real n / real d)"
proof -
  let ?x = "real n / real d" and ?p = "int (precision fmt)"
  define k where "k = int (bit_len n) - int (bit_len d)"
  let ?e = "k - ?p"
  obtain a b where ab: "units ?e n d = (a, b)" by fastforce
  have b: "0 < b" and x: "?x = (real a / real b) * 2 powi ?e" using units_value [OF ab assms(2)] by auto
  have ln: "2 powi (int (bit_len n) - 1) \<le> real n" "real n < 2 powi (int (bit_len n))"
    and ld: "2 powi (int (bit_len d) - 1) \<le> real d" "real d < 2 powi (int (bit_len d))"
    using bit_len_log [of n] bit_len_log [of d] assms by (simp_all add: floor_log2)
  have "2 powi (k - 1) * real d < 2 powi (k - 1) * 2 powi (int (bit_len d))" using ld by simp
  also have "\<dots> = 2 powi (int (bit_len n) - 1)" by (simp add: k_def power_int_diff)
  finally have lo: "2 powi (k - 1) \<le> ?x" using ln(1) assms by (simp add: field_simps)
  have "real n < 2 powi (k + 1) * 2 powi (int (bit_len d) - 1)" using ln(2) by (simp add: k_def flip: power_int_add)
  also have "\<dots> \<le> 2 powi (k + 1) * real d" using ld(1) by simp
  finally have hi: "?x < 2 powi (k + 1)" using assms by (simp add: field_simps)
  have "a < 2 ^ precision fmt * b \<longleftrightarrow> real a < 2 powi ?p * real b"
    using of_nat_less_iff [of a "2 ^ precision fmt * b", where 'a = real] by simp
  also have "\<dots> \<longleftrightarrow> ?x < 2 powi ?p * 2 powi ?e" using b unfolding x by (simp add: field_simps)
  finally have cmp: "a < 2 ^ precision fmt * b \<longleftrightarrow> ?x < 2 powi k" by (simp add: power_int_diff)
  have "\<lfloor>log 2 ?x\<rfloor> = (if ?x < 2 powi k then k - 1 else k)"
    using assms lo hi by (subst floor_log2) auto
  then show ?thesis
    using ab cmp by (simp add: unit_exp_def place_def k_def Let_def algebra_simps)
qed

lemma place_bounds:
  assumes "0 < x"
  shows "min_exp fmt \<le> place fmt x" and "x < 2 powi (place fmt x + int (precision fmt))"
    and "place fmt x = min_exp fmt \<or> 2 powi (place fmt x + int (precision fmt) - 1) \<le> x"
proof -
  let ?l = "\<lfloor>log 2 x\<rfloor>"
  have l: "2 powi ?l \<le> x" "x < 2 powi (?l + 1)" using floor_log2 [OF assms, of ?l] by auto
  show "min_exp fmt \<le> place fmt x" by (simp add: place_def)
  have "(2::real) powi (?l + 1) \<le> 2 powi (place fmt x + int (precision fmt))"
    by (rule power_int_increasing) (auto simp: place_def)
  with l(2) show "x < 2 powi (place fmt x + int (precision fmt))" by linarith
  show "place fmt x = min_exp fmt \<or> 2 powi (place fmt x + int (precision fmt) - 1) \<le> x"
    using l(1) by (auto simp: place_def max_def)
qed

lemma place_mono: "0 < x \<Longrightarrow> x \<le> y \<Longrightarrow> place fmt x \<le> place fmt y"
  unfolding place_def by (intro max.mono order_refl diff_right_mono add_right_mono floor_mono) simp

lemma rnd_exact:
  assumes "min_exp fmt \<le> e" and "m < 2 ^ precision fmt"
  shows "rnd fmt (real m * 2 powi e) = real m * 2 powi e"
proof (cases "m = 0")
  case False
  let ?x = "real m * 2 powi e"
  have "real m < 2 powi (int (precision fmt))"
    using assms(2) by (metis of_nat_less_iff of_nat_numeral of_nat_power powi_of_nat)
  then have "?x < 2 powi (e + int (precision fmt))" by (simp add: power_int_add)
  moreover have "2 powi \<lfloor>log 2 ?x\<rfloor> \<le> ?x" using floor_log2 [of ?x] False by auto
  ultimately have "2 powi \<lfloor>log 2 ?x\<rfloor> < (2::real) powi (e + int (precision fmt))" by linarith
  then have "\<lfloor>log 2 ?x\<rfloor> < e + int (precision fmt)" 
    using power_int_increasing [of "e + int (precision fmt)" "\<lfloor>log 2 ?x\<rfloor>" "2::real"] by linarith
  then have "place fmt ?x \<le> e" using assms(1) by (simp add: place_def)
  then have "?x = of_int (int m * 2 ^ nat (e - place fmt ?x)) * 2 powi place fmt ?x"
    by (simp add: power_int_diff flip: powi_of_nat) (simp add: powi_of_nat power_int_diff)
  then have "?x / 2 powi place fmt ?x = of_int (int m * 2 ^ nat (e - place fmt ?x))"
    by (metis nonzero_mult_div_cancel_right power_int_not_zero zero_neq_numeral)
  then have "rne (?x / 2 powi place fmt ?x) = int m * 2 ^ nat (e - place fmt ?x)"
    by (metis rne_of_int)
  then show ?thesis
    using False \<open>?x = of_int _ * _\<close> unfolding rnd_def by simp
qed simp

lemma rnd_pos_eq: "0 < x \<Longrightarrow> rnd fmt x = of_int (rne (x / 2 powi place fmt x)) * 2 powi place fmt x"
  by (simp add: rnd_def)

lemma rnd_le_place:
  assumes "0 < x"
  shows "rnd fmt x \<le> 2 powi (place fmt x + int (precision fmt))"
proof -
  have "x / 2 powi place fmt x \<le> of_int (2 ^ precision fmt)"
    using place_bounds(2) [OF assms, of fmt] by (simp add: power_int_add field_simps)
  then have "rne (x / 2 powi place fmt x) \<le> 2 ^ precision fmt" by (metis rne_mono rne_of_int)
  then have "real_of_int (rne (x / 2 powi place fmt x)) \<le> 2 ^ precision fmt"
    by (metis of_int_le_iff of_int_numeral of_int_power)
  then show ?thesis using assms by (simp add: rnd_pos_eq power_int_add)
qed

lemma rnd_ge_place:
  assumes "0 < x" and "min_exp fmt < place fmt x" and "0 < precision fmt"
  shows "2 powi (place fmt x + int (precision fmt) - 1) \<le> rnd fmt x"
proof -
  have p: "int (precision fmt) - 1 = int (precision fmt - 1)" using assms(3) by simp
  have "2 powi (place fmt x + int (precision fmt) - 1) \<le> x" using place_bounds(3) [OF assms(1), of fmt] assms(2) by simp
  then have "2 powi place fmt x * 2 ^ (precision fmt - 1) \<le> x"
    by (simp add: add_diff_eq [symmetric] p power_int_add)
  then have "of_int (2 ^ (precision fmt - 1)) \<le> x / 2 powi place fmt x" by (simp add: field_simps)
  then have "2 ^ (precision fmt - 1) \<le> rne (x / 2 powi place fmt x)" by (metis rne_mono rne_of_int)
  then have "2 ^ (precision fmt - 1) \<le> real_of_int (rne (x / 2 powi place fmt x))"
    by (metis of_int_le_iff of_int_numeral of_int_power)
  then show ?thesis using assms(1)
    by (simp add: rnd_pos_eq add_diff_eq [symmetric] p power_int_add)
qed

lemma rnd_nonneg: "0 \<le> x \<Longrightarrow> 0 \<le> rnd fmt x"
proof -
  assume "0 \<le> x"
  then have "0 \<le> rne (x / 2 powi place fmt x)" using rne_mono [of "of_int 0" "x / 2 powi place fmt x"] rne_of_int [of 0] by simp
  then show ?thesis by (simp add: rnd_def)
qed

lemma rnd_mono:
  assumes "0 \<le> x" and "x \<le> y" and p: "0 < precision fmt"
  shows "rnd fmt x \<le> rnd fmt y"
proof (cases "x = 0")
  case True
  then show ?thesis using assms rnd_nonneg [of y fmt] by simp
next
  case False
  with assms have x: "0 < x" and y: "0 < y" by auto
  from place_mono [OF x assms(2)] consider "place fmt x = place fmt y" | "place fmt x < place fmt y"
    by (meson less_le)
  then show ?thesis
  proof cases
    case 1
    have "x / 2 powi place fmt y \<le> y / 2 powi place fmt y" using assms(2) by (simp add: divide_right_mono)
    then have "rne (x / 2 powi place fmt x) \<le> rne (y / 2 powi place fmt y)" by (simp add: 1 rne_mono)
    then show ?thesis using x y 1 by (simp add: rnd_pos_eq)
  next
    case 2
    have "(2::real) powi (place fmt x + int (precision fmt)) \<le> 2 powi (place fmt y + int (precision fmt) - 1)"
      using 2 by (intro power_int_increasing) auto
    moreover have "min_exp fmt < place fmt y" using 2 place_bounds(1) [OF x, of fmt] by linarith
    ultimately show ?thesis
      using rnd_le_place [OF x, of fmt] rnd_ge_place [OF y _ p] by fastforce
  qed
qed

text \<open>The relative error, for numbers that are not subnormal.\<close>

lemma rnd_error:
  assumes "2 powi (min_exp fmt + int (precision fmt) - 1) \<le> x"
  shows "\<bar>rnd fmt x - x\<bar> \<le> x * 2 powi (- int (precision fmt))"
proof -
  have x: "0 < x" using assms powi_pos by (meson less_le_trans)
  let ?u = "2 powi place fmt x :: real"
  have lo: "2 powi (place fmt x + int (precision fmt) - 1) \<le> x"
    using place_bounds(3) [OF x, of fmt] assms by auto
  have "\<bar>of_int (rne (x / ?u)) - x / ?u\<bar> * ?u \<le> 1 / 2 * ?u"
    by (intro mult_right_mono rne_error) simp
  also have "\<bar>of_int (rne (x / ?u)) - x / ?u\<bar> * ?u = \<bar>rnd fmt x - x\<bar>"
    using x by (simp add: rnd_pos_eq abs_mult [symmetric] field_simps flip: abs_mult_pos)
  also have "1 / 2 * ?u = 2 powi (place fmt x + int (precision fmt) - 1) * 2 powi (- int (precision fmt))"
    by (simp add: power_int_diff power_int_add power_int_minus)
  also have "\<dots> \<le> x * 2 powi (- int (precision fmt))"
    using lo by (intro mult_right_mono) auto
  finally show ?thesis .
qed

subsection \<open>Nonnegative numbers\<close>

text \<open>\<open>x\<close> is a finite number that is not negative, and \<open>v\<close> is its value.\<close>

definition holds_fp :: "ieee \<Rightarrow> real \<Rightarrow> bool" where
  "holds_fp x v \<longleftrightarrow> (\<exists>m e. x = Finite False m e \<and> v = real m * 2 powi e)"

definition format_ok :: "float_format \<Rightarrow> bool" where
  "format_ok fmt \<longleftrightarrow> 0 < precision fmt \<and> min_exp fmt \<le> max_exp fmt"

lemma format_ok [simp]: "format_ok float32" "format_ok double64"
  by (simp_all add: format_ok_def float32_def double64_def)

lemma holds_nonneg: "holds_fp x v \<Longrightarrow> 0 \<le> v"
  by (auto simp: holds_fp_def)

lemma round_frac_holds:
  assumes "format_ok fmt" and d: "0 < d"
    and le: "real n / real d \<le> 2 powi (max_exp fmt + int (precision fmt) - 1)"
  shows "holds_fp (round_frac fmt False n d) (rnd fmt (real n / real d))"
proof (cases "n = 0")
  case True
  then show ?thesis by (simp add: round_frac_def holds_fp_def Let_def split: prod.split)
next
  case False
  let ?x = "real n / real d" and ?e = "unit_exp fmt n d" and ?p = "precision fmt"
  have x: "0 < ?x" using False d by simp
  have p: "0 < ?p" "min_exp fmt \<le> max_exp fmt" using assms(1) by (auto simp: format_ok_def)
  have e: "?e = place fmt ?x" using unit_exp_place False d by simp
  obtain a b where ab: "units ?e n d = (a, b)" by fastforce
  have b: "0 < b" and xe: "?x / 2 powi ?e = real a / real b"
    using units_value [OF ab d] by simp_all
  have v: "rnd fmt ?x = real (round_even a b) * 2 powi ?e"
    using rnd_pos_eq [OF x, of fmt] round_even_rne [OF b, of a] xe e by (metis of_int_of_nat_eq)
  have "rnd fmt ?x \<le> rnd fmt (real (2 ^ (?p - 1)) * 2 powi max_exp fmt)"
    using le p x by (intro rnd_mono) (auto simp: power_int_add power_int_diff field_simps power_eq_if [of 2 ?p])
  also have "\<dots> = real (2 ^ (?p - 1)) * 2 powi max_exp fmt" using p by (intro rnd_exact) auto
  finally have top: "rnd fmt ?x \<le> 2 ^ (?p - 1) * 2 powi max_exp fmt" by simp
  have inf: "\<not> max_exp fmt < (if round_even a b = 2 ^ ?p then ?e + 1 else ?e)"
  proof (cases "round_even a b = 2 ^ ?p")
    case True
    then have "2 powi (?e + 1) \<le> (2::real) powi max_exp fmt"
      using top p(1) unfolding v by (cases ?p) (simp_all add: power_int_add)
    with True show ?thesis by (simp add: powi_le_iff)
  next
    case False
    have m: "2 ^ (?p - 1) * 2 powi max_exp fmt = (2::real) powi (max_exp fmt + int ?p - 1)"
      using p(1) by (cases ?p) (simp_all add: power_int_add)
    have "?e \<le> max_exp fmt" if "min_exp fmt < ?e"
    proof -
      have "2 powi (?e + int ?p - 1) \<le> rnd fmt ?x" unfolding e using that p(1) by (intro rnd_ge_place x) (simp_all add: e)
      also note top
      finally show ?thesis unfolding m by (simp add: powi_le_iff)
    qed
    with False p show ?thesis by force
  qed
  have "rnd fmt ?x = real (2 ^ (?p - 1)) * 2 powi (?e + 1)" if "round_even a b = 2 ^ ?p"
    using that p(1) unfolding v by (cases ?p) (simp_all add: power_int_add)
  with False inf ab v show ?thesis
    unfolding round_frac_def Let_def holds_fp_def by (auto split: if_splits)
qed

definition in_range :: "float_format \<Rightarrow> real \<Rightarrow> bool" where
  "in_range fmt v \<longleftrightarrow> v \<le> 2 powi (max_exp fmt + int (precision fmt) - 1)"

lemma in_range_small: "v \<le> 2 ^ 40 \<Longrightarrow> in_range float32 v \<and> in_range double64 v"
proof -
  assume v: "v \<le> 2 ^ 40"
  have "(2::real) ^ 40 \<le> 2 powi 127" "(2::real) ^ 40 \<le> 2 powi 1023"
    unfolding powi_of_nat powi_le_iff by simp_all
  with v show ?thesis by (simp add: in_range_def float32_def double64_def)
qed

lemma of_int_holds:
  assumes "format_ok fmt" and "0 \<le> k" and "in_range fmt (of_int k)"
  shows "holds_fp (of_int_fp fmt k) (rnd fmt (of_int k))"
  using round_frac_holds [OF assms(1), of 1 "nat k"] assms by (simp add: of_int_fp_def in_range_def)

lemma units_holds:
  assumes "units e n 1 = (a, b)"
  shows "real a / real b = real n * 2 powi (- e)" and "0 < b"
  using units_value [OF assms] by (simp_all add: power_int_minus field_simps)

lemma mul_holds:
  assumes "format_ok fmt" and "holds_fp x u" and "holds_fp y v" and "in_range fmt (u * v)"
  shows "holds_fp (mul_fp fmt x y) (rnd fmt (u * v))"
proof -
  obtain m e n f where xy: "x = Finite False m e" "u = real m * 2 powi e" "y = Finite False n f" "v = real n * 2 powi f"
    using assms(2,3) by (auto simp: holds_fp_def)
  obtain a b where ab: "units (- (e + f)) (m * n) 1 = (a, b)" by fastforce
  have "real a / real b = u * v" using units_holds(1) [OF ab] xy by (simp add: power_int_add)
  then show ?thesis using round_frac_holds [OF assms(1) units_holds(2) [OF ab], of a] assms(4) ab xy
    by (simp add: in_range_def Let_def)
qed

lemma div_holds:
  assumes "format_ok fmt" and "holds_fp x u" and "holds_fp y v" and "v \<noteq> 0" and "in_range fmt (u / v)"
  shows "holds_fp (div_fp fmt x y) (rnd fmt (u / v))"
proof -
  obtain m e n f where xy: "x = Finite False m e" "u = real m * 2 powi e" "y = Finite False n f" "v = real n * 2 powi f"
    using assms(2,3) by (auto simp: holds_fp_def)
  have n: "0 < n" using assms(4) xy by (cases n) auto
  obtain a b where ab: "units (f - e) m n = (a, b)" by fastforce
  have b: "0 < b" and "real m / real n = real a / real b * 2 powi (f - e)" using units_value [OF ab n] by auto
  then have "real a / real b = u / v" using n xy by (simp add: power_int_diff field_simps)
  then show ?thesis using round_frac_holds [OF assms(1) b, of a] assms(5) ab xy n
    by (simp add: in_range_def Let_def)
qed

lemma convert_holds:
  assumes "format_ok fmt" and "holds_fp x u" and "in_range fmt u"
  shows "holds_fp (convert_fp fmt x) (rnd fmt u)"
proof -
  obtain m e where x: "x = Finite False m e" "u = real m * 2 powi e" using assms(2) by (auto simp: holds_fp_def)
  obtain a b where ab: "units (- e) m 1 = (a, b)" by fastforce
  have "real a / real b = u" using units_holds(1) [OF ab] x by simp
  then show ?thesis using round_frac_holds [OF assms(1) units_holds(2) [OF ab], of a] assms(3) ab x
    by (simp add: in_range_def Let_def)
qed

lemma to_int_holds:
  assumes "holds_fp x v" and "v < 2 ^ 31"
  shows "to_int_fp x = Done \<lfloor>v\<rfloor>"
proof -
  obtain m e where x: "x = Finite False m e" "v = real m * 2 powi e" using assms(1) by (auto simp: holds_fp_def)
  obtain a b where ab: "units (- e) m 1 = (a, b)" by fastforce
  have "real a / real b = v" using units_holds(1) [OF ab] x by simp
  then have fl: "int (a div b) = \<lfloor>v\<rfloor>" by (metis floor_divide_of_nat_eq)
  have "0 \<le> \<lfloor>v\<rfloor>" "\<lfloor>v\<rfloor> < 2 ^ 31" using holds_nonneg [OF assms(1)] assms(2) by (auto simp: floor_less_iff)
  then have "int (a div b) < int (2 ^ 31)" unfolding fl by simp
  then have "a div b < 2 ^ 31" by (simp only: of_nat_less_iff)
  then show ?thesis using ab x fl by (simp add: Let_def)
qed

text \<open>Integers that fit the significand are kept.\<close>

lemma rnd_nat:
  assumes "min_exp fmt \<le> 0" and "m < 2 ^ precision fmt"
  shows "rnd fmt (real m) = real m"
  using rnd_exact [OF assms] by simp

text \<open>Evaluation on numerals.\<close>

lemmas fp_eval = round_frac_def unit_exp_def units_def round_even_def bit_len.simps of_int_fp_def Let_def
  float32_def double64_def

end
