(* ===== verification/RealNumbers.thy ===== *)
theory RealNumbers
  imports IeeeFloat IniReader
begin

text \<open>
  \<open>INIReader::GetReal\<close>: \<open>strtod\<close> in the C locale (optional white space and sign, \<open>inf\<close>, \<open>nan\<close>, hexadecimal and
  decimal numbers with fraction and exponent), correctly rounded as the C library of x86-64 Linux
  does it. A decimal number in an INI file is read as the \<open>double\<close> nearest to it, and a register
  value saved by \<open>writeINI\<close> as itself.
\<close>

subsection \<open>\<open>strtod\<close>\<close>

definition prefix_ci :: "string \<Rightarrow> string \<Rightarrow> bool" where
  "prefix_ci p s \<longleftrightarrow> map tolower (take (length p) s) = p"

text \<open>Digits, and after a point more digits; what follows.\<close>

definition number_parts :: "nat \<Rightarrow> string \<Rightarrow> string \<times> string \<times> string" where
  "number_parts base s =
     (let ip = takeWhile (is_digit_of base) s; rest = dropWhile (is_digit_of base) s
      in if rest \<noteq> [] \<and> hd rest = CHR ''.''
         then (ip, takeWhile (is_digit_of base) (tl rest), dropWhile (is_digit_of base) (tl rest))
         else (ip, [], rest))"

text \<open>The exponent behind its mark; 0 if there is none or it has no digits.\<close>

definition exponent_of :: "char \<Rightarrow> string \<Rightarrow> int" where
  "exponent_of mark s =
     (case s of [] \<Rightarrow> 0 | c # cs \<Rightarrow>
        if tolower c = mark
        then let (sg, ds) = sign_of cs in sg * int (digits_value 10 (takeWhile (is_digit_of 10) ds))
        else 0)"

text \<open>The number nearest to \<open>m * base ^ e\<close>.\<close>

definition scaled :: "bool \<Rightarrow> nat \<Rightarrow> nat \<Rightarrow> int \<Rightarrow> ieee" where
  "scaled s m base e =
     (if 0 \<le> e then round_frac double64 s (m * base ^ nat e) 1 else round_frac double64 s m (base ^ nat (- e)))"

text \<open>A hexadecimal number has a digit after the prefix; otherwise \<open>0x\<close> is a zero and an \<open>x\<close>.\<close>

definition hex_float :: "string \<Rightarrow> bool" where
  "hex_float s \<longleftrightarrow>
     prefix_ci ''0x'' s \<and> (let (ip, fp, _) = number_parts 16 (drop 2 s) in ip \<noteq> [] \<or> fp \<noteq> [])"

text \<open>None: nothing is converted, \<open>end\<close> is the beginning of the string.\<close>

definition strtod :: "string \<Rightarrow> ieee option" where
  "strtod s =
     (let (sg, s1) = sign_of (dropWhile isspace s); neg = sg < 0
      in if prefix_ci ''inf'' s1 then Some (Infinite neg)
         else if prefix_ci ''nan'' s1 then Some NaN
         else if hex_float s1
         then let (ip, fp, rest) = number_parts 16 (drop 2 s1)
              in Some (scaled neg (digits_value 16 (ip @ fp)) 2 (exponent_of CHR ''p'' rest - 4 * int (length fp)))
         else let (ip, fp, rest) = number_parts 10 s1
              in if ip = [] \<and> fp = [] then None
                 else Some (scaled neg (digits_value 10 (ip @ fp)) 10 (exponent_of CHR ''e'' rest - int (length fp))))"

definition GetReal :: "INIReader \<Rightarrow> string \<Rightarrow> string \<Rightarrow> ieee \<Rightarrow> ieee" where
  "GetReal r sec name default_value =
     (case strtod (c_str (Get r sec name [])) of Some n \<Rightarrow> n | None \<Rightarrow> default_value)"

subsection \<open>Decimal numbers\<close>

record decimal =
  negative :: bool
  int_digits :: string
  frac_digits :: string
  exponent :: int

definition decimal_ok :: "decimal \<Rightarrow> bool" where
  "decimal_ok d \<longleftrightarrow> int_digits d \<noteq> [] \<and> (\<forall>c \<in> set (int_digits d @ frac_digits d). is_digit_of 10 c)"

definition exponent_text :: "int \<Rightarrow> string" where
  "exponent_text e = (if e = 0 then [] else CHR ''e'' # dec_int e)"

definition decimal_text :: "decimal \<Rightarrow> string" where
  "decimal_text d =
     (if negative d then ''-'' else []) @ int_digits d @
     (if frac_digits d = [] then [] else CHR ''.'' # frac_digits d) @ exponent_text (exponent d)"

text \<open>Its absolute value.\<close>

definition decimal_value :: "decimal \<Rightarrow> real" where
  "decimal_value d =
     real (digits_value 10 (int_digits d @ frac_digits d)) * 10 powi (exponent d - int (length (frac_digits d)))"

lemma dec_char:
  assumes "is_digit_of 10 c"
  shows "c \<noteq> CHR ''-''" "c \<noteq> CHR ''+''" "c \<noteq> CHR ''.''" "c \<noteq> nul" "\<not> isspace c" "tolower c = c"
    "c \<noteq> CHR ''i''" "c \<noteq> CHR ''n''" "c \<noteq> CHR ''x''"
  using assms by (auto simp: is_digit_of_def digit_value_def isspace_def tolower_def Let_def split: if_splits)

lemma sign_of_unsigned: "ds \<noteq> [] \<Longrightarrow> is_digit_of 10 (hd ds) \<Longrightarrow> sign_of ds = (1, ds)"
  by (cases ds) (auto simp: sign_of_def dest: dec_char)

lemma exponent_of_text: "exponent_of CHR ''e'' (exponent_text e) = e"
proof -
  have "sign_of (dec_digits n) = (1, dec_digits n)" for n
    by (rule sign_of_unsigned) (auto intro: dec_digits_all [of _ n] hd_in_set)
  moreover have "sign_of (CHR ''-'' # s) = (-1, s)" for s by (simp add: sign_of_def)
  moreover have "tolower CHR ''e'' = CHR ''e''" by (simp add: tolower_def)
  ultimately show ?thesis
    by (simp add: exponent_of_def exponent_text_def dec_int_def digits_value_dec_digits)
qed

lemma number_parts_text:
  assumes "\<forall>c \<in> set (ip @ fp). is_digit_of b c" and "\<not> is_digit_of b CHR ''.''"
    and "rest = [] \<or> \<not> is_digit_of b (hd rest) \<and> hd rest \<noteq> CHR ''.''"
  shows "number_parts b (ip @ (if fp = [] then [] else CHR ''.'' # fp) @ rest) = (ip, fp, rest)"
proof -
  have r: "takeWhile (is_digit_of b) rest = []" "dropWhile (is_digit_of b) rest = rest"
    using assms(3) by (cases rest; auto)+
  then show ?thesis
    using assms by (auto simp: number_parts_def Let_def)
qed

lemma round_frac_sign: "round_frac fmt False n d = Finite False m e \<Longrightarrow> round_frac fmt s n d = Finite s m e"
  by (auto simp: round_frac_def Let_def split: prod.splits if_splits)

lemma scaled_holds:
  assumes "0 < base" and "x = real m * real base powi e" and "in_range double64 x"
  shows "\<exists>k f. scaled s m base e = Finite s k f \<and> real k * 2 powi f = rnd double64 x"
proof -
  define n d where "n = (if 0 \<le> e then m * base ^ nat e else m)" and "d = (if 0 \<le> e then 1 else base ^ nat (- e))"
  have d: "0 < d" using assms(1) by (simp add: d_def)
  have x: "real n / real d = x"
    using assms(1,2) by (simp add: n_def d_def power_int_def field_simps)
  have "holds_fp (round_frac double64 False n d) (rnd double64 (real n / real d))"
    using round_frac_holds [OF _ d, of double64 n] assms(3) by (simp add: x in_range_def)
  then obtain k f where "round_frac double64 False n d = Finite False k f" "real k * 2 powi f = rnd double64 x"
    unfolding x holds_fp_def by metis
  moreover have "scaled s m base e = round_frac double64 s n d" by (simp add: scaled_def n_def d_def)
  ultimately show ?thesis using round_frac_sign by metis
qed

lemma strtod_decimal:
  assumes "decimal_ok d"
  shows "strtod (decimal_text d) = Some (scaled (negative d) (digits_value 10 (int_digits d @ frac_digits d)) 10
    (exponent d - int (length (frac_digits d))))"
proof -
  let ?s = "int_digits d @ (if frac_digits d = [] then [] else CHR ''.'' # frac_digits d) @ exponent_text (exponent d)"
  obtain c cs where c: "int_digits d = c # cs" "is_digit_of 10 c"
    using assms by (cases "int_digits d") (auto simp: decimal_ok_def)
  have sign: "sign_of (dropWhile isspace (decimal_text d)) = (if negative d then -1 else 1, ?s)"
    using c dec_char [OF c(2)] by (auto simp: decimal_text_def sign_of_def isspace_def Let_def)
  have parts: "number_parts 10 ?s = (int_digits d, frac_digits d, exponent_text (exponent d))"
    using assms by (intro number_parts_text)
      (auto simp: decimal_ok_def exponent_text_def is_digit_of_def digit_value_def)
  have names: "\<not> prefix_ci ''inf'' ?s" "\<not> prefix_ci ''nan'' ?s"
    using c dec_char [OF c(2)] by (auto simp: prefix_ci_def)
  have "\<not> prefix_ci ''0x'' ?s"
  proof -
    have "tolower c' \<noteq> CHR ''x''" if "is_digit_of 10 c'" for c' using dec_char [OF that] by simp
    moreover have "tolower CHR ''.'' \<noteq> CHR ''x''" "tolower CHR ''e'' \<noteq> CHR ''x''" by (simp_all add: tolower_def)
    ultimately show ?thesis
      using c assms by (cases cs) (auto simp: prefix_ci_def decimal_ok_def exponent_text_def)
  qed
  then have "\<not> hex_float ?s" by (simp add: hex_float_def)
  then show ?thesis
    by (simp only: strtod_def sign Let_def prod.case names if_False parts exponent_of_text) (simp add: c)
qed

lemma decimal_text_chars: "decimal_ok d \<Longrightarrow> nul \<notin> set (decimal_text d)"
proof -
  have "nul \<notin> set (dec_digits n)" for n using dec_digits_all [of nul n] dec_char(4) [of nul] by auto
  then show "decimal_ok d \<Longrightarrow> ?thesis"
    using dec_char(4) by (auto simp: decimal_ok_def decimal_text_def exponent_text_def dec_int_def split: if_splits)
qed

text \<open>
  C15. A decimal number in an INI file, with or without sign, fraction and exponent, is read as the
  \<open>double\<close> its value rounds to; above the subnormal numbers the relative error is at most
  \<open>2 ^ -53\<close>, and an integer below \<open>2 ^ 53\<close> is read exactly.
\<close>

theorem GetReal_reads_decimal:
  assumes "fs filename = Some (print_ini is)" and "\<forall>i \<in> set is. clean_item i"
    and "joined (MakeKey sec name) (ini_calls [] is) = Some (decimal_text d)" and "decimal_ok d"
    and "decimal_value d \<le> 2 powi 1023"
  shows "\<exists>m e. GetReal (INIReader_new fs filename) sec name dflt = Finite (negative d) m e \<and>
    real m * 2 powi e = rnd double64 (decimal_value d) \<and>
    (2 powi (-1022) \<le> decimal_value d \<longrightarrow> \<bar>real m * 2 powi e - decimal_value d\<bar> \<le> decimal_value d / 2 ^ 53) \<and>
    (decimal_value d = of_int k \<and> k < 2 ^ 53 \<longrightarrow> real m * 2 powi e = of_int k)"
proof -
  have "INIReader_new fs filename = run_calls ValueHandler (ini_calls [] is) empty_reader"
    using assms(1,2) by (intro INIReader_new_printed) auto
  then have "Get (INIReader_new fs filename) sec name [] = decimal_text d"
    using assms(3) by (simp add: Get_def run_calls_joined)
  then have "GetReal (INIReader_new fs filename) sec name dflt =
      scaled (negative d) (digits_value 10 (int_digits d @ frac_digits d)) 10 (exponent d - int (length (frac_digits d)))"
    using assms(4) by (simp add: GetReal_def strtod_decimal decimal_text_chars)
  moreover have "max_exp double64 + int (precision double64) - 1 = 1023" by (simp add: double64_def)
  then have "in_range double64 (decimal_value d)" using assms(5) by (simp only: in_range_def)
  then obtain m e where "scaled (negative d) (digits_value 10 (int_digits d @ frac_digits d)) 10
      (exponent d - int (length (frac_digits d))) = Finite (negative d) m e" "real m * 2 powi e = rnd double64 (decimal_value d)"
    using scaled_holds [of 10 "decimal_value d"] unfolding decimal_value_def by fastforce
  ultimately obtain m e where r: "GetReal (INIReader_new fs filename) sec name dflt = Finite (negative d) m e"
      "real m * 2 powi e = rnd double64 (decimal_value d)" by metis
  have "\<bar>rnd double64 x - x\<bar> \<le> x / 2 ^ 53" if "2 powi (-1022) \<le> x" for x :: real
    using rnd_error [of double64 x] that powi_neg [of 53] by (simp add: double64_def)
  moreover have "rnd double64 (of_int k) = of_int k" if "0 \<le> real_of_int k" "k < 2 ^ 53"
    using rnd_nat [of double64 "nat k"] that by (simp add: double64_def nat_less_iff)
  moreover have "0 \<le> decimal_value d" by (simp add: decimal_value_def)
  ultimately show ?thesis using r by (intro exI [of _ m] exI [of _ e]) auto
qed

theorem GetReal_reads_decimal_witness:
  "\<exists>m e. GetReal (INIReader_new [''a.ini'' \<mapsto> print_ini [Section ''S'', Setting ''Gain'' ''-2.5e2'']] ''a.ini'') ''s'' ''gain'' NaN =
    Finite True m e \<and> real m * 2 powi e = 250"
proof -
  let ?d = "\<lparr>negative = True, int_digits = ''2'', frac_digits = ''5'', exponent = 2\<rparr>"
  have v: "decimal_value ?d = 250" by (simp add: decimal_value_def digits_value_def digit_value_def)
  have "(2::real) ^ 8 \<le> 2 powi 1023" unfolding powi_of_nat powi_le_iff by simp
  then have "(250::real) \<le> 2 powi 1023" by simp
  moreover have "joined (MakeKey ''s'' ''gain'') (ini_calls [] [Section ''S'', Setting ''Gain'' ''-2.5e2'']) = Some (decimal_text ?d)"
    by code_simp
  ultimately show ?thesis
    using GetReal_reads_decimal [of "[''a.ini'' \<mapsto> print_ini [Section ''S'', Setting ''Gain'' ''-2.5e2'']]" "''a.ini''"
        "[Section ''S'', Setting ''Gain'' ''-2.5e2'']" "''s''" "''gain''" ?d NaN 250]
    by (auto simp: v plain_def isspace_def MAX_SECTION_def INI_MAX_LINE_def decimal_ok_def is_digit_of_def digit_value_def Let_def
        simp del: ini_calls.simps)
qed

text \<open>
  A value that \<open>writeINI\<close> wrote is the same number for \<open>GetReal\<close> and for \<open>GetInteger\<close>: a hexadecimal
  number without point or exponent.
\<close>

lemma hex_float_hex: "hex_float (''0x'' @ hex_digits n)" "number_parts 16 (hex_digits n) = (hex_digits n, [], [])"
proof -
  have "\<forall>c \<in> set (hex_digits n). is_digit_of 16 c" by (simp add: hex_digits_all)
  then show p: "number_parts 16 (hex_digits n) = (hex_digits n, [], [])"
    using number_parts_text [of "hex_digits n" "[]" 16 "[]"] by (simp add: is_digit_of_def digit_value_def)
  show "hex_float (''0x'' @ hex_digits n)"
    by (simp add: hex_float_def p prefix_ci_def) (simp add: tolower_def)
qed

theorem GetReal_agrees_GetInteger:
  assumes "Get r sec name [] = showbase_hex n" and "n < 2 ^ 53"
  shows "GetReal r sec name dflt = of_int_fp double64 (GetInteger r sec name k)"
    and "fp_value (GetReal r sec name dflt) = of_int (GetInteger r sec name k)"
proof -
  have "nul \<notin> set (showbase_hex n)" using showbase_hex_plain by blast
  moreover have "strtol0 (showbase_hex n) = Some (int n)"
    using strtol0_showbase_hex [of n "[]"] assms(2) by simp
  ultimately have int: "GetInteger r sec name k = int n" using assms(1) by (simp add: GetInteger_def)
  have "strtod (showbase_hex n) = Some (of_int_fp double64 (int n))"
  proof (cases "n = 0")
    case True
    then show ?thesis
      by (simp add: strtod_def showbase_hex_def sign_of_def isspace_def prefix_ci_def hex_float_def number_parts_def
          is_digit_of_def digit_value_def digits_value_def exponent_of_def scaled_def of_int_fp_def tolower_def)
  next
    case False
    have "dropWhile isspace (''0x'' @ s) = ''0x'' @ s" "sign_of (''0x'' @ s) = (1, ''0x'' @ s)"
      "\<not> prefix_ci ''inf'' (''0x'' @ s)" "\<not> prefix_ci ''nan'' (''0x'' @ s)" for s
      by (simp_all add: isspace_def sign_of_def prefix_ci_def tolower_def)
    then show ?thesis
      using False hex_float_hex [of n]
      by (simp add: strtod_def showbase_hex_def digits_value_hex_digits exponent_of_def scaled_def of_int_fp_def)
  qed
  with \<open>nul \<notin> _\<close> show real: "GetReal r sec name dflt = of_int_fp double64 (GetInteger r sec name k)"
    using assms(1) unfolding int by (simp add: GetReal_def)
  have "real n \<le> 2 ^ 53" using assms(2) by (metis less_imp_le of_nat_le_iff of_nat_numeral of_nat_power)
  moreover have "(2::real) ^ 53 \<le> 2 powi (max_exp double64 + int (precision double64) - 1)"
    unfolding powi_of_nat powi_le_iff by (simp add: double64_def)
  ultimately have "holds_fp (of_int_fp double64 (int n)) (rnd double64 (of_int (int n)))"
    by (intro of_int_holds) (auto simp: in_range_def)
  moreover have "rnd double64 (real n) = real n" using rnd_nat [of double64 n] assms(2) by (simp add: double64_def)
  ultimately show "fp_value (GetReal r sec name dflt) = of_int (GetInteger r sec name k)"
    unfolding real int by (auto simp: holds_fp_def)
qed

end
