(* ===== verification/FreeStore.thy ===== *)
theory FreeStore
  imports Prelude
begin

text \<open>
  The free store of the objects that code allocates with \<open>new\<close> and gives back with \<open>delete\<close>: a map from
  pointers to objects. Using or deleting a pointer that is not live is undefined behaviour, so that
  an operation that returns has touched live objects only; deleting the null pointer does nothing.
\<close>

record 'a free_store =
  objects :: "nat \<Rightarrow> 'a option"
  next_ptr :: nat

definition new_ptr :: "'a \<Rightarrow> 'a free_store \<Rightarrow> nat \<times> 'a free_store" where
  "new_ptr ob h = (next_ptr h, h\<lparr>objects := (objects h)(next_ptr h \<mapsto> ob), next_ptr := Suc (next_ptr h)\<rparr>)"

definition object_at :: "nat \<Rightarrow> 'a free_store \<Rightarrow> 'a outcome" where
  "object_at p h =
     (case objects h p of None \<Rightarrow> UB ''use of a pointer that is not live'' | Some ob \<Rightarrow> Done ob)"

definition assign_object :: "nat \<Rightarrow> 'a \<Rightarrow> 'a free_store \<Rightarrow> 'a free_store" where
  "assign_object p ob h = h\<lparr>objects := (objects h)(p \<mapsto> ob)\<rparr>"

definition delete_ptr :: "nat \<Rightarrow> 'a free_store \<Rightarrow> 'a free_store outcome" where
  "delete_ptr p h =
     (if p = 0 then Done h
      else case objects h p of
             None \<Rightarrow> UB ''delete of a pointer that is not live''
           | Some _ \<Rightarrow> Done (h\<lparr>objects := (objects h)(p := None)\<rparr>))"

fun delete_all :: "nat list \<Rightarrow> 'a free_store \<Rightarrow> 'a free_store outcome" where
  "delete_all [] h = Done h"
| "delete_all (p # ps) h = obind (delete_ptr p h) (delete_all ps)"

text \<open>Pointers not yet given out hold nothing.\<close>

definition store_ok :: "'a free_store \<Rightarrow> bool" where
  "store_ok h \<longleftrightarrow> 0 < next_ptr h \<and> (\<forall>p. objects h p \<noteq> None \<longrightarrow> p < next_ptr h)"

text \<open>The objects of a store without those at \<open>ps\<close>.\<close>

definition without :: "nat set \<Rightarrow> (nat \<Rightarrow> 'a option) \<Rightarrow> nat \<Rightarrow> 'a option" where
  "without ps f p = (if p \<in> ps then None else f p)"

lemma store_okD: "store_ok h \<Longrightarrow> 0 < next_ptr h \<and> (\<forall>p. next_ptr h \<le> p \<longrightarrow> objects h p = None)"
  by (auto simp: store_ok_def)

lemma store_ok_new: "store_ok h \<Longrightarrow> store_ok (snd (new_ptr ob h))"
  by (auto simp: store_ok_def new_ptr_def less_Suc_eq)

lemma store_ok_assign: "store_ok h \<Longrightarrow> objects h p \<noteq> None \<Longrightarrow> store_ok (assign_object p ob h)"
  by (auto simp: store_ok_def assign_object_def)

text \<open>Distinct live pointers can all be deleted, and nothing else changes.\<close>

lemma delete_all_live:
  assumes "distinct ps" "0 \<notin> set ps" "\<forall>p \<in> set ps. objects h p \<noteq> None"
  shows "\<exists>h'. delete_all ps h = Done h' \<and> objects h' = without (set ps) (objects h)"
  using assms
proof (induction ps arbitrary: h)
  case Nil
  then show ?case by (auto simp: without_def)
next
  case (Cons p ps)
  then obtain ob where ob: "objects h p = Some ob" "p \<noteq> 0" by (cases "objects h p") auto
  let ?h = "h\<lparr>objects := (objects h)(p := None)\<rparr>"
  have live: "\<forall>q \<in> set ps. objects ?h q \<noteq> None" using Cons.prems(1,3) by auto
  have "\<exists>h'. delete_all ps ?h = Done h' \<and> objects h' = without (set ps) (objects ?h)"
    by (rule Cons.IH [OF _ _ live]) (use Cons.prems in auto)
  then obtain h' where "delete_all ps ?h = Done h'" "objects h' = without (set ps) (objects ?h)" by blast
  with ob show ?case by (auto simp: delete_ptr_def without_def fun_eq_iff)
qed

lemma delete_all_dead:
  assumes "p \<in> set ps" "p \<noteq> 0" "objects h p = None"
  shows "\<exists>e. delete_all ps h = UB e"
  using assms
proof (induction ps arbitrary: h)
  case (Cons q ps)
  show ?case
  proof (cases "p = q")
    case True
    then show ?thesis using Cons.prems by (simp add: delete_ptr_def)
  next
    case False
    then have "p \<in> set ps" using Cons.prems by simp
    then show ?thesis
      using Cons.IH [of h] Cons.IH [of "h\<lparr>objects := (objects h)(q := None)\<rparr>"] Cons.prems
      by (cases "objects h q") (auto simp: delete_ptr_def)
  qed
qed simp

end
