(* ===== verification/IniReaderHeap.thy ===== *)
theory IniReaderHeap
  imports IniReader FreeStore
begin

text \<open>
  The memory of \<open>INIReader\<close>: \<open>_fields\<close> maps sections to pointers to sets that \<open>ValueHandler\<close> allocates and
  the destructor deletes. The reader on the free store refines the reader of theory \<open>IniReader\<close>: for
  every file it holds the same data, touches only sets it allocated itself, and its destructor gives
  back every one of them once. The class has no copy constructor of its own; a copy would be
  destroyed with pointers that are already deleted, so readers have to be passed by reference, as
  \<open>ConfigRegisterBlock::readINI\<close> does.
\<close>

subsection \<open>The parser does not look into the state of its callback\<close>

text \<open>Two callbacks that return the same and keep a relation between their states.\<close>

locale handler_simulation =
  fixes h :: "'u handler" and k :: "'v handler" and R :: "'u \<Rightarrow> 'v \<Rightarrow> bool"
  assumes same_result: "R u v \<Longrightarrow> fst (h u sec name val) = fst (k v sec name val)"
    and keeps: "R u v \<Longrightarrow> R (snd (h u sec name val)) (snd (k v sec name val))"
begin

definition related :: "'u ini_state \<Rightarrow> 'v ini_state \<Rightarrow> bool" where
  "related st st' \<longleftrightarrow>
     cur_section st' = cur_section st \<and> prev_name st' = prev_name st \<and> lineno st' = lineno st \<and>
     error st' = error st \<and> R (user st) (user st')"

lemma related_note_error: "related st st' \<Longrightarrow> related (note_error st) (note_error st')"
  by (auto simp: related_def note_error_def)

lemma related_call: "related st st' \<Longrightarrow> related (call_handler h name val st) (call_handler k name val st')"
  using same_result [of "user st" "user st'"] keeps [of "user st" "user st'"]
  by (auto simp: related_def call_handler_def note_error_def split_beta Let_def)

lemma related_section: "related st st' \<Longrightarrow> related (section_line start st) (section_line start st')"
  by (auto simp: section_line_def Let_def related_note_error) (auto simp: related_def)

lemma related_pair: "related st st' \<Longrightarrow> related (pair_line h start st) (pair_line k start st')"
  unfolding pair_line_def Let_def
  by (auto intro!: related_note_error related_call) (auto simp: related_def)

lemma related_line: "related st st' \<Longrightarrow> related (ini_line h buf st) (ini_line k buf st')"
proof -
  assume "related st st'"
  then have r: "related (st\<lparr>lineno := lineno st + 1\<rparr>) (st'\<lparr>lineno := lineno st' + 1\<rparr>)"
    and eq: "lineno st' = lineno st" "prev_name st' = prev_name st" by (auto simp: related_def)
  have "related (ini_dispatch h n start (st\<lparr>lineno := lineno st + 1\<rparr>)) (ini_dispatch k n start (st'\<lparr>lineno := lineno st' + 1\<rparr>))" for n start
    using r eq unfolding ini_dispatch_def by (auto intro: related_call related_section related_pair)
  then show ?thesis unfolding ini_line_def Let_def by (simp add: eq)
qed

lemma related_lines: "related st st' \<Longrightarrow> related (fold (ini_line h) bufs st) (fold (ini_line k) bufs st')"
  by (induction bufs arbitrary: st st') (simp_all add: related_line)

lemma parse_related:
  assumes "R u v"
  shows "fst (ini_parse fs f h u) = fst (ini_parse fs f k v) \<and> R (snd (ini_parse fs f h u)) (snd (ini_parse fs f k v))"
proof (cases "fs f")
  case None
  then show ?thesis using assms by (simp add: ini_parse_def)
next
  case (Some cs)
  have "related (ini_init u) (ini_init v)" using assms by (simp add: related_def ini_init_def)
  from related_lines [OF this, of "file_lines cs"] show ?thesis
    using Some by (simp add: ini_parse_def ini_parse_file_def parse_lines_fold Let_def related_def)
qed

end

subsection \<open>The reader on the free store\<close>

type_synonym field_sets = "string list free_store"

text \<open>\<open>std::map\<close> as the list of its pairs in the order of the keys.\<close>

record heap_reader =
  hr_error :: int
  hr_values :: "string \<Rightarrow> string option"
  hr_sections :: "string list"
  hr_fields :: "(string \<times> nat) list"

definition fields_insert :: "string \<Rightarrow> nat \<Rightarrow> (string \<times> nat) list \<Rightarrow> (string \<times> nat) list" where
  "fields_insert k p m = (if k \<in> fst ` set m then m else insort_key fst (k, p) m)"

definition ValueHandler_heap ::
    "heap_reader \<times> field_sets \<Rightarrow> string \<Rightarrow> string \<Rightarrow> string \<Rightarrow> (heap_reader \<times> field_sets) outcome" where
  "ValueHandler_heap s sec name val =
     (let (reader, h) = s;
          key = MakeKey sec name;
          old = (case hr_values reader key of Some v \<Rightarrow> v | None \<Rightarrow> []);
          reader1 = reader\<lparr>hr_values := (hr_values reader)(key \<mapsto> append_value old val),
                           hr_sections := std_set_insert sec (hr_sections reader)\<rparr>;
          sectionKey = lower sec;
          (fieldsSet, reader2, h1) =
            (case map_of (hr_fields reader) sectionKey of
               None \<Rightarrow> let (p, h') = new_ptr [] h
                       in (p, reader1\<lparr>hr_fields := fields_insert sectionKey p (hr_fields reader)\<rparr>, h')
             | Some p \<Rightarrow> (p, reader1, h))
      in obind (object_at fieldsSet h1) (\<lambda>fs. Done (reader2, assign_object fieldsSet (std_set_insert name fs) h1)))"

definition value_handler :: "(heap_reader \<times> field_sets) outcome handler" where
  "value_handler u sec name val = (True, obind u (\<lambda>s. ValueHandler_heap s sec name val))"

definition empty_heap_reader :: heap_reader where
  "empty_heap_reader = \<lparr>hr_error = 0, hr_values = Map.empty, hr_sections = [], hr_fields = []\<rparr>"

definition INIReader_construct :: "files \<Rightarrow> string \<Rightarrow> field_sets \<Rightarrow> (heap_reader \<times> field_sets) outcome" where
  "INIReader_construct fs filename h =
     (let (e, u) = ini_parse fs filename value_handler (Done (empty_heap_reader, h))
      in obind u (\<lambda>(r, h1). Done (r\<lparr>hr_error := e\<rparr>, h1)))"

definition GetFields_heap :: "heap_reader \<Rightarrow> field_sets \<Rightarrow> string \<Rightarrow> string list outcome" where
  "GetFields_heap r h sec =
     (case map_of (hr_fields r) (lower sec) of None \<Rightarrow> Done [] | Some p \<Rightarrow> object_at p h)"

definition INIReader_destruct :: "heap_reader \<Rightarrow> field_sets \<Rightarrow> field_sets outcome" where
  "INIReader_destruct r h = delete_all (map snd (hr_fields r)) h"

subsection \<open>Ownership and abstraction\<close>

definition set_pointers :: "heap_reader \<Rightarrow> nat set" where
  "set_pointers r = snd ` set (hr_fields r)"

definition owns_sets :: "field_sets \<Rightarrow> heap_reader \<Rightarrow> field_sets \<Rightarrow> bool" where
  "owns_sets h0 r h \<longleftrightarrow>
     store_ok h \<and> distinct (map fst (hr_fields r)) \<and> distinct (map snd (hr_fields r)) \<and>
     (\<forall>p \<in> set_pointers r. p \<noteq> 0 \<and> objects h p \<noteq> None \<and> objects h0 p = None) \<and>
     (\<forall>p. p \<notin> set_pointers r \<longrightarrow> objects h p = objects h0 p)"

definition abs_reader :: "heap_reader \<Rightarrow> field_sets \<Rightarrow> INIReader" where
  "abs_reader r h =
     \<lparr>ini_error = hr_error r, ini_values = hr_values r, ini_sections = hr_sections r,
      ini_fields = (\<lambda>k. Option.bind (map_of (hr_fields r) k) (objects h))\<rparr>"

lemma map_of_insort:
  "k \<notin> fst ` set m \<Longrightarrow> map_of (insort_key fst (k, p) m) = (map_of m)(k \<mapsto> p)"
  by (induction m) (auto simp: fun_eq_iff)

lemma distinct_map_insort: "distinct (map f (insort_key g x xs)) \<longleftrightarrow> distinct (map f (x # xs))"
  by (induction xs) (auto simp: set_insort_key)

lemma reader_error [simp]:
  "abs_reader (r\<lparr>hr_error := e\<rparr>) h = (abs_reader r h)\<lparr>ini_error := e\<rparr>" "owns_sets h0 (r\<lparr>hr_error := e\<rparr>) h = owns_sets h0 r h"
  by (simp_all add: abs_reader_def owns_sets_def set_pointers_def)

lemma handler_step:
  assumes "owns_sets h0 r h"
  shows "\<exists>r' h'. ValueHandler_heap (r, h) sec name val = Done (r', h') \<and> owns_sets h0 r' h' \<and>
    abs_reader r' h' = snd (ValueHandler (abs_reader r h) sec name val)"
proof (cases "map_of (hr_fields r) (lower sec)")
  case None
  let ?p = "next_ptr h"
  have p: "objects h ?p = None" "0 < ?p" using assms store_okD [of h] by (auto simp: owns_sets_def)
  have new: "?p \<notin> set_pointers r" using assms p(1) by (auto simp: owns_sets_def)
  then have base: "objects h0 ?p = None" using assms p(1) by (simp add: owns_sets_def)
  have key: "lower sec \<notin> fst ` set (hr_fields r)" using None by (simp add: map_of_eq_None_iff)
  let ?m = "insort_key fst (lower sec, ?p) (hr_fields r)"
  let ?h = "assign_object ?p (std_set_insert name []) (snd (new_ptr [] h))"
  let ?old = "case hr_values r (MakeKey sec name) of Some v \<Rightarrow> v | None \<Rightarrow> []"
  let ?r = "r\<lparr>hr_values := (hr_values r)(MakeKey sec name \<mapsto> append_value ?old val),
    hr_sections := std_set_insert sec (hr_sections r), hr_fields := ?m\<rparr>"
  have run: "ValueHandler_heap (r, h) sec name val = Done (?r, ?h)"
    using None key by (simp add: ValueHandler_heap_def new_ptr_def object_at_def fields_insert_def Let_def)
  have sp: "set_pointers ?r = insert ?p (set_pointers r)" by (auto simp: set_pointers_def set_insort_key)
  have "store_ok ?h" using assms by (intro store_ok_assign store_ok_new) (auto simp: owns_sets_def new_ptr_def)
  moreover have "distinct (map fst ?m)" "distinct (map snd ?m)"
    using assms key new by (auto simp: distinct_map_insort owns_sets_def set_pointers_def)
  moreover have "objects ?h = (objects h)(?p \<mapsto> std_set_insert name [])"
    by (simp add: assign_object_def new_ptr_def)
  ultimately have own: "owns_sets h0 ?r ?h"
    using assms p base unfolding owns_sets_def sp by auto
  have fresh: "(k, ?p) \<notin> set (hr_fields r)" for k using new by (force simp: set_pointers_def)
  have "Option.bind (map_of ?m k) (objects ?h) =
      (if k = lower sec then Some (std_set_insert name []) else Option.bind (map_of (hr_fields r) k) (objects h))" for k
    using fresh by (auto simp: map_of_insort [OF key] assign_object_def new_ptr_def split: bind_split dest!: map_of_SomeD)
  then have "abs_reader ?r ?h = snd (ValueHandler (abs_reader r h) sec name val)"
    using None by (auto simp: abs_reader_def ValueHandler_def Let_def fun_eq_iff)
  with run own show ?thesis by blast
next
  case (Some p)
  then have p: "p \<in> set_pointers r" by (force simp: set_pointers_def dest: map_of_SomeD)
  then obtain fs where fs: "objects h p = Some fs" using assms by (auto simp: owns_sets_def)
  let ?h = "assign_object p (std_set_insert name fs) h"
  let ?old = "case hr_values r (MakeKey sec name) of Some v \<Rightarrow> v | None \<Rightarrow> []"
  let ?r = "r\<lparr>hr_values := (hr_values r)(MakeKey sec name \<mapsto> append_value ?old val),
    hr_sections := std_set_insert sec (hr_sections r)\<rparr>"
  have run: "ValueHandler_heap (r, h) sec name val = Done (?r, ?h)"
    using Some fs by (simp add: ValueHandler_heap_def object_at_def Let_def)
  have sp: "set_pointers ?r = set_pointers r" by (simp add: set_pointers_def)
  have "store_ok ?h" using assms fs by (intro store_ok_assign) (auto simp: owns_sets_def)
  then have own: "owns_sets h0 ?r ?h"
    using assms p unfolding owns_sets_def sp by (auto simp: assign_object_def)
  have other: "map_of (hr_fields r) k = Some p \<longleftrightarrow> k = lower sec" for k
  proof
    assume "map_of (hr_fields r) k = Some p"
    then have "(k, p) \<in> set (hr_fields r)" "(lower sec, p) \<in> set (hr_fields r)" using Some by (auto dest: map_of_SomeD)
    moreover have "inj_on snd (set (hr_fields r))" using assms by (simp add: owns_sets_def distinct_map)
    ultimately show "k = lower sec" using inj_onD [of snd "set (hr_fields r)" "(k, p)" "(lower sec, p)"] by simp
  qed (use Some in simp)
  have "Option.bind (map_of (hr_fields r) k) (objects ?h) =
      (if k = lower sec then Some (std_set_insert name fs) else Option.bind (map_of (hr_fields r) k) (objects h))" for k
    using other [of k] Some by (cases "map_of (hr_fields r) k") (auto simp: assign_object_def)
  then have "abs_reader ?r ?h = snd (ValueHandler (abs_reader r h) sec name val)"
    using Some fs by (auto simp: abs_reader_def ValueHandler_def Let_def fun_eq_iff)
  with run own show ?thesis by blast
qed

text \<open>The two callbacks are related by ownership and abstraction.\<close>

definition refines_reader :: "field_sets \<Rightarrow> (heap_reader \<times> field_sets) outcome \<Rightarrow> INIReader \<Rightarrow> bool" where
  "refines_reader h0 u a \<longleftrightarrow> (\<exists>r h. u = Done (r, h) \<and> owns_sets h0 r h \<and> abs_reader r h = a)"

interpretation memory: handler_simulation value_handler ValueHandler "refines_reader h0" for h0
proof
  fix u a sec name val
  assume "refines_reader h0 u a"
  then obtain r h where "u = Done (r, h)" "owns_sets h0 r h" "abs_reader r h = a" by (auto simp: refines_reader_def)
  then show "refines_reader h0 (snd (value_handler u sec name val)) (snd (ValueHandler a sec name val))"
    using handler_step [of h0 r h sec name val] by (auto simp: refines_reader_def value_handler_def)
qed (simp add: value_handler_def)

lemma construct_refines:
  assumes "store_ok h"
  shows "\<exists>r h1. INIReader_construct fs f h = Done (r, h1) \<and> owns_sets h r h1 \<and> abs_reader r h1 = INIReader_new fs f"
proof -
  have "refines_reader h (Done (empty_heap_reader, h)) empty_reader"
    using assms by (simp add: refines_reader_def owns_sets_def abs_reader_def empty_heap_reader_def empty_reader_def set_pointers_def)
  from memory.parse_related [OF this, of fs f] show ?thesis
    by (auto simp: INIReader_construct_def INIReader_new_def refines_reader_def split_beta Let_def)
qed

lemma destruct_owned:
  assumes "owns_sets h0 r h"
  shows "\<exists>h1. INIReader_destruct r h = Done h1 \<and> objects h1 = objects h0"
proof -
  have p: "set (map snd (hr_fields r)) = set_pointers r" by (simp add: set_pointers_def)
  obtain h1 where "delete_all (map snd (hr_fields r)) h = Done h1" "objects h1 = without (set_pointers r) (objects h)"
    using delete_all_live [of "map snd (hr_fields r)" h] assms unfolding p by (auto simp: owns_sets_def)
  moreover have "without (set_pointers r) (objects h) = objects h0"
    using assms by (auto simp: owns_sets_def without_def fun_eq_iff)
  ultimately show ?thesis by (simp add: INIReader_destruct_def)
qed

text \<open>
  C17. The life of a reader, for every file: construction touches no set but those it allocates, the
  reader answers like the one of theory \<open>IniReader\<close>, and the destructor deletes every set once, after
  which the free store holds what it held before.
\<close>

theorem reader_memory_safe:
  assumes "store_ok h"
  shows "\<exists>r h1 h2. INIReader_construct fs f h = Done (r, h1) \<and>
    hr_error r = ParseError (INIReader_new fs f) \<and> hr_values r = ini_values (INIReader_new fs f) \<and>
    hr_sections r = GetSections (INIReader_new fs f) \<and>
    (\<forall>sec. GetFields_heap r h1 sec = Done (GetFields (INIReader_new fs f) sec)) \<and>
    INIReader_destruct r h1 = Done h2 \<and> objects h2 = objects h"
proof -
  obtain r h1 where r: "INIReader_construct fs f h = Done (r, h1)" "owns_sets h r h1" "abs_reader r h1 = INIReader_new fs f"
    using construct_refines [OF assms] by blast
  obtain h2 where d: "INIReader_destruct r h1 = Done h2" "objects h2 = objects h" using destruct_owned [OF r(2)] by blast
  have "GetFields_heap r h1 sec = Done (GetFields (abs_reader r h1) sec)" for sec
  proof (cases "map_of (hr_fields r) (lower sec)")
    case (Some p)
    then have "p \<in> set_pointers r" by (force simp: set_pointers_def dest: map_of_SomeD)
    then show ?thesis using Some r(2) by (auto simp: GetFields_heap_def GetFields_def abs_reader_def object_at_def owns_sets_def)
  qed (simp add: GetFields_heap_def GetFields_def abs_reader_def)
  then show ?thesis
    using r d by (auto simp: ParseError_def GetSections_def abs_reader_def simp flip: r(3))
qed

theorem reader_memory_safe_witness:
  "\<exists>r h1 h2. INIReader_construct [''a.ini'' \<mapsto> print_ini [Section ''S'', Setting ''k'' ''1'']] ''a.ini''
      \<lparr>objects = [3 \<mapsto> [''x'']], next_ptr = 4\<rparr> = Done (r, h1) \<and>
    INIReader_destruct r h1 = Done h2 \<and> objects h2 = [3 \<mapsto> [''x'']]"
proof -
  have "store_ok \<lparr>objects = [3 \<mapsto> [''x'']], next_ptr = 4\<rparr>" by (auto simp: store_ok_def split: if_splits)
  from reader_memory_safe [OF this, of "[''a.ini'' \<mapsto> print_ini [Section ''S'', Setting ''k'' ''1'']]" "''a.ini''"]
  show ?thesis by (elim exE conjE) (intro exI conjI, assumption+, simp)
qed

text \<open>
  Destroying a copy as well: if the file has any field, the second destructor deletes pointers that
  are no longer live.
\<close>

theorem copy_deletes_twice:
  assumes "store_ok h" and "INIReader_construct fs f h = Done (r, h1)" and "hr_fields r \<noteq> []"
    and "INIReader_destruct r h1 = Done h2"
  shows "\<exists>e. INIReader_destruct r h2 = UB e"
proof -
  have own: "owns_sets h r h1" using construct_refines [OF assms(1), of fs f] assms(2) by auto
  obtain k p where p: "(k, p) \<in> set (hr_fields r)" using assms(3) by (cases "hr_fields r") auto
  then have "p \<noteq> 0" "objects h p = None" using own by (force simp: owns_sets_def set_pointers_def)+
  moreover have "objects h2 = objects h" using destruct_owned [OF own] assms(4) by auto
  moreover have "p \<in> set (map snd (hr_fields r))" using p by force
  ultimately show ?thesis unfolding INIReader_destruct_def by (intro delete_all_dead) auto
qed

end
