(* ===== verification/Udp.thy ===== *)
theory Udp
  imports CLib
begin

text \<open>
  The UDP wrapper classes \<open>udp_client\<close> and \<open>udp_server\<close>. What the operating system does is part of
  the state \<open>net\<close>: whether an address resolves, whether a socket can be created, bound or sent on,
  which events the next receive calls meet, and the clock readings that are still to come. The
  fields \<open>sockets\<close> and \<open>addrinfos\<close> count what the process holds, \<open>tx\<close> is the log of datagrams sent.

  The theory shows that the constructors leak nothing when they throw and that the destructors
  give everything back, what a vector of words looks like on the wire, and that \<open>timed_recv\<close> does
  not wait, because it also asks \<open>select\<close> whether the socket is writable.
\<close>

subsection \<open>The operating system\<close>

text \<open>
  One event per receive call: a datagram that is already queued, one that arrives after some
  milliseconds, nothing at all, or an error of \<open>recv\<close> or \<open>select\<close>.
\<close>

datatype rx_event = Queued "byte list" | Late nat "byte list" | Silent | RecvError | SelectError

record datagram =
  dg_addr :: string
  dg_port :: int
  dg_payload :: "byte list"

record net =
  gai_ok :: "string \<Rightarrow> string \<Rightarrow> bool"
  socket_ok :: "string \<Rightarrow> bool"
  bind_ok :: "string \<Rightarrow> int \<Rightarrow> bool"
  sendto_ok :: "string \<Rightarrow> int \<Rightarrow> nat \<Rightarrow> bool"
  writable :: bool
  next_fd :: int
  sockets :: "int list"
  addrinfos :: nat
  tx :: "datagram list"
  rx :: "rx_event list"
  clock :: "int list"
  waited_ms :: nat

text \<open>Effectful code: from a state to an outcome and the state in which it ended.\<close>

type_synonym 'a io = "net \<Rightarrow> 'a outcome \<times> net"

definition ret_io :: "'a \<Rightarrow> 'a io" where
  "ret_io a w = (Done a, w)"

definition bind_io :: "'a io \<Rightarrow> ('a \<Rightarrow> 'b io) \<Rightarrow> 'b io" where
  "bind_io m f w =
     (case m w of (Done a, w') \<Rightarrow> f a w' | (Throws e, w') \<Rightarrow> (Throws e, w')
        | (UB e, w') \<Rightarrow> (UB e, w') | (Blocks, w') \<Rightarrow> (Blocks, w'))"

text \<open>A C++ block with a local object: the destructor runs on return and when an exception passes.\<close>

definition with_object :: "'o io \<Rightarrow> ('o \<Rightarrow> unit io) \<Rightarrow> ('o \<Rightarrow> 'a io) \<Rightarrow> 'a io" where
  "with_object ctor dtor body w =
     (case ctor w of
        (Done ob, w1) \<Rightarrow>
          (case body ob w1 of
             (Done a, w2) \<Rightarrow> (Done a, snd (dtor ob w2))
           | (Throws e, w2) \<Rightarrow> (Throws e, snd (dtor ob w2))
           | (UB e, w2) \<Rightarrow> (UB e, w2)
           | (Blocks, w2) \<Rightarrow> (Blocks, w2))
      | (Throws e, w1) \<Rightarrow> (Throws e, w1)
      | (UB e, w1) \<Rightarrow> (UB e, w1)
      | (Blocks, w1) \<Rightarrow> (Blocks, w1))"

subsection \<open>Printing\<close>

definition upper_hex_digit :: "nat \<Rightarrow> char" where
  "upper_hex_digit d = (if d < 10 then char_of (48 + d) else char_of (55 + d))"

fun upper_hex_digits :: "nat \<Rightarrow> string" where
  "upper_hex_digits n = (if n < 16 then [upper_hex_digit n]
     else upper_hex_digits (n div 16) @ [upper_hex_digit (n mod 16)])"

declare upper_hex_digits.simps [simp del]

text \<open>
  \<open>printf("%02X", buffer[i])\<close>: the \<open>char\<close> is promoted to \<open>int\<close> and printed as \<open>unsigned int\<close>, at
  least two digits wide.
\<close>

definition printf_02X :: "byte \<Rightarrow> string" where
  "printf_02X c = (let ds = upper_hex_digits (unat (scast c :: u32))
     in replicate (2 - length ds) CHR ''0'' @ ds)"

definition printHex :: "nat \<Rightarrow> byte list \<Rightarrow> string" where
  "printHex nbytes buffer = concat (map printf_02X (take nbytes buffer))"

definition printHex_int :: "u32 \<Rightarrow> string" where
  "printHex_int buffer = printHex 4 (bytes_of_word buffer)"

subsection \<open>The client\<close>

record udp_client =
  c_socket :: int
  c_port :: int
  c_addr :: string

definition quoted_addr :: "string \<Rightarrow> string \<Rightarrow> string" where
  "quoted_addr addr decimal_port = [CHR 0x22] @ addr @ '':'' @ decimal_port @ [CHR 0x22]"

definition open_socket :: "net \<Rightarrow> int \<times> net" where
  "open_socket w = (next_fd w, w\<lparr>next_fd := next_fd w + 1, sockets := next_fd w # sockets w\<rparr>)"

definition udp_client_new :: "string \<Rightarrow> int \<Rightarrow> udp_client io" where
  "udp_client_new addr port w =
     (let decimal_port = dec_int port
      in if \<not> gai_ok w addr decimal_port
         then (Throws (''invalid address or port: '' @ quoted_addr addr decimal_port), w)
         else let w1 = w\<lparr>addrinfos := addrinfos w + 1\<rparr>
         in if \<not> socket_ok w1 addr
            then (Throws (''could not create socket for: '' @ quoted_addr addr decimal_port),
                  w1\<lparr>addrinfos := addrinfos w1 - 1\<rparr>)
            else let (fd, w2) = open_socket w1
                 in (Done \<lparr>c_socket = fd, c_port = port, c_addr = addr\<rparr>, w2))"

definition udp_client_delete :: "udp_client \<Rightarrow> unit io" where
  "udp_client_delete c w =
     (Done (), w\<lparr>addrinfos := addrinfos w - 1, sockets := remove1 (c_socket c) (sockets w)\<rparr>)"

definition client_get_socket :: "udp_client \<Rightarrow> int" where "client_get_socket c = c_socket c"
definition client_get_port :: "udp_client \<Rightarrow> int" where "client_get_port c = c_port c"
definition client_get_addr :: "udp_client \<Rightarrow> string" where "client_get_addr c = c_addr c"

definition client_send :: "udp_client \<Rightarrow> byte list \<Rightarrow> int io" where
  "client_send c msg w =
     (if sendto_ok w (c_addr c) (c_port c) (length msg)
      then (Done (int (length msg)),
            w\<lparr>tx := tx w @ [\<lparr>dg_addr = c_addr c, dg_port = c_port c, dg_payload = msg\<rparr>]\<rparr>)
      else (Done (-1), w))"

definition client_send_words :: "udp_client \<Rightarrow> u32 list \<Rightarrow> int io" where
  "client_send_words c data = client_send c (bytes_of_words data)"

subsection \<open>The server\<close>

record udp_server =
  s_socket :: int
  s_port :: int
  s_addr :: string

definition udp_server_new :: "string \<Rightarrow> int \<Rightarrow> udp_server io" where
  "udp_server_new addr port w =
     (let decimal_port = dec_int port
      in if \<not> gai_ok w addr decimal_port
         then (Throws (''invalid address or port for UDP socket: '' @ quoted_addr addr decimal_port), w)
         else let w1 = w\<lparr>addrinfos := addrinfos w + 1\<rparr>
         in if \<not> socket_ok w1 addr
            then (Throws (''could not create UDP socket for: '' @ quoted_addr addr decimal_port),
                  w1\<lparr>addrinfos := addrinfos w1 - 1\<rparr>)
            else let (fd, w2) = open_socket w1
                 in if \<not> bind_ok w2 addr port
                    then (Throws (''could not bind UDP socket with: '' @ quoted_addr addr decimal_port),
                          w2\<lparr>addrinfos := addrinfos w2 - 1, sockets := remove1 fd (sockets w2)\<rparr>)
                    else (Done \<lparr>s_socket = fd, s_port = port, s_addr = addr\<rparr>, w2))"

definition udp_server_delete :: "udp_server \<Rightarrow> unit io" where
  "udp_server_delete s w =
     (Done (), w\<lparr>addrinfos := addrinfos w - 1, sockets := remove1 (s_socket s) (sockets w)\<rparr>)"

definition server_get_socket :: "udp_server \<Rightarrow> int" where "server_get_socket s = s_socket s"
definition server_get_port :: "udp_server \<Rightarrow> int" where "server_get_port s = s_port s"
definition server_get_addr :: "udp_server \<Rightarrow> string" where "server_get_addr s = s_addr s"

text \<open>
  \<open>recv\<close> on a blocking socket: it waits until a datagram or an error comes, and forever if
  neither does. The result is the return value and the bytes stored in the buffer.
\<close>

fun recv_events :: "nat \<Rightarrow> rx_event list \<Rightarrow> (int \<times> byte list) outcome \<times> rx_event list" where
  "recv_events max_size [] = (Blocks, [])"
| "recv_events max_size (Queued d # es) = (Done (int (length (take max_size d)), take max_size d), es)"
| "recv_events max_size (Late t d # es) = (Done (int (length (take max_size d)), take max_size d), es)"
| "recv_events max_size (RecvError # es) = (Done (-1, []), es)"
| "recv_events max_size (Silent # es) = recv_events max_size es"
| "recv_events max_size (SelectError # es) = recv_events max_size es"

definition server_recv :: "udp_server \<Rightarrow> nat \<Rightarrow> (int \<times> byte list) io" where
  "server_recv s max_size w =
     (let (r, es) = recv_events max_size (rx w) in (r, w\<lparr>rx := es\<rparr>))"

text \<open>
  \<open>select(f_socket + 1, &s, &s, &s, &timeout)\<close>: the socket is watched for reading and for writing;
  the call returns as soon as it is ready for either. The result is the return value and the
  time spent waiting.
\<close>

fun select_rwx :: "bool \<Rightarrow> nat \<Rightarrow> rx_event \<Rightarrow> int \<times> nat" where
  "select_rwx can_write max_wait SelectError = (-1, 0)"
| "select_rwx can_write max_wait (Queued d) = (1, 0)"
| "select_rwx can_write max_wait RecvError = (1, 0)"
| "select_rwx can_write max_wait (Late t d) =
     (if can_write then (1, 0) else if t \<le> max_wait then (1, t) else (0, max_wait))"
| "select_rwx can_write max_wait Silent = (if can_write then (1, 0) else (0, max_wait))"

text \<open>\<open>recv(\<dots>, MSG_DONTWAIT)\<close> after \<open>select\<close> has waited for \<open>t0\<close> milliseconds.\<close>

fun recv_dontwait :: "nat \<Rightarrow> nat \<Rightarrow> rx_event \<Rightarrow> int \<times> byte list" where
  "recv_dontwait max_size t0 (Queued d) = (int (length (take max_size d)), take max_size d)"
| "recv_dontwait max_size t0 (Late t d) =
     (if t \<le> t0 then (int (length (take max_size d)), take max_size d) else (-1, []))"
| "recv_dontwait max_size t0 _ = (-1, [])"

text \<open>A datagram that came too late for this call is there for the next one.\<close>

definition left_over :: "nat \<Rightarrow> rx_event \<Rightarrow> rx_event list" where
  "left_over t0 ev = (case ev of Late t d \<Rightarrow>
     if t \<le> t0 then [] else if t0 = 0 then [Queued d] else [Late (t - t0) d] | _ \<Rightarrow> [])"

definition timed_recv :: "udp_server \<Rightarrow> nat \<Rightarrow> nat \<Rightarrow> (int \<times> byte list) io" where
  "timed_recv s max_size max_wait_ms w =
     (let ev = (case rx w of [] \<Rightarrow> Silent | e # _ \<Rightarrow> e);
          (retval, t) = select_rwx (writable w) max_wait_ms ev;
          w2 = w\<lparr>rx := left_over t ev @ tl (rx w), waited_ms := waited_ms w + t\<rparr>
      in if retval = -1 then (Done (-1, []), w2)
         else if 0 < retval then (Done (recv_dontwait max_size t ev), w2)
         else (Done (-1, []), w2))"


subsection \<open>Sequencing\<close>

lemma bind_io_Done: "m w = (Done a, w') \<Longrightarrow> bind_io m f w = f a w'"
  by (simp add: bind_io_def)

lemma bind_io_eq_Done:
  "bind_io m f w = (Done b, w'') \<longleftrightarrow> (\<exists>a w'. m w = (Done a, w') \<and> f a w' = (Done b, w''))"
  by (auto simp: bind_io_def split: prod.splits outcome.splits)

lemma ret_io_simp [simp]: "ret_io a w = (Done a, w)"
  by (simp add: ret_io_def)

lemma bind_io_assoc: "bind_io (bind_io m f) g = bind_io m (\<lambda>x. bind_io (f x) g)"
  by (auto simp: bind_io_def fun_eq_iff split: prod.splits outcome.splits)

text \<open>What a piece of code must do to every state it can end in, whatever the outcome.\<close>

definition keeps :: "(net \<Rightarrow> net \<Rightarrow> bool) \<Rightarrow> 'a io \<Rightarrow> bool" where
  "keeps R m \<longleftrightarrow> (\<forall>w. R w (snd (m w)))"

lemma keepsD: "keeps R m \<Longrightarrow> m w = (r, w') \<Longrightarrow> R w w'"
  by (metis keeps_def snd_conv)

lemma keeps_ret_io: "(\<And>w. R w w) \<Longrightarrow> keeps R (ret_io a)"
  by (simp add: keeps_def)

lemma keeps_bind_io:
  assumes "keeps R m" and "\<And>a. keeps R (f a)" and "\<And>w w' w''. R w w' \<Longrightarrow> R w' w'' \<Longrightarrow> R w w''"
  shows "keeps R (bind_io m f)"
proof -
  have "R w (snd (bind_io m f w))" for w
  proof (cases "m w")
    case (Pair r w')
    with assms(1) have "R w w'" by (rule keepsD)
    moreover have "R w' (snd (f a w'))" for a using assms(2) by (simp add: keeps_def)
    ultimately show ?thesis
      using Pair assms(3) by (cases r) (auto simp: bind_io_def)
  qed
  then show ?thesis by (simp add: keeps_def)
qed

subsection \<open>Objects that own resources\<close>

definition resources :: "net \<Rightarrow> int list \<times> nat" where
  "resources w = (sockets w, addrinfos w)"

text \<open>
  The contract of the two socket classes: a constructor that throws has released what it took,
  and the destructor of a constructed object releases what the constructor took, as long as the
  code in between left the resources alone. A block around such an object therefore never leaks.
\<close>

locale socket_class =
  fixes ctor :: "'o io" and dtor :: "'o \<Rightarrow> unit io"
  assumes throw_clean: "ctor w = (Throws e, w') \<Longrightarrow> resources w' = resources w"
    and ctor_returns: "ctor w \<noteq> (UB e, w')" "ctor w \<noteq> (Blocks, w')"
    and dtor_clean: "ctor w = (Done ob, w1) \<Longrightarrow> resources w2 = resources w1 \<Longrightarrow>
      resources (snd (dtor ob w2)) = resources w"
begin

lemma block_no_leak:
  assumes "\<And>ob w. resources (snd (body ob w)) = resources w"
    and "with_object ctor dtor body w = (r, w')" and "r = Done a \<or> r = Throws e"
  shows "resources w' = resources w"
proof (cases "ctor w")
  case (Pair r1 w1)
  then show ?thesis
  proof (cases r1)
    case (Done ob)
    obtain r2 w2 where b: "body ob w1 = (r2, w2)" by (cases "body ob w1")
    have "resources w2 = resources w1" using assms(1) [of ob w1] b by simp
    then have "resources (snd (dtor ob w2)) = resources w"
      using dtor_clean Pair Done by blast
    then show ?thesis
      using assms(2,3) Pair Done b by (cases r2) (auto simp: with_object_def)
  qed (use assms(2) Pair throw_clean ctor_returns in \<open>auto simp: with_object_def\<close>)
qed

end

lemma resources_simps [simp]:
  "resources (w\<lparr>tx := t\<rparr>) = resources w" "resources (w\<lparr>rx := r\<rparr>) = resources w"
  "resources (w\<lparr>clock := c\<rparr>) = resources w" "resources (w\<lparr>waited_ms := n\<rparr>) = resources w"
  "resources (w\<lparr>rx := r, waited_ms := n\<rparr>) = resources w"
  by (simp_all add: resources_def)

lemma udp_client_new_cases:
  obtains e where "udp_client_new addr port w = (Throws e, w)"
  | "udp_client_new addr port w = (Done \<lparr>c_socket = next_fd w, c_port = port, c_addr = addr\<rparr>,
       w\<lparr>next_fd := next_fd w + 1, sockets := next_fd w # sockets w, addrinfos := addrinfos w + 1\<rparr>)"
  by (cases "gai_ok w addr (dec_int port)"; cases "socket_ok w addr")
    (simp_all add: udp_client_new_def open_socket_def Let_def)

lemma udp_server_new_cases:
  obtains e w' where "udp_server_new addr port w = (Throws e, w')" "resources w' = resources w"
      "tx w' = tx w" "rx w' = rx w" "clock w' = clock w"
  | "udp_server_new addr port w = (Done \<lparr>s_socket = next_fd w, s_port = port, s_addr = addr\<rparr>,
       w\<lparr>next_fd := next_fd w + 1, sockets := next_fd w # sockets w, addrinfos := addrinfos w + 1\<rparr>)"
proof (cases "gai_ok w addr (dec_int port) \<and> socket_ok w addr \<and> bind_ok w addr port")
  case True
  then show thesis by (intro that(2)) (simp add: udp_server_new_def open_socket_def Let_def)
next
  case False
  then have "\<exists>e w'. udp_server_new addr port w = (Throws e, w') \<and> resources w' = resources w \<and>
      tx w' = tx w \<and> rx w' = rx w \<and> clock w' = clock w"
    by (auto simp: udp_server_new_def open_socket_def Let_def resources_def)
  then show thesis using that(1) by blast
qed

interpretation client_class: socket_class "udp_client_new addr port" udp_client_delete for addr port
proof
  fix w e w' ob w1 w2
  show "udp_client_new addr port w = (Throws e, w') \<Longrightarrow> resources w' = resources w"
    "udp_client_new addr port w \<noteq> (UB e, w')" "udp_client_new addr port w \<noteq> (Blocks, w')"
    by (rule udp_client_new_cases [of addr port w]; simp)+
  show "udp_client_new addr port w = (Done ob, w1) \<Longrightarrow> resources w2 = resources w1 \<Longrightarrow>
      resources (snd (udp_client_delete ob w2)) = resources w"
    by (rule udp_client_new_cases [of addr port w])
      (auto simp: udp_client_delete_def resources_def)
qed

interpretation server_class: socket_class "udp_server_new addr port" udp_server_delete for addr port
proof
  fix w e w' ob w1 w2
  show "udp_server_new addr port w = (Throws e, w') \<Longrightarrow> resources w' = resources w"
    "udp_server_new addr port w \<noteq> (UB e, w')" "udp_server_new addr port w \<noteq> (Blocks, w')"
    by (rule udp_server_new_cases [of addr port w]; simp)+
  show "udp_server_new addr port w = (Done ob, w1) \<Longrightarrow> resources w2 = resources w1 \<Longrightarrow>
      resources (snd (udp_server_delete ob w2)) = resources w"
    by (rule udp_server_new_cases [of addr port w])
      (auto simp: udp_server_delete_def resources_def)
qed

subsection \<open>Properties\<close>

text \<open>A network in which every call succeeds and nothing ever arrives, for demonstrations.\<close>

definition quiet_net :: net where
  "quiet_net = \<lparr>gai_ok = \<lambda>_ _. True, socket_ok = \<lambda>_. True, bind_ok = \<lambda>_ _. True,
     sendto_ok = \<lambda>_ _ _. True, writable = True, next_fd = 3, sockets = [], addrinfos = 0,
     tx = [], rx = [], clock = [], waited_ms = 0\<rparr>"

lemma timed_recv_resources: "resources (snd (timed_recv s n t w)) = resources w"
  by (simp add: timed_recv_def Let_def split: prod.splits)

text \<open>
  C32. Blocks around a \<open>udp_server\<close> never leak. Whether the constructor throws (releasing what it took),
  the body throws or the body returns, after the block the process holds the sockets and
  address lists it held before, provided the body itself leaves them alone.
\<close>

theorem udp_server_never_leaks:
  assumes "\<And>s w. resources (snd (body s w)) = resources w"
    and "with_object (udp_server_new addr port) udp_server_delete body w = (r, w')"
    and "r = Done a \<or> r = Throws e"
  shows "resources w' = resources w"
  by (rule server_class.block_no_leak [OF assms])

theorem udp_server_never_leaks_witness:
  "let (r, w') = with_object (udp_server_new ''0.0.0.0'' 0x3000) udp_server_delete
       (\<lambda>s. timed_recv s 2048 100) quiet_net
   in r = Done (-1, []) \<and> resources w' = ([], 0)"
proof -
  obtain r w' where e: "with_object (udp_server_new ''0.0.0.0'' 0x3000) udp_server_delete
      (\<lambda>s. timed_recv s 2048 100) quiet_net = (r, w')"
    by (cases "with_object (udp_server_new ''0.0.0.0'' 0x3000) udp_server_delete
      (\<lambda>s. timed_recv s 2048 100) quiet_net")
  then have r: "r = Done (-1, [])"
    by (auto simp: with_object_def udp_server_new_def open_socket_def timed_recv_def quiet_net_def)
  show ?thesis
    using udp_server_never_leaks [of "\<lambda>s. timed_recv s 2048 100", OF timed_recv_resources e] r e
    by (simp add: resources_def quiet_net_def)
qed

text \<open>
  Sending a vector of words hands the operating system one datagram that holds the words in
  memory order, and returns the number of bytes, four per word; when the system refuses it,
  nothing is sent and the result is -1.
\<close>

theorem client_send_words_wire:
  "client_send_words c data w =
     (if sendto_ok w (c_addr c) (c_port c) (4 * length data)
      then (Done (4 * int (length data)),
            w\<lparr>tx := tx w @ [\<lparr>dg_addr = c_addr c, dg_port = c_port c, dg_payload = bytes_of_words data\<rparr>]\<rparr>)
      else (Done (-1), w))"
  by (simp add: client_send_words_def client_send_def)

text \<open>
  \<open>timed_recv\<close> does not wait on a socket that can be written to: because the same set is passed
  to \<open>select\<close> as the write set, the call returns at once, with -1 unless a datagram was already
  queued, although its comment says that it waits up to \<open>max_wait_ms\<close>.
\<close>

theorem timed_recv_never_waits:
  assumes "writable w"
  shows "\<exists>n d w'. timed_recv s max_size max_wait_ms w = (Done (n, d), w') \<and> waited_ms w' = waited_ms w \<and>
    (n \<noteq> -1 \<longrightarrow> (\<exists>p es. rx w = Queued p # es \<and> d = take max_size p \<or>
       rx w = Late 0 p # es \<and> d = take max_size p))"
proof (cases "rx w")
  case Nil
  with assms show ?thesis by (simp add: timed_recv_def)
next
  case (Cons e es)
  with assms show ?thesis by (cases e) (auto simp: timed_recv_def)
qed

theorem timed_recv_never_waits_witness:
  "writable quiet_net \<and> waited_ms (snd (timed_recv s 2048 1000 quiet_net)) = 0"
  using timed_recv_never_waits [of quiet_net s 2048 1000] by (auto simp: quiet_net_def)

lemma length_upper_hex_digits:
  "n < 16 ^ Suc k \<Longrightarrow> k = 0 \<or> 16 ^ k \<le> n \<Longrightarrow> length (upper_hex_digits n) = Suc k"
proof (induction n arbitrary: k rule: upper_hex_digits.induct)
  case (1 n)
  show ?case
  proof (cases "n < 16")
    case True
    moreover have "k = 0"
    proof (rule ccontr)
      assume "k \<noteq> 0"
      then have "(16::nat) ^ 1 \<le> 16 ^ k" by (intro power_increasing) auto
      with True "1.prems" \<open>k \<noteq> 0\<close> show False by simp
    qed
    ultimately show ?thesis by (subst upper_hex_digits.simps) simp
  next
    case False
    then obtain j where k: "k = Suc j" using "1.prems"(1) by (cases k) auto
    have "n div 16 < 16 ^ Suc j" using "1.prems"(1) k by (simp add: less_mult_imp_div_less)
    moreover have "j = 0 \<or> 16 ^ j \<le> n div 16"
      using "1.prems"(2) k by (auto simp: less_eq_div_iff_mult_less_eq mult.commute)
    ultimately have "length (upper_hex_digits (n div 16)) = Suc j" using False "1.IH" by blast
    with False k show ?thesis by (subst upper_hex_digits.simps) simp
  qed
qed

lemma bit_unat_ge: "bit (w::'a::len word) n \<Longrightarrow> 2 ^ n \<le> unat w"
proof -
  assume "bit w n"
  then have "bit (unat w) n" by (simp add: bit_simps)
  then have "unat w div 2 ^ n \<noteq> 0" by (metis bit_iff_odd even_zero)
  then show ?thesis by (simp add: div_eq_0_iff)
qed

text \<open>
  \<open>printHex\<close> prints two hexadecimal digits for a byte below 0x80 but eight for a byte from 0x80 on,
  because the signed \<open>char\<close> is sign-extended before it is printed.
\<close>

theorem printHex_sign_extends:
  "length (printf_02X c) = (if unat c < 128 then 2 else 8)"
proof (cases "unat c < 128")
  case True
  then have "\<not> bit c n" if "7 \<le> n" for n
    using bit_unat_ge [of c n] power_increasing [OF that, of "2::nat"] by fastforce
  then have "(scast c :: u32) = ucast c"
    by (intro bit_word_eqI) (auto simp: bit_simps min_def)
  moreover have "unat (ucast c :: u32) = unat c"
    using True by (simp add: unsigned_ucast_eq take_bit_nat_eq_self)
  ultimately have n: "unat (scast c :: u32) = unat c" by metis
  show ?thesis
  proof (cases "unat c < 16")
    case True
    then show ?thesis using length_upper_hex_digits [of "unat c" 0] n \<open>unat c < 128\<close>
      by (simp add: printf_02X_def)
  next
    case False
    then show ?thesis using length_upper_hex_digits [of "unat c" 1] n \<open>unat c < 128\<close>
      by (simp add: printf_02X_def)
  qed
next
  case False
  have "unat c div 128 = 1"
    using False unsigned_less [of c, where 'a = nat] by (intro div_nat_eqI) auto
  then have "bit (unat c) 7" by (simp add: bit_iff_odd)
  then have "bit (scast c :: u32) 31" by (simp add: bit_simps)
  then have "2 ^ 31 \<le> unat (scast c :: u32)" by (rule bit_unat_ge)
  then have "length (upper_hex_digits (unat (scast c :: u32))) = 8"
    using length_upper_hex_digits [of "unat (scast c :: u32)" 7] unat_u32 [of "scast c"] by simp
  with False show ?thesis by (simp add: printf_02X_def)
qed

end
