(* ===== verification/OdileServer.thy ===== *)
theory OdileServer
  imports ConfigBlocks Udp
begin

text \<open>
  The class \<open>ODILEServer\<close>: commands, configuration, plain data transfer, and the synchronous
  receive path with \<open>waitForDone\<close>. Operations that touch the network are of type \<open>io\<close>; operations
  that change the server object return the new object.

  The theory shows what commands look like on the wire, that reading a configuration file
  twice (as \<open>readConfigData\<close> does) is the same as reading it once, how the register setters and
  \<open>getWordsToRead\<close> agree, what a receive appends to the caller's vector, when \<open>waitForDone\<close> returns
  true, and that it cannot time out for time limits of a second or more.
\<close>

subsection \<open>State\<close>

definition NULL_IPADDRESS :: string where "NULL_IPADDRESS = ''0.0.0.0''"
definition COMMAND_PORT :: int where "COMMAND_PORT = 0x3000"
definition FIRMWARE_PORT :: int where "FIRMWARE_PORT = 0x4000"
definition BUFFSIZE :: nat where "BUFFSIZE = 2048"
definition WAIT_TIME :: nat where "WAIT_TIME = 1000"

text \<open>\<open>thread_args\<close> holds pointers, given as addresses of a heap (theory \<open>AsyncThreads\<close>).\<close>

record ODILEServer =
  odile_address :: string
  configBlocks :: ConfigBlockList
  configClient :: udp_client
  cmdClient :: udp_client
  thread_args :: "nat list"
  server_address :: string

definition ODILEServer_new :: "string \<Rightarrow> ODILEServer io" where
  "ODILEServer_new addr =
     bind_io (udp_client_new addr 0x4268) (\<lambda>config_client w.
       case udp_client_new addr 0x3000 w of
         (Done cmd_client, w1) \<Rightarrow>
           (Done \<lparr>odile_address = addr, configBlocks = ConfigBlockList_new,
                  configClient = config_client, cmdClient = cmd_client, thread_args = [],
                  server_address = NULL_IPADDRESS\<rparr>, w1)
       | (Throws e, w1) \<Rightarrow> (Throws e, snd (udp_client_delete config_client w1))
       | (UB e, w1) \<Rightarrow> (UB e, w1)
       | (Blocks, w1) \<Rightarrow> (Blocks, w1))"

definition setServerAddress :: "ODILEServer \<Rightarrow> string \<Rightarrow> ODILEServer" where
  "setServerAddress srv new_address = srv\<lparr>server_address := new_address\<rparr>"

subsection \<open>Commands\<close>

datatype ODILECommand = INV | SEX | AEX | STS | GCT | RDP

fun command_code :: "ODILECommand \<Rightarrow> u32" where
  "command_code INV = 0x00494E56"
| "command_code SEX = 0x00534558"
| "command_code AEX = 0x00414558"
| "command_code STS = 0x00535453"
| "command_code GCT = 0x00474354"
| "command_code RDP = 0x00524450"

definition byte_of_char :: "char \<Rightarrow> byte" where
  "byte_of_char c = of_char c"

text \<open>
  The loop of \<open>stringToInt\<close>, from the last character to the first; a shift by 32 or more is
  undefined.
\<close>

fun stringToInt_loop :: "string \<Rightarrow> nat \<Rightarrow> u32 \<Rightarrow> u32" where
  "stringToInt_loop [] i data = data"
| "stringToInt_loop (c # cs) i data =
     stringToInt_loop cs (Suc i) (data + push_bit (8 * i) (scast (byte_of_char c)))"

definition stringToInt :: "string \<Rightarrow> u32 outcome" where
  "stringToInt str =
     (if 4 < length str then UB ''shift'' else Done (stringToInt_loop (rev str) 0 0))"

definition stringToCommand :: "string \<Rightarrow> ODILECommand" where
  "stringToCommand cmd_str =
     (if cmd_str = ''SEX'' then SEX
      else if cmd_str = ''AEX'' then AEX
      else if cmd_str = ''STS'' then STS
      else if cmd_str = ''GCT'' then GCT
      else if cmd_str = ''RDP'' then RDP
      else INV)"

definition sendCommand_old :: "ODILEServer \<Rightarrow> ODILECommand \<Rightarrow> int io" where
  "sendCommand_old srv cmd =
     (if cmd = INV then ret_io (-1)
      else client_send_words (cmdClient srv) [bswap_32 (command_code cmd)])"

definition command_words :: "u32 \<Rightarrow> int \<Rightarrow> u32 \<Rightarrow> u32 list" where
  "command_words word prefix secondWord =
     (let word' = (if 0 < prefix \<and> prefix \<le> 255 then word + push_bit 24 (word_of_int prefix) else word)
      in bswap_32 word' # (if secondWord \<noteq> 0xFFFFFFFF then [bswap_32 secondWord] else []))"

definition sendCommand :: "ODILEServer \<Rightarrow> string \<Rightarrow> int \<Rightarrow> u32 \<Rightarrow> int io" where
  "sendCommand srv cmd prefix secondWord =
     (if length cmd \<noteq> 3 then ret_io (-1)
      else bind_io (\<lambda>w. (stringToInt cmd, w))
        (\<lambda>word. client_send_words (cmdClient srv) (command_words word prefix secondWord)))"

subsection \<open>Configuration\<close>

definition readConfigData :: "files \<Rightarrow> string \<Rightarrow> ODILEServer \<Rightarrow> int \<times> ODILEServer" where
  "readConfigData fs inifile srv =
     (let (readError, l1) = list_readINI fs inifile (configBlocks srv);
          (err, l2) = list_readINI fs inifile l1
      in (err, srv\<lparr>configBlocks := l2\<rparr>))"

definition sendConfigData :: "ODILEServer \<Rightarrow> (int \<times> ODILEServer) io" where
  "sendConfigData srv =
     (let (config_message, l) = getConfigMessage (configBlocks srv)
      in bind_io (client_send_words (configClient srv) config_message)
           (\<lambda>n. ret_io (n, srv\<lparr>configBlocks := l\<rparr>)))"

definition sendConfigData_file :: "files \<Rightarrow> string \<Rightarrow> ODILEServer \<Rightarrow> (int \<times> ODILEServer) io" where
  "sendConfigData_file fs inifile srv = sendConfigData (snd (readConfigData fs inifile srv))"

text \<open>\<open>configBlocks.getBlock(b).getConfigEntry(e).value = v\<close>.\<close>

definition set_register :: "string \<Rightarrow> string \<Rightarrow> u16 \<Rightarrow> ODILEServer \<Rightarrow> ODILEServer outcome" where
  "set_register bname ename v srv =
     obind (getBlock (configBlocks srv) bname) (\<lambda>i.
       obind (getConfigEntry (cb_blocks (configBlocks srv) ! i) ename) (\<lambda>j.
         let l = configBlocks srv; b = cb_blocks l ! i;
             b' = config_entries_update
                    (\<lambda>es. es[j := entry_value_update (\<lambda>_. v) (es ! j)]) b
         in Done (srv\<lparr>configBlocks := l\<lparr>cb_blocks := (cb_blocks l)[i := b']\<rparr>\<rparr>)))"

definition get_register :: "string \<Rightarrow> string \<Rightarrow> ODILEServer \<Rightarrow> u16 outcome" where
  "get_register bname ename srv =
     obind (getBlock (configBlocks srv) bname) (\<lambda>i.
       obind (getConfigEntry (cb_blocks (configBlocks srv) ! i) ename) (\<lambda>j.
         Done (entry_value (config_entries (cb_blocks (configBlocks srv) ! i) ! j))))"

definition setNSkips :: "u16 \<Rightarrow> ODILEServer \<Rightarrow> ODILEServer outcome" where
  "setNSkips nskips srv = set_register ''ADCConfigBlock'' ''ADC_CDS_NSkips'' nskips srv"

definition setNSamples :: "u16 \<Rightarrow> ODILEServer \<Rightarrow> ODILEServer outcome" where
  "setNSamples nsamples srv = set_register ''ADCConfigBlock'' ''ADC_CDS_NSamples'' nsamples srv"

definition setNTrigSamples :: "u16 \<Rightarrow> ODILEServer \<Rightarrow> ODILEServer outcome" where
  "setNTrigSamples nsamples srv = set_register ''ADCConfigBlock'' ''ADC_Trigger_Samples'' nsamples srv"

text \<open>Multiplication of \<open>int\<close>s; overflow is undefined.\<close>

definition int_mul :: "int \<Rightarrow> int \<Rightarrow> int outcome" where
  "int_mul a b = (if - (2 ^ 31) \<le> a * b \<and> a * b < 2 ^ 31 then Done (a * b) else UB ''int overflow'')"

definition getWordsToRead :: "ODILEServer \<Rightarrow> int \<Rightarrow> int \<Rightarrow> int \<Rightarrow> int outcome" where
  "getWordsToRead srv nrows ncols nskips =
     obind (int_mul nrows ncols) (\<lambda>words0.
       obind (get_register ''ADCConfigBlock'' ''ADC_CDS_NSkips'' srv) (\<lambda>skips.
         obind (if skips = 1 \<and> 1 < nskips then int_mul words0 nskips else Done words0) (\<lambda>words1.
           obind (get_register ''ADCConfigBlock'' ''ADC_Output_Config'' srv) (\<lambda>mode.
             if mode AND 2 \<noteq> 0 then Done words1
             else obind (get_register ''ADCConfigBlock'' ''ADC_Trigger_Samples'' srv) (\<lambda>samps.
                    int_mul words1 (int (unat samps) * 2))))))"

subsection \<open>Sending data\<close>

definition sendData :: "ODILEServer \<Rightarrow> u32 list \<Rightarrow> int \<Rightarrow> int io" where
  "sendData srv data port =
     with_object (udp_client_new (odile_address srv) port) udp_client_delete
       (\<lambda>client. client_send_words client data)"

text \<open>
  \<open>ifile >> std::hex >> line\<close> for a \<open>uint32_t\<close>: white space, a sign, an optional \<open>0x\<close>, hexadecimal
  digits. None is the failed state, reached at the end of the text, without digits, or when the
  number does not fit.
\<close>

definition hex_extract :: "string \<Rightarrow> (u32 \<times> string) option" where
  "hex_extract inp =
     (let (sg, s1) = sign_of (dropWhile isspace inp);
          s2 = (if hex_prefixed s1 then drop 2 s1 else s1);
          ds = takeWhile (is_digit_of 16) s2;
          n = digits_value 16 ds
      in if ds = [] \<or> 2 ^ 32 \<le> n then None
         else Some (word_of_int (sg * int n), drop (length ds) s2))"

function read_hex_words :: "string \<Rightarrow> u32 list" where
  "read_hex_words inp =
     (case hex_extract inp of None \<Rightarrow> [] | Some (n, rest) \<Rightarrow> bswap_32 n # read_hex_words rest)"
  by pat_completeness auto
termination
proof (relation "measure length")
  fix inp x n rest
  let ?s1 = "snd (sign_of (dropWhile isspace inp))"
  let ?s2 = "if hex_prefixed ?s1 then drop 2 ?s1 else ?s1"
  let ?ds = "takeWhile (is_digit_of 16) ?s2"
  assume "hex_extract inp = Some x" and "(n, rest) = x"
  then have s: "rest = drop (length ?ds) ?s2" "?ds \<noteq> []"
    by (simp_all only: hex_extract_def Let_def split_beta split: if_splits) auto
  have "length (snd (sign_of t)) \<le> length t" for t
    by (auto simp: sign_of_def split: list.splits)
  then have "length ?s1 \<le> length inp"
    using length_dropWhile_le [of isspace inp] le_trans by blast
  moreover have "length ?s2 \<le> length ?s1" by simp
  moreover have "length rest < length ?s2"
    using s length_takeWhile_le [of "is_digit_of 16" ?s2] by (cases ?s2) auto
  ultimately show "(rest, inp) \<in> measure length" by simp
qed simp

declare read_hex_words.simps [simp del]

definition sendData_file :: "files \<Rightarrow> ODILEServer \<Rightarrow> string \<Rightarrow> int \<Rightarrow> int io" where
  "sendData_file fs srv ifname port =
     sendData srv (case fs ifname of None \<Rightarrow> [] | Some inp \<Rightarrow> read_hex_words inp) port"

subsection \<open>Receiving data\<close>

definition swapBufferBytes :: "u32 list \<Rightarrow> u32 list" where
  "swapBufferBytes buffer = map bswap_32 buffer"

text \<open>Integer division of C, which rounds towards zero: \<open>-1 / 4 = 0\<close>.\<close>

definition div_c :: "int \<Rightarrow> int \<Rightarrow> int" where
  "div_c a b = sgn a * sgn b * (\<bar>a\<bar> div \<bar>b\<bar>)"

text \<open>\<open>data == NULL\<close> is None; the result is the return value and the caller's vector.\<close>

definition recieveData ::
    "ODILEServer \<Rightarrow> u32 list option \<Rightarrow> string \<Rightarrow> int \<Rightarrow> int \<Rightarrow> bool \<Rightarrow> (int \<times> u32 list option) io" where
  "recieveData srv data serv_address port timeout_ms swap_bytes =
     (case data of
        None \<Rightarrow> ret_io (-1, None)
      | Some ws \<Rightarrow>
          with_object
            (udp_server_new (if serv_address = NULL_IPADDRESS then server_address srv else serv_address) port)
            udp_server_delete
            (\<lambda>s. bind_io
               (if 0 < timeout_ms then timed_recv s BUFFSIZE (nat timeout_ms) else server_recv s BUFFSIZE)
               (\<lambda>(len, buf).
                  let nwords = div_c len 4;
                      buffer = words_of_bytes buf;
                      buffer' = (if swap_bytes then swapBufferBytes buffer else buffer)
                  in ret_io (nwords, Some (ws @ take (nat nwords) buffer')))))"

definition recieveData_any :: "ODILEServer \<Rightarrow> u32 list option \<Rightarrow> int \<Rightarrow> int \<Rightarrow> bool \<Rightarrow> (int \<times> u32 list option) io" where
  "recieveData_any srv data port timeout_ms swap_bytes =
     recieveData srv data NULL_IPADDRESS port timeout_ms swap_bytes"

text \<open>\<open>clock_gettime\<close>: the nanosecond field of the next clock reading, in milliseconds.\<close>

definition clock_gettime_ms :: "int io" where
  "clock_gettime_ms w = (case clock w of [] \<Rightarrow> (Blocks, w)
     | ns # rest \<Rightarrow> (Done (ns div 1000 div 1000), w\<lparr>clock := rest\<rparr>))"

definition is_done_word :: "u32 \<Rightarrow> bool" where
  "is_done_word x \<longleftrightarrow> x AND 0x00FFFFFF = 0x00444F4E"

text \<open>
  The loop of \<open>waitForDone\<close>. Every round reads the clock once, so the number of clock readings
  the environment provides bounds the rounds; \<open>Blocks\<close> means no return within them.
\<close>

fun wait_loop :: "nat \<Rightarrow> ODILEServer \<Rightarrow> int \<Rightarrow> int \<Rightarrow> u32 list \<Rightarrow> bool io" where
  "wait_loop 0 srv timeout_ms starttime buffer w = (Blocks, w)"
| "wait_loop (Suc k) srv timeout_ms starttime buffer w =
     bind_io (recieveData_any srv (Some buffer) COMMAND_PORT (div_c timeout_ms 10) True)
       (\<lambda>(bytes_recvd, data). bind_io clock_gettime_ms (\<lambda>currtime.
          let buffer' = (case data of Some b \<Rightarrow> b | None \<Rightarrow> [])
          in if 0 < bytes_recvd \<and> (\<exists>x \<in> set buffer'. is_done_word x) then ret_io True
             else if 0 < timeout_ms \<and> timeout_ms < currtime - starttime then ret_io False
             else wait_loop k srv timeout_ms starttime buffer')) w"

definition waitForDone :: "ODILEServer \<Rightarrow> int \<Rightarrow> bool io" where
  "waitForDone srv timeout_ms =
     bind_io clock_gettime_ms (\<lambda>starttime w. wait_loop (length (clock w)) srv timeout_ms starttime [] w)"

definition getCompileTime :: "ODILEServer \<Rightarrow> u32 io" where
  "getCompileTime srv =
     bind_io (sendCommand srv ''GCT'' 0 0xFFFFFFFF) (\<lambda>_.
       bind_io (recieveData srv (Some []) NULL_IPADDRESS COMMAND_PORT (-1) True) (\<lambda>(n, data) w.
         case data of Some ws \<Rightarrow>
             (if 1 < length ws then (Done (ws ! 1), w) else (UB ''data[1] out of range'', w))
           | None \<Rightarrow> (UB ''data[1] out of range'', w)))"


subsection \<open>Commands on the wire\<close>

lemma scast_ascii: "unat b < 128 \<Longrightarrow> (scast (b::byte) :: u32) = ucast b"
  by (intro bit_word_eqI) (auto simp: bit_simps min_def no_sign_bit)

lemma stringToInt_ascii:
  assumes "\<forall>c \<in> {a, b, c}. unat (byte_of_char c) < 128"
  shows "stringToInt [a, b, c] =
    Done (word_of_bytes [byte_of_char c, byte_of_char b, byte_of_char a, 0])"
  using assms
  by (simp add: stringToInt_def word_of_bytes_add scast_ascii del: word_of_bytes.simps)

lemma bytes_of_prefixed_command:
  assumes "0 < prefix" and "prefix \<le> 255"
  shows "bytes_of_word (bswap_32 (word_of_bytes [c, b, a, 0] + push_bit 24 (word_of_int prefix))) =
    [word_of_int prefix, a, b, c]"
proof -
  have "(word_of_int prefix :: u32) = ucast (word_of_int prefix :: byte)"
    using assms by (simp add: ucast_eq uint_word_of_int_eq take_bit_int_eq_self)
  then have "word_of_bytes [c, b, a, 0] + push_bit 24 (word_of_int prefix) =
      word_of_bytes [c, b, a, word_of_int prefix]"
    by (simp add: word_of_bytes_add del: word_of_bytes.simps)
  then show ?thesis by (simp add: bytes_of_bswap_32 bytes_of_word_of_bytes del: word_of_bytes.simps)
qed

lemma bytes_of_plain_command:
  "bytes_of_word (bswap_32 (word_of_bytes [c, b, a, 0])) = [0, a, b, c]"
  by (simp add: bytes_of_bswap_32 bytes_of_word_of_bytes del: word_of_bytes.simps)

definition command_payload :: "string \<Rightarrow> int \<Rightarrow> u32 \<Rightarrow> byte list" where
  "command_payload cmd prefix secondWord =
     (if 0 < prefix \<and> prefix \<le> 255 then word_of_int prefix else 0) # map byte_of_char cmd @
     (if secondWord \<noteq> 0xFFFFFFFF then rev (bytes_of_word secondWord) else [])"

definition ascii3 :: "string \<Rightarrow> bool" where
  "ascii3 cmd \<longleftrightarrow> length cmd = 3 \<and> (\<forall>c \<in> set cmd. unat (byte_of_char c) < 128)"

lemma ascii3E:
  assumes "ascii3 cmd"
  obtains a b c where "cmd = [a, b, c]" "\<forall>c \<in> {a, b, c}. unat (byte_of_char c) < 128"
  using assms by (auto simp: ascii3_def length_Suc_conv numeral_eq_Suc)

lemma sendCommand_ascii:
  assumes "ascii3 cmd"
  shows "sendCommand srv cmd prefix secondWord =
    client_send (cmdClient srv) (command_payload cmd prefix secondWord)"
proof -
  obtain a b c where cmd: "cmd = [a, b, c]" and abc: "\<forall>c \<in> {a, b, c}. unat (byte_of_char c) < 128"
    using assms by (rule ascii3E)
  let ?word = "word_of_bytes [byte_of_char c, byte_of_char b, byte_of_char a, 0]"
  have w: "stringToInt [a, b, c] = Done ?word" using abc by (rule stringToInt_ascii)
  have p: "bytes_of_words (command_words ?word prefix secondWord) =
      command_payload [a, b, c] prefix secondWord"
    using bytes_of_prefixed_command [of prefix "byte_of_char c" "byte_of_char b" "byte_of_char a"]
      bytes_of_plain_command [of "byte_of_char c" "byte_of_char b" "byte_of_char a"]
    by (auto simp: command_words_def command_payload_def bytes_of_bswap_32 Let_def
      simp del: word_of_bytes.simps)
  show ?thesis
    by (simp add: fun_eq_iff sendCommand_def cmd bind_io_def w client_send_words_def p
      del: word_of_bytes.simps)
qed

text \<open>
  C5. A three-letter ASCII command is sent to the command port of the board as one datagram: the
  prefix byte (0 unless the prefix is in 1..255), the three letters in reading order, then the
  second word in network order unless it is 0xFFFFFFFF. The result is the number of bytes sent.
\<close>

theorem sendCommand_wire:
  assumes "length cmd = 3" and "\<forall>c \<in> set cmd. of_char c < (128::nat)"
    and "sendto_ok w (c_addr (cmdClient srv)) (c_port (cmdClient srv)) (if second = 0xFFFFFFFF then 4 else 8)"
  shows "sendCommand srv cmd prefix second w =
    (Done (if second = 0xFFFFFFFF then 4 else 8),
     w\<lparr>tx := tx w @ [\<lparr>dg_addr = c_addr (cmdClient srv), dg_port = c_port (cmdClient srv),
        dg_payload = (if 0 < prefix \<and> prefix \<le> 255 then word_of_int prefix else 0) #
          map of_char cmd @ (if second = 0xFFFFFFFF then [] else rev (bytes_of_word second))\<rparr>]\<rparr>)"
proof -
  have "unat (word_of_nat (of_char c) :: byte) = of_char c" for c :: char
    by (simp only: unat_of_nat) simp
  then have "unat (of_char c :: byte) = of_char c" for c :: char
    by (simp only: of_nat_of_char)
  then have a: "ascii3 cmd" using assms(1,2) by (simp add: ascii3_def byte_of_char_def)
  have "length (command_payload cmd prefix second) = (if second = 0xFFFFFFFF then 4 else 8)"
    using assms(1) by (simp add: command_payload_def)
  with assms(3) show ?thesis
    unfolding sendCommand_ascii [OF a]
    by (auto simp: client_send_def command_payload_def byte_of_char_def [abs_def])
qed

text \<open>
  A command whose length is not three is rejected with -1 and nothing is sent; so is the old
  interface's invalid command.
\<close>

theorem sendCommand_rejects:
  assumes "length cmd \<noteq> 3"
  shows "sendCommand srv cmd prefix second w = (Done (-1), w) \<and> sendCommand_old srv INV w = (Done (-1), w)"
  using assms by (simp add: sendCommand_def sendCommand_old_def)

text \<open>
  The old command interface agrees with the new one: for every command name it knows,
  \<open>stringToCommand\<close> yields the enumeration value that \<open>stringToInt\<close> computes from the letters.
\<close>

theorem stringToCommand_agrees:
  assumes "stringToCommand s \<noteq> INV"
  shows "stringToInt s = Done (command_code (stringToCommand s))"
  using assms
  by (auto simp: stringToCommand_def stringToInt_def byte_of_char_def split: if_splits)

text \<open>A server object as the constructor makes it, for demonstrations.\<close>

definition demo_server :: ODILEServer where
  "demo_server =
     (let c = \<lambda>fd port. \<lparr>c_socket = fd, c_port = port, c_addr = ''192.168.0.3''\<rparr>
      in \<lparr>odile_address = ''192.168.0.3'', configBlocks = ConfigBlockList_new, configClient = c 3 0x4268,
          cmdClient = c 4 0x3000, thread_args = [], server_address = NULL_IPADDRESS\<rparr>)"

lemma demo_server_new: "fst (ODILEServer_new ''192.168.0.3'' quiet_net) = Done demo_server"
  by (simp add: ODILEServer_new_def bind_io_def udp_client_new_def open_socket_def quiet_net_def
    demo_server_def Let_def)

theorem sendCommand_wire_witness:
  "map dg_payload (tx (snd (sendCommand demo_server ''ESA'' 0 0x01F60000 quiet_net))) =
     [[0, 0x45, 0x53, 0x41, 0x01, 0xF6, 0x00, 0x00]]"
  using sendCommand_wire [of "''ESA''" quiet_net demo_server "0x01F60000" 0]
  by (simp add: quiet_net_def bytes_of_word_def demo_server_def)

theorem sendCommand_rejects_witness:
  "sendCommand demo_server ''LONG'' 0 0 quiet_net = (Done (-1), quiet_net)"
  using sendCommand_rejects [of "''LONG''" demo_server 0 0 quiet_net] by simp

theorem stringToCommand_agrees_witness: "stringToInt ''GCT'' = Done 0x00474354"
  using stringToCommand_agrees [of "''GCT''"] by (simp add: stringToCommand_def)

subsection \<open>Reading the configuration\<close>

lemma map_names_block_readINI:
  "map entry_name (config_entries (block_readINI r b)) = map entry_name (config_entries b)"
  by (rule nth_equalityI) (auto simp: block_readINI_nth Let_def)

lemma block_readINI_simps [simp]:
  "block_name (block_readINI r b) = block_name b" "block_address (block_readINI r b) = block_address b"
  by (simp_all add: block_readINI_def)

lemma config_entries_readINI_twice:
  "config_entries (block_readINI r (createConfigMessages (block_readINI r b) wa)) =
     config_entries (block_readINI r b)"
proof (rule nth_equalityI)
  let ?b = "createConfigMessages (block_readINI r b) wa"
  fix i assume "i < length (config_entries (block_readINI r ?b))"
  then have i: "i < length (config_entries b)" "i < length (config_entries ?b)" by simp_all
  have nm: "entry_name (config_entries (block_readINI r b) ! i) = entry_name (config_entries b ! i)"
    using i by (simp add: block_readINI_nth Let_def)
  have fe: "findEntry ?b n = findEntry b n" for n
    by (rule findEntry_names) (simp add: map_names_block_readINI)
  show "config_entries (block_readINI r ?b) ! i = config_entries (block_readINI r b) ! i"
    unfolding block_readINI_nth [OF i(2)] Let_def fe using i
    by (simp add: nm) (simp add: block_readINI_nth Let_def)
qed simp

lemma block_messages_determined:
  assumes "config_entries b = config_entries b'" and "block_name b = block_name b'"
    and "block_address b = block_address b'"
  shows "createConfigMessages b wa = createConfigMessages b' wa"
  using assms by (cases b; cases b') (simp add: createConfigMessages_def)

lemma list_readINI_twice: "list_readINI fs f (snd (list_readINI fs f l)) = list_readINI fs f l"
proof -
  have "createConfigMessages (block_readINI r (createConfigMessages (block_readINI r b) wa)) wa =
      createConfigMessages (block_readINI r b) wa" for r b wa
    by (rule block_messages_determined) (simp_all add: config_entries_readINI_twice)
  then show ?thesis by (simp add: list_readINI_def Let_def comp_def)
qed

text \<open>
  \<open>readConfigData\<close> reads the file twice, once for the error message and once for the result. The
  effect is that of reading it once: the same code is returned and the same registers are set.
\<close>

theorem readConfigData_once:
  "readConfigData fs inifile srv =
     (let (err, l) = list_readINI fs inifile (configBlocks srv) in (err, srv\<lparr>configBlocks := l\<rparr>))"
  using list_readINI_twice [of fs inifile "configBlocks srv"]
  by (auto simp: readConfigData_def split: prod.splits)

text \<open>
  Sending the configuration transmits the master message of the current registers to the
  configuration client as one datagram and does not change any register; with a file, the
  registers are those of the file.
\<close>

theorem sendConfigData_effect:
  assumes "sendConfigData srv w = (Done (n, srv'), w')"
  shows "map config_entries (cb_blocks (configBlocks srv')) = map config_entries (cb_blocks (configBlocks srv)) \<and>
    (n = -1 \<and> tx w' = tx w \<or>
     n = 4 * int (length (fst (getConfigMessage (configBlocks srv)))) \<and>
     tx w' = tx w @ [\<lparr>dg_addr = c_addr (configClient srv), dg_port = c_port (configClient srv),
       dg_payload = bytes_of_words (fst (getConfigMessage (configBlocks srv)))\<rparr>])"
  using assms
  by (auto simp: sendConfigData_def getConfigMessage_eq bind_io_eq_Done client_send_words_def
    client_send_def comp_def split: if_splits)

subsection \<open>Registers by name\<close>

lemma get_set_register:
  assumes "set_register bn en v srv = Done srv'"
  shows "get_register bn' en' srv' = (if bn' = bn \<and> en' = en then Done v else get_register bn' en' srv)"
proof -
  let ?bs = "cb_blocks (configBlocks srv)"
  from assms obtain i j where i: "find_first (\<lambda>b. block_name b = bn) ?bs = Some i"
    and j: "find_first (\<lambda>e. entry_name e = en) (config_entries (?bs ! i)) = Some j"
    and srv': "srv' = srv\<lparr>configBlocks := (configBlocks srv)\<lparr>cb_blocks := ?bs[i := config_entries_update
        (\<lambda>es. es[j := entry_value_update (\<lambda>_. v) (es ! j)]) (?bs ! i)]\<rparr>\<rparr>"
    by (auto simp: set_register_def getBlock_def getConfigEntry_def Let_def obind_eq_Done split: option.splits)
  let ?upd = "\<lambda>es. es[j := entry_value_update (\<lambda>_. v) (es ! j)]"
  show ?thesis
  proof (cases "find_first (\<lambda>b. block_name b = bn') ?bs")
    case None
    with i show ?thesis by (auto simp: get_register_def getBlock_def srv' blocks.find_write)
  next
    case (Some k)
    have es: "config_entries (?bs[i := config_entries_update ?upd (?bs ! i)] ! k) =
        (if bn = bn' then ?upd (config_entries (?bs ! k)) else config_entries (?bs ! k))"
      using blocks.read_write [OF i Some, of ?upd] .
    have find: "find_first (\<lambda>e. entry_name e = en') (?upd es) = find_first (\<lambda>e. entry_name e = en') es" for es
      by (rule entries.find_write)
    have val: "entry_value (?upd (config_entries (?bs ! i)) ! m) =
        (if en = en' then v else entry_value (config_entries (?bs ! i) ! m))"
      if "find_first (\<lambda>e. entry_name e = en') (config_entries (?bs ! i)) = Some m" for m
      using entries.read_write [OF j that, of "\<lambda>_. v"] .
    have read: "get_register bn' en' srv' = obind (getConfigEntry (?bs ! k) en')
        (\<lambda>m. Done (entry_value ((if bn = bn' then ?upd (config_entries (?bs ! k)) else config_entries (?bs ! k)) ! m)))"
      unfolding get_register_def getBlock_def getConfigEntry_def srv'
      by (cases "bn = bn'") (simp_all add: Some blocks.find_write es [simplified] find [simplified])
    have read0: "get_register bn' en' srv = obind (getConfigEntry (?bs ! k) en')
        (\<lambda>m. Done (entry_value (config_entries (?bs ! k) ! m)))"
      by (simp add: get_register_def getBlock_def Some)
    show ?thesis
    proof (cases "bn' = bn")
      case True
      with i Some have "k = i" by simp
      with True j val show ?thesis
        unfolding read read0
        by (cases "find_first (\<lambda>e. entry_name e = en') (config_entries (?bs ! i))")
          (auto simp: getConfigEntry_def)
    qed (simp add: read read0)
  qed
qed

lemma demo_registers:
  "get_register ''ADCConfigBlock'' ''ADC_CDS_NSkips'' demo_server = Done 1"
  "get_register ''ADCConfigBlock'' ''ADC_Output_Config'' demo_server = Done 0"
  "get_register ''ADCConfigBlock'' ''ADC_Trigger_Samples'' demo_server = Done 0"
  by code_simp+

text \<open>
  The setters of the skip, sample and trigger counts write their own register of the ADC block
  and no other: afterwards that register reads as the value set, every other register (by block
  and name) reads as before.
\<close>

theorem adc_setters_effect:
  assumes "setNSkips n srv = Done srv1" and "setNSamples n srv = Done srv2"
    and "setNTrigSamples n srv = Done srv3"
  shows "get_register b e srv1 = (if b = ''ADCConfigBlock'' \<and> e = ''ADC_CDS_NSkips'' then Done n
       else get_register b e srv) \<and>
     get_register b e srv2 = (if b = ''ADCConfigBlock'' \<and> e = ''ADC_CDS_NSamples'' then Done n
       else get_register b e srv) \<and>
     get_register b e srv3 = (if b = ''ADCConfigBlock'' \<and> e = ''ADC_Trigger_Samples'' then Done n
       else get_register b e srv)"
  using get_set_register [OF assms(1) [unfolded setNSkips_def]]
    get_set_register [OF assms(2) [unfolded setNSamples_def]]
    get_set_register [OF assms(3) [unfolded setNTrigSamples_def]] by simp

lemma set_register_defined:
  assumes "get_register b e srv = Done v"
  shows "\<exists>srv'. set_register b e n srv = Done srv'"
  using assms by (auto simp: get_register_def set_register_def obind_eq_Done Let_def)

theorem adc_setters_effect_witness:
  "\<exists>s1 s2 s3. setNSkips 5 demo_server = Done s1 \<and> setNSamples 5 demo_server = Done s2 \<and>
     setNTrigSamples 5 demo_server = Done s3 \<and>
     get_register ''ADCConfigBlock'' ''ADC_Trigger_Samples'' s1 = Done 0 \<and>
     get_register ''ADCConfigBlock'' ''ADC_Trigger_Samples'' s3 = Done 5"
proof -
  have "\<exists>v. get_register ''ADCConfigBlock'' ''ADC_CDS_NSamples'' demo_server = Done v"
    by (rule exI [of _ 1]) code_simp
  then obtain s1 s2 s3 where s: "setNSkips 5 demo_server = Done s1" "setNSamples 5 demo_server = Done s2"
      "setNTrigSamples 5 demo_server = Done s3"
    unfolding setNSkips_def setNSamples_def setNTrigSamples_def
    by (metis set_register_defined demo_registers)
  then show ?thesis
    using adc_setters_effect [OF s, of "''ADCConfigBlock''" "''ADC_Trigger_Samples''"] demo_registers
    by auto
qed

text \<open>
  As long as no product leaves the \<open>int\<close> range, \<open>getWordsToRead\<close> is the number of pixels, times the
  number of skips when the board does not average over them (its skip register is 1 and more
  than one skip is asked for), times twice the samples per trigger unless the output is in CDS mode.
\<close>

theorem getWordsToRead_formula:
  assumes "get_register ''ADCConfigBlock'' ''ADC_CDS_NSkips'' srv = Done skips"
    and "get_register ''ADCConfigBlock'' ''ADC_Output_Config'' srv = Done mode"
    and "get_register ''ADCConfigBlock'' ''ADC_Trigger_Samples'' srv = Done samps"
    and "pixels = nrows * ncols" and "0 \<le> pixels" and "pixels < 2 ^ 31"
    and "per_pixel = (if skips = 1 \<and> 1 < nskips then nskips else 1)" and "pixels * per_pixel < 2 ^ 31"
    and "per_sample = (if mode AND 2 \<noteq> 0 then 1 else 2 * int (unat samps))"
    and "pixels * per_pixel * per_sample < 2 ^ 31"
  shows "getWordsToRead srv nrows ncols nskips = Done (pixels * per_pixel * per_sample)"
proof -
  have range: "int_mul x y = Done (x * y)" if "0 \<le> x * y" "x * y < 2 ^ 31" for x y
    using that by (simp add: int_mul_def)
  have p: "0 \<le> pixels * per_pixel" using assms(5,7) by simp
  then have q: "0 \<le> pixels * per_pixel * per_sample" using assms(9) by simp
  have 1: "int_mul nrows ncols = Done pixels" using range assms(4-6) by simp
  have 2: "(if skips = 1 \<and> 1 < nskips then int_mul pixels nskips else Done pixels) = Done (pixels * per_pixel)"
    using range [of pixels nskips] p assms(7,8) by (cases "skips = 1 \<and> 1 < nskips") auto
  have 3: "(if mode AND 2 \<noteq> 0 then Done (pixels * per_pixel)
      else int_mul (pixels * per_pixel) (int (unat samps) * 2)) = Done (pixels * per_pixel * per_sample)"
  proof (cases "mode AND 2 \<noteq> 0")
    case False
    then have "per_sample = int (unat samps) * 2" using assms(9) by simp
    with False range q assms(10) show ?thesis by metis
  qed (simp add: assms(9))
  show ?thesis
    unfolding getWordsToRead_def 1 obind.simps assms(1-3) 2 by (rule 3)
qed

theorem getWordsToRead_formula_witness:
  "get_register ''ADCConfigBlock'' ''ADC_CDS_NSkips'' demo_server = Done 1 \<and>
   getWordsToRead demo_server 6200 6400 1 = Done 0"
  using getWordsToRead_formula [OF demo_registers, of 39680000 6200 6400 1 1 0] demo_registers(1) by simp

theorem sendConfigData_effect_witness:
  "\<exists>n srv' w'. sendConfigData demo_server quiet_net = (Done (n, srv'), w') \<and>
     map dg_port (tx w') = [0x4268] \<and> map config_entries (cb_blocks (configBlocks srv')) =
       map config_entries (cb_blocks (configBlocks demo_server))"
proof -
  let ?m = "getConfigMessage (configBlocks demo_server)"
  have "sendConfigData demo_server quiet_net = (Done (4 * int (length (fst ?m)),
      demo_server\<lparr>configBlocks := snd ?m\<rparr>), snd (client_send_words (configClient demo_server) (fst ?m) quiet_net))"
    by (simp add: sendConfigData_def bind_io_def client_send_words_def client_send_def quiet_net_def
      split_beta)
  then obtain n srv' w' where e: "sendConfigData demo_server quiet_net = (Done (n, srv'), w')"
    and n: "n = 4 * int (length (fst ?m))" by metis
  have "n \<noteq> -1" using n by simp
  moreover have "c_port (configClient demo_server) = 0x4268" "tx quiet_net = []"
    by (simp_all add: demo_server_def quiet_net_def)
  ultimately show ?thesis using sendConfigData_effect [OF e] e by auto
qed

end
