(* ===== verification/OdileReceive.thy ===== *)
theory OdileReceive
  imports OdileServer
begin

text \<open>
  Properties of the synchronous receive path of \<open>ODILEServer\<close>: what \<open>recieveData\<close> appends to the
  caller's vector, when \<open>waitForDone\<close> returns true or false, and that a text file of words in
  hexadecimal is sent as those words.
\<close>

subsection \<open>One receive\<close>

lemma server_block_cases:
  assumes "with_object (udp_server_new addr port) udp_server_delete body w = (r, w')"
  obtains (throws) e where "r = Throws e" "resources w' = resources w" "tx w' = tx w" "rx w' = rx w"
      "clock w' = clock w"
  | (body) s w1 r2 w2 where "body s w1 = (r2, w2)" "r = r2" "tx w1 = tx w" "rx w1 = rx w"
      "clock w1 = clock w" "writable w1 = writable w" "tx w' = tx w2" "rx w' = rx w2" "clock w' = clock w2"
proof (cases rule: udp_server_new_cases [of addr port w])
  case (1 e w1)
  with assms that(1) show thesis by (auto simp: with_object_def)
next
  case 2
  let ?s = "\<lparr>s_socket = next_fd w, s_port = port, s_addr = addr\<rparr>"
  let ?w1 = "w\<lparr>next_fd := next_fd w + 1, sockets := next_fd w # sockets w, addrinfos := addrinfos w + 1\<rparr>"
  obtain r2 w2 where b: "body ?s ?w1 = (r2, w2)" by (cases "body ?s ?w1")
  have "r = r2 \<and> tx w' = tx w2 \<and> rx w' = rx w2 \<and> clock w' = clock w2"
    using assms b 2 by (cases r2) (auto simp: with_object_def udp_server_delete_def)
  with b that(2) [of ?s ?w1 r2 w2] show thesis by simp
qed

lemma take_words_of_bytes:
  "n = int (length bs) \<Longrightarrow> take (nat (div_c n 4)) (words_of_bytes bs) = words_of_bytes bs"
  by (simp add: div_c_def sgn_if nat_div_distrib)

text \<open>The datagram an event delivers, if any.\<close>

fun event_payload :: "rx_event \<Rightarrow> byte list option" where
  "event_payload (Queued d) = Some d"
| "event_payload (Late t d) = Some d"
| "event_payload _ = None"

definition received :: "rx_event list \<Rightarrow> (int \<times> byte list) \<Rightarrow> bool" where
  "received es p \<longleftrightarrow> p = (-1, []) \<or>
     (\<exists>e d. e \<in> set es \<and> event_payload e = Some d \<and>
        p = (int (length (take BUFFSIZE d)), take BUFFSIZE d))"

lemma recv_events_received: "recv_events BUFFSIZE es = (Done p, es') \<Longrightarrow> received es p"
  by (induction BUFFSIZE es rule: recv_events.induct) (auto simp: received_def)

lemma timed_recv_received:
  "timed_recv s BUFFSIZE t w = (Done p, w') \<Longrightarrow> received (rx w) p"
  by (cases "rx w"; cases "hd (rx w)")
    (auto simp: timed_recv_def received_def Let_def split: prod.splits if_splits)

lemma recv_quiet:
  "timed_recv s n t w = (r, w') \<Longrightarrow> tx w' = tx w \<and> clock w' = clock w"
  "server_recv s n w = (r, w') \<Longrightarrow> tx w' = tx w \<and> clock w' = clock w"
  by (auto simp: timed_recv_def server_recv_def Let_def split: prod.splits if_splits)

definition receive_call :: "int \<Rightarrow> udp_server \<Rightarrow> (int \<times> byte list) io" where
  "receive_call timeout_ms s =
     (if 0 < timeout_ms then timed_recv s BUFFSIZE (nat timeout_ms) else server_recv s BUFFSIZE)"

lemma receive_call_received:
  "receive_call t s w = (Done p, w') \<Longrightarrow> received (rx w) p"
  by (auto simp: receive_call_def server_recv_def timed_recv_received
    intro: recv_events_received split: if_splits prod.splits)

lemma receive_call_quiet: "receive_call t s w = (r, w') \<Longrightarrow> tx w' = tx w \<and> clock w' = clock w"
  using recv_quiet by (auto simp: receive_call_def split: if_splits)

lemma receive_call_resources: "resources (snd (receive_call t s w)) = resources w"
  by (auto simp: receive_call_def timed_recv_resources server_recv_def split: prod.splits)

definition words_received :: "bool \<Rightarrow> byte list \<Rightarrow> u32 list" where
  "words_received swap_bytes buf =
     (let ws = words_of_bytes buf in if swap_bytes then map bswap_32 ws else ws)"

lemma length_words_received: "length (words_received sw buf) = length buf div 4"
  by (simp add: words_received_def Let_def)

lemma recieveData_block:
  "recieveData srv (Some ws) addr port t sw =
     with_object (udp_server_new (if addr = NULL_IPADDRESS then server_address srv else addr) port)
       udp_server_delete
       (\<lambda>s. bind_io (receive_call t s) (\<lambda>(len, buf).
          ret_io (div_c len 4, Some (ws @ take (nat (div_c len 4)) (words_received sw buf)))))"
  unfolding recieveData_def receive_call_def words_received_def swapBufferBytes_def Let_def option.case
  by (rule refl)

lemma receive_body_resources:
  "resources (snd (bind_io (receive_call t s) (\<lambda>(len, buf). ret_io (f len buf)) w)) = resources w"
  using receive_call_resources [of t s w]
  by (auto simp: bind_io_def split: prod.splits outcome.splits)

lemma div_c_nat: "div_c (int n) 4 = int (n div 4)"
  by (cases n) (simp_all add: div_c_def zdiv_int)

lemma div_c_minus_1: "div_c (-1) 4 = 0"
  by (simp add: div_c_def)

lemma recieveData_cases:
  assumes "recieveData srv (Some ws) addr port t sw w = (Done (n, data), w')"
  obtains d where "received (rx w) (int (length d), d) \<or> d = []" "length d \<le> BUFFSIZE"
    "n = int (length d div 4)" "data = Some (ws @ words_received sw d)"
    "tx w' = tx w" "clock w' = clock w"
proof -
  obtain s w1 w2 len buf where b: "receive_call t s w1 = (Done (len, buf), w2)" "tx w1 = tx w"
      "rx w1 = rx w" "clock w1 = clock w" "tx w' = tx w2" "clock w' = clock w2" "n = div_c len 4"
      "data = Some (ws @ take (nat n) (words_received sw buf))"
    using assms unfolding recieveData_block
    by (elim server_block_cases) (auto simp: bind_io_eq_Done)
  have "tx w' = tx w" "clock w' = clock w" using receive_call_quiet [OF b(1)] b by simp_all
  moreover have r: "received (rx w) (len, buf)" using receive_call_received b by fastforce
  moreover have l: "len = int (length buf) \<or> len = -1 \<and> buf = []" "length buf \<le> BUFFSIZE"
    using r by (auto simp: received_def)
  moreover have n: "n = int (length buf div 4)" using l(1) b(7) div_c_nat div_c_minus_1 by auto
  moreover have "take (nat n) (words_received sw buf) = words_received sw buf"
    using n by (simp add: words_received_def Let_def)
  ultimately show thesis using that [of buf] b(8) by metis
qed

lemma recieveData_resources:
  assumes "recieveData srv data addr port t sw w = (r, w')" and "r = Done a \<or> r = Throws e"
  shows "resources w' = resources w"
proof (cases data)
  case (Some ws)
  show ?thesis
    by (rule server_class.block_no_leak [OF receive_body_resources
      assms(1) [unfolded Some recieveData_block] assms(2)])
qed (use assms in \<open>simp add: recieveData_def\<close>)

text \<open>
  C20. A receive that returns appends whole words to the caller's vector and returns how many: at most
  512 words, the words of a datagram the network delivered (cut to 2048 bytes; byte-swapped on
  demand), or nothing. It sends nothing and gives back its socket. A failed receive is reported
  as 0 words, not as an error: the result is never negative for a vector that is there.
\<close>

theorem recieveData_effect:
  assumes "recieveData srv (Some ws) addr port t sw w = (Done (n, data), w')"
  shows "\<exists>us. data = Some (ws @ us) \<and> n = int (length us) \<and> length us \<le> 512 \<and>
     tx w' = tx w \<and> resources w' = resources w \<and>
     (us \<noteq> [] \<longrightarrow> (\<exists>e \<in> set (rx w). \<exists>d. event_payload e = Some d \<and>
        us = (let ws' = words_of_bytes (take 2048 d) in if sw then map bswap_32 ws' else ws')))"
proof -
  obtain d where d: "received (rx w) (int (length d), d) \<or> d = []" "length d \<le> BUFFSIZE"
    "n = int (length d div 4)" "data = Some (ws @ words_received sw d)" "tx w' = tx w"
    using assms by (rule recieveData_cases)
  show ?thesis
  proof (intro exI [of _ "words_received sw d"] conjI impI)
    show "resources w' = resources w" using recieveData_resources [OF assms] by blast
    assume "words_received sw d \<noteq> []"
    then have "d \<noteq> []" by (cases sw) (auto simp: words_received_def)
    with d(1) obtain e d' where "e \<in> set (rx w)" "event_payload e = Some d'" "d = take 2048 d'"
      by (auto simp: received_def BUFFSIZE_def)
    then show "\<exists>e \<in> set (rx w). \<exists>d'. event_payload e = Some d' \<and> words_received sw d =
        (let ws' = words_of_bytes (take 2048 d') in if sw then map bswap_32 ws' else ws')"
      unfolding words_received_def by blast
  qed (use d in \<open>auto simp: words_received_def BUFFSIZE_def Let_def\<close>)
qed

text \<open>One datagram of six bytes: one word and a rest that is dropped.\<close>

theorem recieveData_effect_witness:
  "\<exists>w'. recieveData demo_server (Some [7]) NULL_IPADDRESS COMMAND_PORT (-1) True
      (quiet_net\<lparr>rx := [Queued [0, 0x44, 0x4F, 0x4E, 1, 2]]\<rparr>) = (Done (1, Some [7, 0x00444F4E]), w') \<and>
     resources w' = ([], 0)"
proof -
  let ?w = "quiet_net\<lparr>rx := [Queued [0, 0x44, 0x4F, 0x4E, 1, 2]]\<rparr>"
  obtain w' where e: "recieveData demo_server (Some [7]) NULL_IPADDRESS COMMAND_PORT (-1) True ?w =
      (Done (1, Some [7, 0x00444F4E]), w')"
    by (simp add: recieveData_def with_object_def udp_server_new_def open_socket_def quiet_net_def
      bind_io_def server_recv_def BUFFSIZE_def div_c_def swapBufferBytes_def bswap_32_def Let_def)
  with recieveData_effect [OF e] show ?thesis by (auto simp: resources_def quiet_net_def)
qed

subsection \<open>What is left of the network after a receive\<close>

definition payloads :: "rx_event list \<Rightarrow> byte list set" where
  "payloads es = {d. \<exists>e \<in> set es. event_payload e = Some d}"

lemma payloads_simps [simp]:
  "payloads [] = {}" "payloads (e # es) = set_option (event_payload e) \<union> payloads es"
  "payloads (es @ es') = payloads es \<union> payloads es'"
  by (auto simp: payloads_def)

lemma payloads_recv_events: "payloads (snd (recv_events n es)) \<subseteq> payloads es"
  by (induction n es rule: recv_events.induct) auto

lemma payloads_left_over: "payloads (left_over t e) \<subseteq> payloads [e]"
  by (cases e) (auto simp: left_over_def)

lemma payloads_timed_recv: "payloads (rx (snd (timed_recv s n t w))) \<subseteq> payloads (rx w)"
proof (cases "rx w")
  case Nil
  then show ?thesis by (simp add: timed_recv_def left_over_def Let_def split: prod.splits)
next
  case (Cons e es)
  have "payloads (left_over t' e) \<subseteq> set_option (event_payload e) \<union> payloads es" for t'
    using payloads_left_over [of t' e] by auto
  with Cons show ?thesis by (auto simp: timed_recv_def Let_def split: prod.splits)
qed

lemma payloads_receive_call: "receive_call t s w = (r, w') \<Longrightarrow> payloads (rx w') \<subseteq> payloads (rx w)"
  using payloads_timed_recv [of s BUFFSIZE "nat t" w] payloads_recv_events [of BUFFSIZE "rx w"]
  by (auto simp: receive_call_def server_recv_def split: if_splits prod.splits)

lemma payloads_recieveData:
  assumes "recieveData srv (Some ws) addr port t sw w = (Done r, w')"
  shows "payloads (rx w') \<subseteq> payloads (rx w)"
  using assms unfolding recieveData_block
  by (elim server_block_cases) (use payloads_receive_call in \<open>fastforce simp: bind_io_eq_Done\<close>)+

subsection \<open>Waiting for the board\<close>

text \<open>A datagram that holds the answer \<open>DON\<close> in one of its words, in network order.\<close>

definition is_done :: "byte list \<Rightarrow> bool" where
  "is_done d \<longleftrightarrow> (\<exists>x \<in> set (words_of_bytes (take 2048 d)). bswap_32 x AND 0x00FFFFFF = 0x00444F4E)"

lemma is_done_words: "(\<exists>x \<in> set (words_received True (take BUFFSIZE d)). is_done_word x) \<longleftrightarrow> is_done d"
  by (simp add: is_done_def is_done_word_def words_received_def BUFFSIZE_def)

lemma received_done:
  assumes "received (rx w) (int (length d), d) \<or> d = []" and "x \<in> set (words_received True d)" and "is_done_word x"
  shows "\<exists>d' \<in> payloads (rx w). is_done d'"
proof -
  have "d \<noteq> []" using assms(2) by (auto simp: words_received_def)
  with assms(1) obtain d' where "d' \<in> payloads (rx w)" "d = take BUFFSIZE d'"
    by (auto simp: received_def payloads_def)
  with assms(2,3) is_done_words show ?thesis by blast
qed

lemma clock_gettime_ms_Done:
  "clock_gettime_ms w = (Done t, w') \<longleftrightarrow> (\<exists>ns. clock w = ns # clock w' \<and> t = ns div 1000 div 1000 \<and>
     w' = w\<lparr>clock := tl (clock w)\<rparr>)"
  by (auto simp: clock_gettime_ms_def split: list.splits)

text \<open>One round of the loop, when it completes.\<close>

lemma wait_round:
  assumes "wait_loop (Suc k) srv t start buffer w = (Done r, w')"
  obtains d w1 ns w2 where "received (rx w) (int (length d), d) \<or> d = []" "payloads (rx w2) \<subseteq> payloads (rx w)"
    "tx w2 = tx w" "clock w = ns # clock w2"
    "(if 0 < int (length d div 4) \<and> (\<exists>x \<in> set (buffer @ words_received True d). is_done_word x) then ret_io True
      else if 0 < t \<and> t < ns div 1000 div 1000 - start then ret_io False
      else wait_loop k srv t start (buffer @ words_received True d)) w2 = (Done r, w')"
proof -
  obtain n data w1 where 1: "recieveData srv (Some buffer) NULL_IPADDRESS COMMAND_PORT (div_c t 10) True w = (Done (n, data), w1)"
    and "bind_io clock_gettime_ms (\<lambda>currtime.
          let buffer' = (case data of Some b \<Rightarrow> b | None \<Rightarrow> [])
          in if 0 < n \<and> (\<exists>x \<in> set buffer'. is_done_word x) then ret_io True
             else if 0 < t \<and> t < currtime - start then ret_io False
             else wait_loop k srv t start buffer') w1 = (Done r, w')"
    using assms unfolding wait_loop.simps recieveData_any_def by (auto simp: bind_io_eq_Done)
  then obtain ns w2 where 2: "clock w1 = ns # clock w2" "w2 = w1\<lparr>clock := tl (clock w1)\<rparr>"
    and 3: "(let buffer' = (case data of Some b \<Rightarrow> b | None \<Rightarrow> [])
          in if 0 < n \<and> (\<exists>x \<in> set buffer'. is_done_word x) then ret_io True
             else if 0 < t \<and> t < ns div 1000 div 1000 - start then ret_io False
             else wait_loop k srv t start buffer') w2 = (Done r, w')"
    unfolding bind_io_eq_Done clock_gettime_ms_Done by auto
  obtain d where d: "received (rx w) (int (length d), d) \<or> d = []" "n = int (length d div 4)"
    "data = Some (buffer @ words_received True d)" "tx w1 = tx w" "clock w1 = clock w"
    using 1 by (rule recieveData_cases)
  have "payloads (rx w2) \<subseteq> payloads (rx w)" "tx w2 = tx w" "clock w = ns # clock w2"
    using payloads_recieveData [OF 1] 2 d by simp_all
  with d that 3 show thesis by (simp add: Let_def)
qed

lemma wait_loop_sound:
  assumes "wait_loop k srv t start buffer w = (Done True, w')" and "\<forall>x \<in> set buffer. \<not> is_done_word x"
  shows "\<exists>d \<in> payloads (rx w). is_done d"
  using assms
proof (induction k arbitrary: buffer w)
  case (Suc k)
  from Suc.prems(1) show ?case
  proof (rule wait_round)
    fix d ns w2
    assume d: "received (rx w) (int (length d), d) \<or> d = []" and p: "payloads (rx w2) \<subseteq> payloads (rx w)"
      and r: "(if 0 < int (length d div 4) \<and> (\<exists>x \<in> set (buffer @ words_received True d). is_done_word x) then ret_io True
      else if 0 < t \<and> t < ns div 1000 div 1000 - start then ret_io False
      else wait_loop k srv t start (buffer @ words_received True d)) w2 = (Done True, w')"
    show ?thesis
    proof (cases "\<exists>x \<in> set (words_received True d). is_done_word x")
      case True
      then show ?thesis using received_done [OF d] by blast
    next
      case False
      with Suc.prems(2) have nd: "\<forall>x \<in> set (buffer @ words_received True d). \<not> is_done_word x" by auto
      with r have "wait_loop k srv t start (buffer @ words_received True d) w2 = (Done True, w')"
        by (auto split: if_splits)
      with nd Suc.IH p show ?thesis by blast
    qed
  qed
qed simp

lemma waitForDone_eq_Done:
  "waitForDone srv t w = (Done r, w') \<longleftrightarrow> (\<exists>ns cs. clock w = ns # cs \<and>
     wait_loop (length cs) srv t (ns div 1000 div 1000) [] (w\<lparr>clock := cs\<rparr>) = (Done r, w'))"
  by (auto simp: waitForDone_def bind_io_def clock_gettime_ms_def split: list.splits)

text \<open>
  \<open>waitForDone\<close> returns true only if the board answered: one of the datagrams the network delivered
  holds a word whose lower three bytes are the letters DON.
\<close>

theorem waitForDone_sound:
  assumes "waitForDone srv timeout_ms w = (Done True, w')"
  shows "\<exists>d \<in> payloads (rx w). \<exists>x \<in> set (words_of_bytes (take 2048 d)).
    bswap_32 x AND 0x00FFFFFF = 0x00444F4E"
proof -
  obtain ns cs where "wait_loop (length cs) srv timeout_ms (ns div 1000 div 1000) [] (w\<lparr>clock := cs\<rparr>) =
      (Done True, w')"
    using assms by (auto simp: waitForDone_eq_Done)
  then have "\<exists>d \<in> payloads (rx (w\<lparr>clock := cs\<rparr>)). is_done d" by (rule wait_loop_sound) simp
  then show ?thesis by (simp add: is_done_def)
qed

lemma wait_loop_no_timeout:
  assumes "wait_loop k srv t start buffer w = (Done r, w')"
    and "\<forall>ns \<in> set (clock w). 0 < t \<longrightarrow> ns div 1000 div 1000 - start \<le> t"
  shows "r"
  using assms
proof (induction k arbitrary: buffer w)
  case (Suc k)
  from Suc.prems(1) show ?case
  proof (rule wait_round)
    fix d ns w2
    assume c: "clock w = ns # clock w2"
      and r: "(if 0 < int (length d div 4) \<and> (\<exists>x \<in> set (buffer @ words_received True d). is_done_word x) then ret_io True
      else if 0 < t \<and> t < ns div 1000 div 1000 - start then ret_io False
      else wait_loop k srv t start (buffer @ words_received True d)) w2 = (Done r, w')"
    have "\<not> (0 < t \<and> t < ns div 1000 div 1000 - start)" using Suc.prems(2) c by auto
    moreover have "\<forall>ns \<in> set (clock w2). 0 < t \<longrightarrow> ns div 1000 div 1000 - start \<le> t"
      using Suc.prems(2) c by simp
    ultimately show ?thesis using r Suc.IH by (auto split: if_splits)
  qed
qed simp

text \<open>
  C40. The time limit of \<open>waitForDone\<close> is measured with the nanosecond field of the clock only, which is
  always below a second. With a limit of 999 ms or more (the default is 1000), or without a limit,
  the function never returns false: when no answer comes, it does not return.
\<close>

theorem waitForDone_never_times_out:
  assumes "\<forall>ns \<in> set (clock w). 0 \<le> ns \<and> ns < 1000000000" and "timeout_ms \<le> 0 \<or> 999 \<le> timeout_ms"
  shows "fst (waitForDone srv timeout_ms w) \<noteq> Done False"
proof
  assume "fst (waitForDone srv timeout_ms w) = Done False"
  then obtain w' where "waitForDone srv timeout_ms w = (Done False, w')" by (metis prod.collapse)
  then obtain ns cs where c: "clock w = ns # cs"
    and l: "wait_loop (length cs) srv timeout_ms (ns div 1000 div 1000) [] (w\<lparr>clock := cs\<rparr>) = (Done False, w')"
    by (auto simp: waitForDone_eq_Done)
  have "n div 1000 div 1000 \<le> 999" if "n \<in> set (clock w)" for n using assms(1) that by fastforce
  moreover have "0 \<le> ns div 1000 div 1000" using assms(1) c by (simp add: pos_imp_zdiv_nonneg_iff)
  ultimately have "n div 1000 div 1000 - ns div 1000 div 1000 \<le> 999" if "n \<in> set cs" for n
    using that c by fastforce
  then have "\<forall>n \<in> set (clock (w\<lparr>clock := cs\<rparr>)). 0 < timeout_ms \<longrightarrow>
      n div 1000 div 1000 - ns div 1000 div 1000 \<le> timeout_ms"
    using assms(2) by fastforce
  with l show False using wait_loop_no_timeout by blast
qed

theorem waitForDone_never_times_out_witness:
  "let w = quiet_net\<lparr>clock := [5000000, 990000000, 10000000]\<rparr>
   in (\<forall>ns \<in> set (clock w). 0 \<le> ns \<and> ns < 1000000000) \<and>
      fst (waitForDone demo_server 1000 w) \<noteq> Done False"
  using waitForDone_never_times_out [of "quiet_net\<lparr>clock := [5000000, 990000000, 10000000]\<rparr>" 1000 demo_server]
  by simp

subsection \<open>A conversation with the board\<close>

text \<open>The socket of a receive can be opened: the address resolves and the port can be bound.\<close>

definition can_listen :: "ODILEServer \<Rightarrow> int \<Rightarrow> net \<Rightarrow> bool" where
  "can_listen srv port w \<longleftrightarrow> gai_ok w (server_address srv) (dec_int port) \<and>
     socket_ok w (server_address srv) \<and> bind_ok w (server_address srv) port"

lemma can_listen_simps [simp]:
  "can_listen srv port (w\<lparr>tx := a\<rparr>) = can_listen srv port w"
  "can_listen srv port (w\<lparr>rx := b\<rparr>) = can_listen srv port w"
  "can_listen srv port (w\<lparr>clock := c\<rparr>) = can_listen srv port w"
  "can_listen srv port (w\<lparr>next_fd := d\<rparr>) = can_listen srv port w"
  "can_listen srv port (w\<lparr>sockets := e\<rparr>) = can_listen srv port w"
  "can_listen srv port (w\<lparr>addrinfos := f\<rparr>) = can_listen srv port w"
  by (simp_all add: can_listen_def)

lemma recieveData_blocking:
  assumes "can_listen srv port w" and "t \<le> 0" and "rx w = Queued d # es"
  shows "recieveData srv (Some ws) NULL_IPADDRESS port t sw w =
    (Done (int (length (take BUFFSIZE d) div 4), Some (ws @ words_received sw (take BUFFSIZE d))),
     w\<lparr>rx := es, next_fd := next_fd w + 1\<rparr>)"
proof -
  have "take (length (take BUFFSIZE d) div 4) (words_received sw (take BUFFSIZE d)) =
      words_received sw (take BUFFSIZE d)"
    by (simp add: words_received_def Let_def)
  then show ?thesis
    using assms unfolding recieveData_block
    by (simp add: with_object_def udp_server_new_def open_socket_def can_listen_def bind_io_def
      receive_call_def server_recv_def div_c_nat udp_server_delete_def Let_def)
qed

lemma wait_loop_answered:
  assumes "can_listen srv COMMAND_PORT w" and "t \<le> 0" and "rx w = map Queued pre @ Queued d # es"
    and "\<forall>p \<in> set pre. \<not> is_done p" and "is_done d" and "clock w = cs @ cs'"
    and "length cs = Suc (length pre)" and "length pre < k" and "\<forall>x \<in> set buffer. \<not> is_done_word x"
  shows "wait_loop k srv t start buffer w =
    (Done True, w\<lparr>rx := es, clock := cs', next_fd := next_fd w + 1 + int (length pre)\<rparr>)"
  using assms
proof (induction pre arbitrary: k w cs buffer)
  case Nil
  obtain c where "cs = [c]" using Nil.prems(7) by (cases cs) auto
  moreover obtain k' where "k = Suc k'" using Nil.prems(8) by (cases k) auto
  moreover have "\<exists>x \<in> set (words_received True (take BUFFSIZE d)). is_done_word x"
    using Nil.prems(5) is_done_words by blast
  moreover from calculation(3) have "0 < length (take BUFFSIZE d) div 4"
    by (metis length_words_received length_pos_if_in_set)
  moreover have "div_c t 10 \<le> 0" using Nil.prems(2) by (auto simp: div_c_def sgn_if)
  ultimately show ?case using Nil.prems
    by (auto simp: recieveData_any_def bind_io_def recieveData_blocking clock_gettime_ms_def Let_def)
next
  case (Cons p pre)
  obtain c cs1 where cs: "cs = c # cs1" using Cons.prems(7) by (cases cs) auto
  obtain k' where k: "k = Suc k'" using Cons.prems(8) by (cases k) auto
  have nd: "\<forall>x \<in> set (words_received True (take BUFFSIZE p)). \<not> is_done_word x"
    using Cons.prems(4) is_done_words by auto
  have t: "div_c t 10 \<le> 0" using Cons.prems(2) by (auto simp: div_c_def sgn_if)
  let ?b = "buffer @ words_received True (take BUFFSIZE p)"
  let ?w = "w\<lparr>rx := map Queued pre @ Queued d # es, next_fd := next_fd w + 1, clock := cs1 @ cs'\<rparr>"
  have "wait_loop k srv t start buffer w = wait_loop k' srv t start ?b ?w"
    using Cons.prems nd t cs k
    by (auto simp: recieveData_any_def bind_io_def recieveData_blocking clock_gettime_ms_def Let_def)
  also have "\<dots> = (Done True, ?w\<lparr>rx := es, clock := cs', next_fd := next_fd ?w + 1 + int (length pre)\<rparr>)"
    by (rule Cons.IH) (use Cons.prems nd cs k in auto)
  finally show ?case by (simp add: add.commute add.left_commute)
qed

text \<open>
  Without a time limit \<open>waitForDone\<close> does return once the board answers: datagrams without the
  answer are skipped, the first one with it ends the wait with true, later ones stay queued, and
  nothing is sent.
\<close>

theorem waitForDone_answered:
  assumes "can_listen srv COMMAND_PORT w" and "timeout_ms \<le> 0"
    and "rx w = map Queued pre @ Queued d # es" and "\<forall>p \<in> set pre. \<not> is_done p" and "is_done d"
    and "clock w = cs @ cs'" and "length cs = length pre + 2"
  shows "waitForDone srv timeout_ms w =
    (Done True, w\<lparr>rx := es, clock := cs', next_fd := next_fd w + 1 + int (length pre)\<rparr>)"
proof -
  obtain c cs1 where cs: "cs = c # cs1" "length cs1 = Suc (length pre)" using assms(7) by (cases cs) auto
  have "wait_loop (length (cs1 @ cs')) srv timeout_ms (c div 1000 div 1000) [] (w\<lparr>clock := cs1 @ cs'\<rparr>) =
    (Done True, (w\<lparr>clock := cs1 @ cs'\<rparr>)\<lparr>rx := es, clock := cs', next_fd := next_fd (w\<lparr>clock := cs1 @ cs'\<rparr>) + 1 + int (length pre)\<rparr>)"
    by (rule wait_loop_answered) (use assms cs in auto)
  then show ?thesis using assms(6) cs by (simp add: waitForDone_eq_Done)
qed

text \<open>The answer of the board to a command, as one word.\<close>

definition DON_datagram :: "byte list" where
  "DON_datagram = [0, 0x44, 0x4F, 0x4E]"

lemma is_done_DON: "is_done DON_datagram"
  by (simp add: is_done_def DON_datagram_def bswap_32_def)

theorem waitForDone_answered_witness:
  "fst (waitForDone demo_server (-1)
     (quiet_net\<lparr>rx := [Queued [1, 2, 3, 4, 5], Queued DON_datagram], clock := [5, 6, 7]\<rparr>)) = Done True"
proof -
  have "\<not> is_done [1, 2, 3, 4, 5]" by (simp add: is_done_def bswap_32_def)
  then show ?thesis
    using waitForDone_answered [of demo_server "quiet_net\<lparr>rx := [Queued [1, 2, 3, 4, 5], Queued DON_datagram], clock := [5, 6, 7]\<rparr>"
      "-1" "[[1, 2, 3, 4, 5]]" DON_datagram "[]" "[5, 6, 7]" "[]"] is_done_DON
    by (simp add: quiet_net_def can_listen_def)
qed

theorem waitForDone_sound_witness:
  "fst (waitForDone demo_server (-1) (quiet_net\<lparr>rx := [Queued DON_datagram], clock := [5, 6]\<rparr>)) = Done True \<and>
   (\<exists>x \<in> set (words_of_bytes DON_datagram). bswap_32 x AND 0x00FFFFFF = 0x00444F4E)"
proof -
  let ?w = "quiet_net\<lparr>rx := [Queued DON_datagram], clock := [5, 6]\<rparr>"
  have "\<exists>w'. waitForDone demo_server (-1) ?w = (Done True, w')"
    by (simp add: waitForDone_eq_Done recieveData_any_def bind_io_def recieveData_blocking can_listen_def
      quiet_net_def div_c_def clock_gettime_ms_def Let_def words_received_def DON_datagram_def
      is_done_word_def bswap_32_def BUFFSIZE_def)
  then obtain w' where w: "waitForDone demo_server (-1) ?w = (Done True, w')" ..
  have "take 2048 DON_datagram = DON_datagram" by (simp add: DON_datagram_def)
  with w waitForDone_sound [OF w] show ?thesis by auto
qed

subsection \<open>\<open>receiveData\<close>\<close>

text \<open>
  The two correctly spelled wrappers in the header have no return statement, and the first one does
  not pass on \<open>swap_bytes\<close>. They cannot return normally; no code calls them.
\<close>

definition receiveData :: "ODILEServer \<Rightarrow> u32 list option \<Rightarrow> string \<Rightarrow> int \<Rightarrow> int \<Rightarrow> bool \<Rightarrow> (int \<times> u32 list option) io" where
  "receiveData srv data serv_address port timeout_ms swap_bytes =
     bind_io (recieveData srv data serv_address port timeout_ms True) (\<lambda>_ w. (UB ''missing return'', w))"

definition receiveData_any :: "ODILEServer \<Rightarrow> u32 list option \<Rightarrow> int \<Rightarrow> int \<Rightarrow> bool \<Rightarrow> (int \<times> u32 list option) io" where
  "receiveData_any srv data port timeout_ms swap_bytes =
     bind_io (recieveData_any srv data port timeout_ms swap_bytes) (\<lambda>_ w. (UB ''missing return'', w))"

theorem receiveData_never_returns:
  "fst (receiveData srv data serv_address port timeout_ms swap w) \<noteq> Done x"
  "fst (receiveData_any srv data port timeout_ms swap w) \<noteq> Done x"
  by (auto simp: receiveData_def receiveData_any_def bind_io_def split: prod.split outcome.split)

end
