(* ===== verification/Flash.thy ===== *)
theory Flash
  imports OdileReceive "HOL-Library.Sublist"
begin

text \<open>
  Access to the EPCQ flash memory of the board: \<open>writeEPCQ\<close>, \<open>readEPCQ\<close>, \<open>writeFlashConfig\<close> and
  \<open>writeFirmware\<close>. Every operation is a conversation on two UDP ports; the model composes the
  commands, waits, data transfers and read-backs in the order of the code, and the loops count
  down the pages that are left.

  The theory shows which datagrams an operation can send at all, whatever the network does
  (\<open>sends\<close>), that a successful write has read back every page it wrote, that the write does succeed
  when the board answers, how configuration messages are cut into blocks with headers and that
  this loses nothing, and which bytes \<open>readEPCQ\<close> leaves in its output file.
\<close>

subsection \<open>Constants\<close>

definition PAGE_SIZE_BYTES :: nat where "PAGE_SIZE_BYTES = 256"
definition PAGE_SIZE_WORDS :: nat where "PAGE_SIZE_WORDS = PAGE_SIZE_BYTES div 4"
definition SECTOR_BYTES :: nat where "SECTOR_BYTES = 65536"

lemmas epcq_consts = PAGE_SIZE_BYTES_def PAGE_SIZE_WORDS_def SECTOR_BYTES_def

definition CONFIG_PAGE_ADDRESS :: "u32 list" where
  "CONFIG_PAGE_ADDRESS = [0x01F60000, 0x01F70000, 0x01F80000, 0x01F90000, 0x01FA0000,
                          0x01FB0000, 0x01FC0000, 0x01FD0000, 0x01FE0000, 0x01FF0000]"

subsection \<open>Writing\<close>

text \<open>\<open>sendCommand(cmd, prefix, secondWord); done = waitForDone(cmd, -1);\<close>\<close>

definition command_and_wait :: "ODILEServer \<Rightarrow> string \<Rightarrow> int \<Rightarrow> u32 \<Rightarrow> bool io" where
  "command_and_wait srv cmd cmd_prefix secondWord =
     bind_io (sendCommand srv cmd cmd_prefix secondWord) (\<lambda>_. waitForDone srv (-1))"

text \<open>
  One page: set the address, fill the write buffer, write, read back into the empty \<open>read_page\<close>.
  The result tells whether \<open>read_page == write_page\<close>.
\<close>

definition write_and_verify :: "ODILEServer \<Rightarrow> u32 \<Rightarrow> u32 list \<Rightarrow> bool io" where
  "write_and_verify srv curr_address write_page =
     bind_io (command_and_wait srv ''ESA'' 0 curr_address) (\<lambda>_.
     bind_io (sendData srv write_page FIRMWARE_PORT) (\<lambda>_.
     bind_io (command_and_wait srv ''EWR'' (int PAGE_SIZE_WORDS) 0xFFFFFFFF) (\<lambda>_.
     bind_io (sendCommand srv ''ERD'' (int PAGE_SIZE_WORDS) 0xFFFFFFFF) (\<lambda>_.
     bind_io (recieveData_any srv (Some []) FIRMWARE_PORT (-1) False) (\<lambda>(_, read_page).
       ret_io (read_page = Some write_page))))))"

definition fill_page :: "u32 list \<Rightarrow> nat \<Rightarrow> u32 list" where
  "fill_page data data_idx =
     map (\<lambda>word_idx. if length data \<le> data_idx + word_idx then 0xFFFFFFFF else data ! (data_idx + word_idx))
       [0..<PAGE_SIZE_WORDS]"

text \<open>The page loop of \<open>writeEPCQ\<close>: pages left, \<open>data_idx\<close>, \<open>curr_address\<close>, \<open>words_written\<close>.\<close>

fun writeEPCQ_loop :: "nat \<Rightarrow> ODILEServer \<Rightarrow> u32 list \<Rightarrow> nat \<Rightarrow> u32 \<Rightarrow> int \<Rightarrow> int io" where
  "writeEPCQ_loop 0 srv data data_idx curr_address words_written = ret_io words_written"
| "writeEPCQ_loop (Suc k) srv data data_idx curr_address words_written =
     bind_io (write_and_verify srv curr_address (fill_page data data_idx)) (\<lambda>same.
       if \<not> same then ret_io (-2)
       else writeEPCQ_loop k srv data (data_idx + PAGE_SIZE_WORDS)
              (curr_address + of_nat PAGE_SIZE_BYTES) (words_written + int PAGE_SIZE_WORDS))"

text \<open>\<open>int bytes_to_write = data.size()*4\<close> wraps to 32 bits; the division is that of \<open>int\<close>.\<close>

definition bytes_to_write :: "u32 list \<Rightarrow> int" where
  "bytes_to_write data = sint (word_of_nat (length data * 4) :: u32)"

definition pages_to_write :: "u32 list \<Rightarrow> int" where
  "pages_to_write data = div_c (bytes_to_write data) (int PAGE_SIZE_BYTES) + 1"

definition writeEPCQ :: "ODILEServer \<Rightarrow> u32 list \<Rightarrow> u32 \<Rightarrow> bool \<Rightarrow> int io" where
  "writeEPCQ srv data start_address perform_erase =
     (if int SECTOR_BYTES < bytes_to_write data then ret_io (-1)
      else bind_io (command_and_wait srv ''ERB'' 0 0xFFFFFFFF) (\<lambda>_.
           bind_io (command_and_wait srv ''ESA'' 0 start_address) (\<lambda>_.
           bind_io (if perform_erase then command_and_wait srv ''ESE'' 0 0xFFFFFFFF else ret_io True) (\<lambda>_.
             writeEPCQ_loop (nat (pages_to_write data)) srv data 0 start_address 0))))"

subsection \<open>Configuration pages\<close>

definition config_header :: "u8 \<Rightarrow> u32" where
  "config_header block_size = bswap_32 (0xCD000000 + push_bit 16 (ucast block_size) + 0x4268)"

definition vector_insert :: "nat \<Rightarrow> 'a \<Rightarrow> 'a list \<Rightarrow> 'a list" where
  "vector_insert i x xs = take i xs @ x # drop i xs"

text \<open>The header loop: \<open>i\<close> is the block index, \<open>k\<close> the number of blocks left.\<close>

fun insert_headers :: "nat \<Rightarrow> nat \<Rightarrow> nat \<Rightarrow> u32 list \<Rightarrow> u32 list" where
  "insert_headers 0 i nwords msg = msg"
| "insert_headers (Suc k) i nwords msg =
     (let block_size = (if 0 < k then 63 else word_of_nat (nwords mod 63))
      in insert_headers k (Suc i) nwords (vector_insert (i * 64) (config_header block_size) msg))"

definition config_page_words :: "u32 list \<Rightarrow> u32 list" where
  "config_page_words msg = insert_headers (length msg div 63 + 1) 0 (length msg) msg"

definition writeFlashConfig :: "ODILEServer \<Rightarrow> int \<Rightarrow> (int \<times> ODILEServer) io" where
  "writeFlashConfig srv config_page =
     (let (config_message, l) = getConfigMessage (configBlocks srv);
          msg = config_page_words config_message;
          srv' = srv\<lparr>configBlocks := l\<rparr>
      in if 10 \<le> config_page \<or> config_page < 0 then ret_io (-2, srv')
         else bind_io (writeEPCQ srv' msg (CONFIG_PAGE_ADDRESS ! nat config_page) True)
                (\<lambda>n. ret_io (n, srv')))"

definition writeFlashConfig_file :: "files \<Rightarrow> ODILEServer \<Rightarrow> int \<Rightarrow> string \<Rightarrow> (int \<times> ODILEServer) io" where
  "writeFlashConfig_file fs srv config_page inifile =
     writeFlashConfig (snd (readConfigData fs inifile srv)) config_page"

subsection \<open>Reading\<close>

text \<open>
  \<open>outfile.write((char *)&read_page[0], count)\<close>: the bytes written; reading past the vector, or
  naming the first element of an empty one, is undefined.
\<close>

definition write_vector :: "u32 list option \<Rightarrow> int \<Rightarrow> byte list outcome" where
  "write_vector read_page count =
     (case read_page of None \<Rightarrow> UB ''null vector''
      | Some ws \<Rightarrow> if ws = [] \<or> count < 0 \<or> 4 * int (length ws) < count then UB ''read past read_page''
                   else Done (take (nat count) (bytes_of_words ws)))"

text \<open>
  The page loop of \<open>readEPCQ\<close>: pages left, \<open>curr_address\<close>, and the bytes written to the file so far
  (kept only while the file is open; a file that cannot be opened takes nothing).
\<close>

fun readEPCQ_loop :: "nat \<Rightarrow> ODILEServer \<Rightarrow> u32 \<Rightarrow> byte list \<Rightarrow> byte list io" where
  "readEPCQ_loop 0 srv curr_address outfile = ret_io outfile"
| "readEPCQ_loop (Suc k) srv curr_address outfile =
     bind_io (sendCommand srv ''ERD'' (int PAGE_SIZE_WORDS) 0xFFFFFFFF) (\<lambda>_.
     bind_io (recieveData_any srv (Some []) FIRMWARE_PORT (-1) False) (\<lambda>(_, read_page).
     bind_io (\<lambda>w. (write_vector read_page (int PAGE_SIZE_BYTES), w)) (\<lambda>bs.
       let curr_address' = curr_address + of_nat PAGE_SIZE_BYTES
       in bind_io (command_and_wait srv ''ESA'' 0 curr_address') (\<lambda>_.
            readEPCQ_loop k srv curr_address' (outfile @ bs)))))"

text \<open>The result is the return value and the contents of the output file.\<close>

definition readEPCQ :: "ODILEServer \<Rightarrow> u32 \<Rightarrow> int \<Rightarrow> (int \<times> byte list) io" where
  "readEPCQ srv start_address words_to_read =
     (let pages_to_read = div_c words_to_read (int PAGE_SIZE_WORDS);
          k = nat pages_to_read;
          words_left = words_to_read - int (k * PAGE_SIZE_WORDS);
          words_read = int (k * PAGE_SIZE_WORDS)
      in bind_io (command_and_wait srv ''ERB'' 0 0xFFFFFFFF) (\<lambda>_.
         bind_io (command_and_wait srv ''ESA'' 0 start_address) (\<lambda>_.
         bind_io (readEPCQ_loop k srv start_address []) (\<lambda>outfile.
         bind_io (sendCommand srv ''ERD'' words_left 0xFFFFFFFF) (\<lambda>_.
         bind_io (recieveData_any srv (Some []) FIRMWARE_PORT (-1) False) (\<lambda>(_, read_page).
         bind_io (\<lambda>w. (write_vector read_page words_left, w)) (\<lambda>bs.
           ret_io (words_read + words_left, outfile @ bs))))))))"

subsection \<open>Firmware\<close>

text \<open>\<open>stream >> string\<close>, repeated: the words of a text.\<close>

function tokens :: "string \<Rightarrow> string list" where
  "tokens s =
     (let t = dropWhile isspace s; u = takeWhile (\<lambda>c. \<not> isspace c) t
      in if u = [] then [] else u # tokens (drop (length u) t))"
  by pat_completeness auto
termination
proof (relation "measure length")
  fix s t u :: string
  assume t: "t = dropWhile isspace s" and u: "u = takeWhile (\<lambda>c. \<not> isspace c) t" and "u \<noteq> []"
  then have "0 < length u" "length t \<le> length s" by (auto simp: length_dropWhile_le)
  moreover have "length u \<le> length t" using u by (simp add: length_takeWhile_le)
  ultimately have "length t - length u < length s" by linarith
  then show "(drop (length u) t, s) \<in> measure length" by simp
qed simp

declare tokens.simps [simp del]

text \<open>\<open>std::stoi(s, nullptr, 0)\<close>.\<close>

definition stoi0 :: "string \<Rightarrow> int outcome" where
  "stoi0 s = (case strtol0 s of None \<Rightarrow> Throws ''stoi: invalid_argument''
     | Some n \<Rightarrow> if n < - (2 ^ 31) \<or> 2 ^ 31 \<le> n then Throws ''stoi: out_of_range'' else Done n)"

definition map_end_address :: "files \<Rightarrow> string \<Rightarrow> u32 outcome" where
  "map_end_address fs mapfname =
     (let ts = (case fs mapfname of None \<Rightarrow> [] | Some s \<Rightarrow> tokens s);
          address_str = (if 7 < length ts then ts ! 7 else [])
      in obind (stoi0 address_str) (\<lambda>n. Done (word_of_int n)))"

text \<open>
  \<open>ifile.read((char *)&word, 4)\<close>: at the end of the file the bytes that are left overwrite the
  first bytes of \<open>word\<close>, and from then on \<open>word\<close> keeps its value. None is an uninitialised byte.
\<close>

type_synonym firmware_stream = "byte list \<times> byte option list"

definition read_word :: "firmware_stream \<Rightarrow> u32 outcome \<times> firmware_stream" where
  "read_word st =
     (let (bs, word) = st; got = take 4 bs;
          word' = map Some got @ drop (length got) word
      in (if None \<in> set word' then UB ''uninitialised word'' else Done (word_of_bytes (map the word')),
          (drop 4 bs, word')))"

fun read_firmware_page :: "nat \<Rightarrow> firmware_stream \<Rightarrow> u32 list outcome \<times> firmware_stream" where
  "read_firmware_page 0 st = (Done [], st)"
| "read_firmware_page (Suc k) st =
     (let (r, st') = read_word st; (rs, st'') = read_firmware_page k st'
      in (obind r (\<lambda>x. obind rs (\<lambda>xs. Done (bswap_32 x # xs))), st''))"

text \<open>The page loop: pages left, \<open>curr_address\<close>, the file. True when the loop runs to its end.\<close>

fun writeFirmware_loop :: "nat \<Rightarrow> ODILEServer \<Rightarrow> u32 \<Rightarrow> firmware_stream \<Rightarrow> bool io" where
  "writeFirmware_loop 0 srv curr_address st = ret_io True"
| "writeFirmware_loop (Suc k) srv curr_address st =
     bind_io (command_and_wait srv ''ESA'' 0 curr_address) (\<lambda>_.
     bind_io (if unat curr_address mod SECTOR_BYTES = 0
              then command_and_wait srv ''ESE'' 0 0xFFFFFFFF else ret_io True) (\<lambda>_.
       let (page, st') = read_firmware_page PAGE_SIZE_WORDS st
       in bind_io (\<lambda>w. (page, w)) (\<lambda>write_page.
          bind_io (write_and_verify srv curr_address write_page) (\<lambda>same.
            if \<not> same then ret_io False
            else writeFirmware_loop k srv (curr_address + of_nat PAGE_SIZE_BYTES) st'))))"

text \<open>The body of the function; None is reaching its closing brace, which has no \<open>return\<close> before it.\<close>

definition writeFirmware_body :: "files \<Rightarrow> ODILEServer \<Rightarrow> string \<Rightarrow> string \<Rightarrow> u32 \<Rightarrow> int option io" where
  "writeFirmware_body fs srv fname mapfname start_address =
     bind_io (\<lambda>w. (map_end_address fs mapfname, w)) (\<lambda>end_address.
       let image = (case fs fname of None \<Rightarrow> [] | Some s \<Rightarrow> map byte_of_char s);
           pages = unat end_address div PAGE_SIZE_BYTES + 1
       in if unat start_address mod SECTOR_BYTES \<noteq> 0 then ret_io (Some (-1))
          else bind_io (sendCommand srv ''ERB'' 0 0xFFFFFFFF) (\<lambda>_.
               bind_io (writeFirmware_loop pages srv start_address (image, replicate 4 None)) (\<lambda>finished.
                 ret_io (if finished then None else Some (-2)))))"

definition writeFirmware :: "files \<Rightarrow> ODILEServer \<Rightarrow> string \<Rightarrow> string \<Rightarrow> u32 \<Rightarrow> int io" where
  "writeFirmware fs srv fname mapfname start_address =
     bind_io (writeFirmware_body fs srv fname mapfname start_address) (\<lambda>r w.
       case r of Some n \<Rightarrow> (Done n, w) | None \<Rightarrow> (UB ''missing return'', w))"

subsection \<open>What can be sent\<close>

text \<open>
  Whatever the network does and however the code ends, what it adds to the log of sent datagrams
  is a subsequence of \<open>L\<close>: datagrams may be missing (a send failed, the code stopped early), but
  none is out of order and no other is ever sent.
\<close>

definition sends :: "'a io \<Rightarrow> datagram list \<Rightarrow> bool" where
  "sends m L \<longleftrightarrow> (\<forall>w. \<exists>ts. tx (snd (m w)) = tx w @ ts \<and> subseq ts L)"

lemma sendsI: "(\<And>w. \<exists>ts. tx (snd (m w)) = tx w @ ts \<and> subseq ts L) \<Longrightarrow> sends m L"
  by (simp add: sends_def)

lemma sends_mono: "sends m L \<Longrightarrow> subseq L L' \<Longrightarrow> sends m L'"
  by (meson sends_def subseq_order.order_trans)

lemma sends_pure: "(\<And>w. tx (snd (m w)) = tx w) \<Longrightarrow> sends m []"
  by (rule sendsI) simp

lemma sends_ret [simp]: "sends (ret_io a) []" "sends (\<lambda>w. (r, w)) []"
  by (auto intro: sends_pure)

lemma sends_Nil: "sends m [] \<Longrightarrow> sends m L"
  by (erule sends_mono) simp

lemma sends_bind:
  assumes "sends m L" and "\<And>a. sends (f a) L'"
  shows "sends (bind_io m f) (L @ L')"
proof (rule sendsI)
  fix w
  obtain r w1 where m: "m w = (r, w1)" by (cases "m w")
  with assms(1) obtain ts where 1: "tx w1 = tx w @ ts" "subseq ts L" unfolding sends_def by (metis snd_conv)
  then have "\<exists>ts. tx w1 = tx w @ ts \<and> subseq ts (L @ L')" by (auto intro: subseq_rev_drop_many)
  moreover have "\<exists>ts. tx (snd (f a w1)) = tx w @ ts \<and> subseq ts (L @ L')" for a
  proof -
    obtain us where "tx (snd (f a w1)) = tx w1 @ us" "subseq us L'"
      using assms(2) [of a] unfolding sends_def by metis
    with 1 show ?thesis by (intro exI [of _ "ts @ us"]) (simp add: list_emb_append_mono)
  qed
  ultimately show "\<exists>ts. tx (snd (bind_io m f w)) = tx w @ ts \<and> subseq ts (L @ L')"
    using m by (cases r) (simp_all add: bind_io_def)
qed

lemma sends_bind_quiet: "sends m [] \<Longrightarrow> (\<And>a. sends (f a) L) \<Longrightarrow> sends (bind_io m f) L"
  using sends_bind [of m "[]" f L] by simp

lemma sends_bind_last: "sends m L \<Longrightarrow> (\<And>a. sends (f a) []) \<Longrightarrow> sends (bind_io m f) L"
  using sends_bind [of m L f "[]"] by simp

lemma sends_bind_Cons: "sends m [x] \<Longrightarrow> (\<And>a. sends (f a) L) \<Longrightarrow> sends (bind_io m f) (x # L)"
  using sends_bind [of m "[x]" f L] by simp

lemma sends_if: "(c \<Longrightarrow> sends m L) \<Longrightarrow> (\<not> c \<Longrightarrow> sends m' L) \<Longrightarrow> sends (if c then m else m') L"
  by simp

lemma sends_send: "sends (client_send c msg) [\<lparr>dg_addr = c_addr c, dg_port = c_port c, dg_payload = msg\<rparr>]"
  by (rule sendsI) (simp add: client_send_def)

definition command_datagram :: "ODILEServer \<Rightarrow> string \<Rightarrow> int \<Rightarrow> u32 \<Rightarrow> datagram" where
  "command_datagram srv cmd pre second =
     \<lparr>dg_addr = c_addr (cmdClient srv), dg_port = c_port (cmdClient srv),
      dg_payload = command_payload cmd pre second\<rparr>"

definition data_datagram :: "ODILEServer \<Rightarrow> u32 list \<Rightarrow> datagram" where
  "data_datagram srv page =
     \<lparr>dg_addr = odile_address srv, dg_port = FIRMWARE_PORT, dg_payload = bytes_of_words page\<rparr>"

lemma sends_sendCommand: "ascii3 cmd \<Longrightarrow> sends (sendCommand srv cmd pre second) [command_datagram srv cmd pre second]"
  unfolding sendCommand_ascii command_datagram_def by (rule sends_send)

lemma sends_with_object:
  assumes "\<And>w. tx (snd (ctor w)) = tx w" and "\<And>ob w. tx (snd (dtor ob w)) = tx w" and "\<And>ob. sends (body ob) L"
  shows "sends (with_object ctor dtor body) L"
proof (rule sendsI)
  fix w
  obtain r w1 where c: "ctor w = (r, w1)" by (cases "ctor w")
  with assms(1) [of w] have t: "tx w1 = tx w" by simp
  show "\<exists>ts. tx (snd (with_object ctor dtor body w)) = tx w @ ts \<and> subseq ts L"
  proof (cases r)
    case (Done ob)
    obtain r2 w2 where b: "body ob w1 = (r2, w2)" by (cases "body ob w1")
    then have "\<exists>ts. tx w2 = tx w @ ts \<and> subseq ts L"
      using assms(3) [of ob] t unfolding sends_def by (metis snd_conv)
    then show ?thesis using c b Done assms(2) by (cases r2) (simp_all add: with_object_def)
  qed (use c t in \<open>simp_all add: with_object_def\<close>)
qed

lemma sends_sendData:
  "sends (sendData srv page FIRMWARE_PORT) [data_datagram srv page]"
proof (rule sendsI)
  fix w
  show "\<exists>ts. tx (snd (sendData srv page FIRMWARE_PORT w)) = tx w @ ts \<and> subseq ts [data_datagram srv page]"
    by (cases rule: udp_client_new_cases [of "odile_address srv" FIRMWARE_PORT w])
      (auto simp: sendData_def with_object_def client_send_words_def client_send_def udp_client_delete_def
        data_datagram_def)
qed

lemma sends_receive_call: "sends (receive_call t s) []"
  by (rule sends_pure) (metis prod.collapse receive_call_quiet)

lemma sends_recieveData: "sends (recieveData srv data addr port t sw) []"
proof (cases data)
  case (Some ws)
  have c: "tx (snd (udp_server_new a p w)) = tx w" for a p w
    by (cases rule: udp_server_new_cases [of a p w]) auto
  show ?thesis
    unfolding Some recieveData_block
    by (rule sends_with_object [OF c])
      (auto simp: udp_server_delete_def intro!: sends_bind_quiet sends_receive_call)
qed (simp add: recieveData_def)

lemma sends_clock: "sends clock_gettime_ms []"
  by (rule sends_pure) (simp add: clock_gettime_ms_def split: list.splits)

lemma sends_wait_loop: "sends (wait_loop k srv t start buffer) []"
proof (induction k arbitrary: buffer)
  case 0
  show ?case by (rule sends_pure) simp
next
  case (Suc k)
  have "wait_loop (Suc k) srv t start buffer = bind_io (recieveData_any srv (Some buffer) COMMAND_PORT (div_c t 10) True)
       (\<lambda>(bytes_recvd, data). bind_io clock_gettime_ms (\<lambda>currtime.
          let buffer' = (case data of Some b \<Rightarrow> b | None \<Rightarrow> [])
          in if 0 < bytes_recvd \<and> (\<exists>x \<in> set buffer'. is_done_word x) then ret_io True
             else if 0 < t \<and> t < currtime - start then ret_io False
             else wait_loop k srv t start buffer'))"
    by (rule ext) simp
  then show ?case
    by (auto simp: recieveData_any_def Let_def intro!: sends_bind_quiet sends_recieveData sends_clock Suc)
qed

lemma sends_waitForDone: "sends (waitForDone srv t) []"
  unfolding waitForDone_def
proof (rule sends_bind_quiet [OF sends_clock], rule sends_pure)
  fix a w
  show "tx (snd (wait_loop (length (clock w)) srv t a [] w)) = tx w"
    using sends_wait_loop [of "length (clock w)" srv t a "[]"] unfolding sends_def
    by (metis append_Nil2 list_emb_Nil2)
qed

lemma sends_command_and_wait:
  "ascii3 cmd \<Longrightarrow> sends (command_and_wait srv cmd pre second) [command_datagram srv cmd pre second]"
  unfolding command_and_wait_def by (intro sends_bind_last sends_sendCommand sends_waitForDone)

subsection \<open>The datagrams of a write\<close>

definition page_datagrams :: "ODILEServer \<Rightarrow> u32 \<Rightarrow> u32 list \<Rightarrow> datagram list" where
  "page_datagrams srv addr page =
     [command_datagram srv ''ESA'' 0 addr, data_datagram srv page,
      command_datagram srv ''EWR'' 64 0xFFFFFFFF, command_datagram srv ''ERD'' 64 0xFFFFFFFF]"

definition pages_datagrams :: "ODILEServer \<Rightarrow> u32 \<Rightarrow> u32 list list \<Rightarrow> datagram list" where
  "pages_datagrams srv addr pages =
     concat (map (\<lambda>p. page_datagrams srv (addr + of_nat (256 * p)) (pages ! p)) [0..<length pages])"

definition writeEPCQ_datagrams :: "ODILEServer \<Rightarrow> u32 list list \<Rightarrow> u32 \<Rightarrow> bool \<Rightarrow> datagram list" where
  "writeEPCQ_datagrams srv pages start erase =
     [command_datagram srv ''ERB'' 0 0xFFFFFFFF, command_datagram srv ''ESA'' 0 start] @
     (if erase then [command_datagram srv ''ESE'' 0 0xFFFFFFFF] else []) @
     pages_datagrams srv start pages"

text \<open>The pages a vector is cut into: full pages, the last one filled up with ones.\<close>

definition data_pages :: "u32 list \<Rightarrow> nat \<Rightarrow> nat \<Rightarrow> u32 list list" where
  "data_pages data data_idx k = map (\<lambda>p. fill_page data (data_idx + 64 * p)) [0..<k]"

lemma ascii3_literals [simp]: "ascii3 ''ESA''" "ascii3 ''EWR''" "ascii3 ''ERD''" "ascii3 ''ERB''" "ascii3 ''ESE''"
  by (simp_all add: ascii3_def byte_of_char_def)

lemma upt_Suc_map: "[0..<Suc k] = 0 # map Suc [0..<k]"
  by (simp add: upt_conv_Cons map_Suc_upt)

lemma length_data_pages [simp]: "length (data_pages data i k) = k"
  by (simp add: data_pages_def)

lemma data_pages_Suc: "data_pages data i (Suc k) = fill_page data i # data_pages data (i + 64) k"
  by (simp add: data_pages_def upt_Suc_map comp_def algebra_simps del: upt_Suc)

lemma pages_datagrams_Cons:
  "pages_datagrams srv addr (page # pages) = page_datagrams srv addr page @ pages_datagrams srv (addr + 256) pages"
  by (simp add: pages_datagrams_def upt_Suc_map comp_def algebra_simps del: upt_Suc)

lemma pages_datagrams_Nil [simp]: "pages_datagrams srv addr [] = []"
  by (simp add: pages_datagrams_def)

lemma sends_write_and_verify: "sends (write_and_verify srv addr page) (page_datagrams srv addr page)"
proof -
  have w: "64 = int PAGE_SIZE_WORDS" by (simp add: epcq_consts)
  show ?thesis
    unfolding write_and_verify_def page_datagrams_def w recieveData_any_def
    by (intro sends_bind_Cons sends_command_and_wait sends_sendData ascii3_literals
      sends_bind_last [OF sends_sendCommand])
      (auto intro: sends_bind_quiet sends_recieveData)
qed

lemma sends_writeEPCQ_loop:
  "sends (writeEPCQ_loop k srv data i addr n) (pages_datagrams srv addr (data_pages data i k))"
proof (induction k arbitrary: i addr n)
  case (Suc k)
  have "sends (if \<not> same then ret_io (-2) else writeEPCQ_loop k srv data (i + PAGE_SIZE_WORDS)
      (addr + of_nat PAGE_SIZE_BYTES) (n + int PAGE_SIZE_WORDS)) (pages_datagrams srv (addr + 256) (data_pages data (i + 64) k))"
    for same
    using Suc [of "i + 64" "addr + 256" "n + 64"] by (simp add: epcq_consts sends_Nil)
  then show ?case
    unfolding writeEPCQ_loop.simps data_pages_Suc pages_datagrams_Cons
    by (rule sends_bind [OF sends_write_and_verify])
qed (simp add: data_pages_def)

lemma sint_word_of_nat_small: "n < 2 ^ 31 \<Longrightarrow> sint (word_of_nat n :: u32) = int n"
  by (simp add: signed_of_nat signed_take_bit_int_eq_self)

lemma bytes_to_write_small: "length data < 2 ^ 29 \<Longrightarrow> bytes_to_write data = 4 * int (length data)"
  using sint_word_of_nat_small [of "length data * 4"] by (simp add: bytes_to_write_def)

lemma pages_to_write_small: "length data < 2 ^ 29 \<Longrightarrow> nat (pages_to_write data) = length data div 64 + 1"
  by (simp add: pages_to_write_def bytes_to_write_small epcq_consts div_c_def sgn_if nat_add_distrib
    nat_div_distrib)

lemma sends_writeEPCQ:
  assumes "length data \<le> 16384"
  shows "sends (writeEPCQ srv data start erase)
    (writeEPCQ_datagrams srv (data_pages data 0 (length data div 64 + 1)) start erase)"
proof -
  have small: "length data < 2 ^ 29" using assms by simp
  have erase: "sends (if erase then command_and_wait srv ''ESE'' 0 0xFFFFFFFF else ret_io True)
      (if erase then [command_datagram srv ''ESE'' 0 0xFFFFFFFF] else [])"
    by (simp add: sends_command_and_wait)
  show ?thesis
    using assms
    unfolding writeEPCQ_def bytes_to_write_small [OF small] pages_to_write_small [OF small]
      writeEPCQ_datagrams_def append.simps
    by (intro sends_if sends_bind_Cons sends_command_and_wait ascii3_literals sends_bind [OF erase]
      sends_writeEPCQ_loop) (simp_all add: SECTOR_BYTES_def)
qed

text \<open>
  C18. A write to the flash never sends anything but its own conversation, in order, whatever the
  network does: clear the buffers, set the start address, erase if asked to, then for every page
  of the data set the address, load the page, write it and ask for it back. More than a sector of
  data is refused with -1 and nothing is sent.
\<close>

theorem writeEPCQ_sends:
  assumes "length data < 2 ^ 29"
  shows "(if length data \<le> 16384
     then \<exists>ts. tx (snd (writeEPCQ srv data start erase w)) = tx w @ ts \<and>
       subseq ts (writeEPCQ_datagrams srv (data_pages data 0 (length data div 64 + 1)) start erase)
     else writeEPCQ srv data start erase w = (Done (-1), w))"
  using sends_writeEPCQ [of data srv start erase] assms
  by (auto simp: sends_def writeEPCQ_def bytes_to_write_small SECTOR_BYTES_def)

subsection \<open>Success means read back\<close>

definition consumes :: "'a io \<Rightarrow> bool" where
  "consumes m \<longleftrightarrow> (\<forall>w a w'. m w = (Done a, w') \<longrightarrow> payloads (rx w') \<subseteq> payloads (rx w))"

lemma consumesD: "consumes m \<Longrightarrow> m w = (Done a, w') \<Longrightarrow> payloads (rx w') \<subseteq> payloads (rx w)"
  by (simp add: consumes_def)

lemma consumes_bind: "consumes m \<Longrightarrow> (\<And>a. consumes (f a)) \<Longrightarrow> consumes (bind_io m f)"
  unfolding consumes_def bind_io_eq_Done by blast

lemma consumes_rx: "(\<And>w. rx (snd (m w)) = rx w) \<Longrightarrow> consumes m"
  unfolding consumes_def by (metis order_refl snd_conv)

lemma consumes_sendCommand: "consumes (sendCommand srv cmd pre second)"
  by (rule consumes_rx)
    (simp add: sendCommand_def bind_io_def client_send_words_def client_send_def split: outcome.splits)

lemma consumes_sendData: "consumes (sendData srv page port)"
proof (rule consumes_rx)
  fix w
  show "rx (snd (sendData srv page port w)) = rx w"
    by (cases rule: udp_client_new_cases [of "odile_address srv" port w])
      (auto simp: sendData_def with_object_def client_send_words_def client_send_def udp_client_delete_def)
qed

lemma consumes_recieveData: "consumes (recieveData srv (Some ws) addr port t sw)"
  unfolding consumes_def using payloads_recieveData by blast

lemma consumes_wait_loop:
  "wait_loop k srv t start buffer w = (Done r, w') \<Longrightarrow> payloads (rx w') \<subseteq> payloads (rx w)"
proof (induction k arbitrary: buffer w)
  case (Suc k)
  from Suc.prems show ?case
    by (rule wait_round) (auto split: if_splits dest: Suc.IH)
qed simp

lemma consumes_waitForDone: "consumes (waitForDone srv t)"
  unfolding consumes_def waitForDone_eq_Done using consumes_wait_loop by fastforce

lemma consumes_command_and_wait: "consumes (command_and_wait srv cmd pre second)"
  unfolding command_and_wait_def by (intro consumes_bind consumes_sendCommand consumes_waitForDone)

lemmas consumes_rules = consumes_bind consumes_sendCommand consumes_sendData consumes_recieveData
  consumes_waitForDone consumes_command_and_wait

definition read_back :: "u32 list \<Rightarrow> net \<Rightarrow> bool" where
  "read_back page w \<longleftrightarrow> (\<exists>d \<in> payloads (rx w). words_of_bytes (take 2048 d) = page)"

lemma read_back_mono: "read_back page w' \<Longrightarrow> payloads (rx w') \<subseteq> payloads (rx w) \<Longrightarrow> read_back page w"
  by (auto simp: read_back_def)

lemma recieveData_read_back:
  assumes "recieveData srv (Some []) addr port t False w = (Done (n, Some page), w')" and "page \<noteq> []"
  shows "read_back page w"
proof -
  obtain d where "received (rx w) (int (length d), d) \<or> d = []" "page = words_received False d"
    using recieveData_cases [OF assms(1)] by auto
  with assms(2) show ?thesis
    by (auto simp: received_def read_back_def payloads_def words_received_def BUFFSIZE_def)
qed

lemma write_and_verify_read_back:
  assumes "write_and_verify srv addr page w = (Done True, w')" and "page \<noteq> []"
  shows "read_back page w \<and> payloads (rx w') \<subseteq> payloads (rx w)"
proof -
  let ?pre = "bind_io (command_and_wait srv ''ESA'' 0 addr) (\<lambda>_. bind_io (sendData srv page FIRMWARE_PORT) (\<lambda>_.
     bind_io (command_and_wait srv ''EWR'' (int PAGE_SIZE_WORDS) 0xFFFFFFFF) (\<lambda>_.
     sendCommand srv ''ERD'' (int PAGE_SIZE_WORDS) 0xFFFFFFFF)))"
  have "write_and_verify srv addr page = bind_io ?pre (\<lambda>_.
      bind_io (recieveData_any srv (Some []) FIRMWARE_PORT (-1) False) (\<lambda>(_, read_page).
       ret_io (read_page = Some page)))"
    by (simp add: write_and_verify_def bind_io_assoc)
  then obtain a w1 n where 1: "?pre w = (Done a, w1)"
    and 2: "recieveData srv (Some []) NULL_IPADDRESS FIRMWARE_PORT (-1) False w1 = (Done (n, Some page), w')"
    using assms(1) by (auto simp: bind_io_eq_Done recieveData_any_def)
  have "consumes ?pre" by (intro consumes_rules)
  with 1 have "payloads (rx w1) \<subseteq> payloads (rx w)" by (rule consumesD [rotated])
  moreover have "payloads (rx w') \<subseteq> payloads (rx w1)" using consumes_recieveData 2 by (rule consumesD)
  moreover have "read_back page w1" using 2 assms(2) by (rule recieveData_read_back)
  ultimately show ?thesis using read_back_mono by blast
qed

lemma fill_page_not_Nil [simp]: "fill_page data i \<noteq> []" and length_fill_page [simp]: "length (fill_page data i) = 64"
  by (simp_all add: fill_page_def epcq_consts)

lemma writeEPCQ_loop_read_back:
  assumes "writeEPCQ_loop k srv data i addr n w = (Done m, w')" and "0 \<le> m" and "0 \<le> n"
  shows "m = n + 64 * int k \<and> (\<forall>page \<in> set (data_pages data i k). read_back page w)"
  using assms
proof (induction k arbitrary: i addr n w)
  case (Suc k)
  obtain same w1 where 1: "write_and_verify srv addr (fill_page data i) w = (Done same, w1)"
    and 2: "(if \<not> same then ret_io (-2) else writeEPCQ_loop k srv data (i + PAGE_SIZE_WORDS)
        (addr + of_nat PAGE_SIZE_BYTES) (n + int PAGE_SIZE_WORDS)) w1 = (Done m, w')"
    using Suc.prems(1) unfolding writeEPCQ_loop.simps bind_io_eq_Done by blast
  have same using 2 Suc.prems(2) by (cases same) auto
  with 1 have v: "read_back (fill_page data i) w" "payloads (rx w1) \<subseteq> payloads (rx w)"
    using write_and_verify_read_back by auto
  have "m = n + 64 + 64 * int k \<and> (\<forall>page \<in> set (data_pages data (i + 64) k). read_back page w1)"
    using Suc.IH [of "i + 64" "addr + 256" "n + 64" w1] 2 \<open>same\<close> Suc.prems by (simp add: epcq_consts)
  with v show ?case by (auto simp: data_pages_Suc intro: read_back_mono)
qed (simp add: data_pages_def)

text \<open>The pages hold the data, followed by ones up to the end of the last page.\<close>

lemma take_concat_data_pages:
  "take (length data - i) (concat (data_pages data i k)) = take (64 * k) (drop i data)"
proof (induction k arbitrary: i)
  case (Suc k)
  have page: "fill_page data i = take 64 (drop i data) @ replicate (64 - (length data - i)) 0xFFFFFFFF"
    by (rule nth_equalityI) (auto simp: fill_page_def epcq_consts nth_append)
  have "take (length data - i) (concat (data_pages data i (Suc k))) =
      take 64 (drop i data) @ take (64 * k) (drop (i + 64) data)"
    using Suc [of "i + 64"]
    by (cases "64 \<le> length data - i") (simp_all add: data_pages_Suc page algebra_simps)
  also have "\<dots> = take (64 + 64 * k) (drop i data)" by (simp add: take_add algebra_simps)
  finally show ?case by simp
qed (simp add: data_pages_def)

text \<open>
  C4. A write that reports success has been verified: the result is the number of words of whole
  pages written, one page more than the data fills completely, and for each of these pages the
  network delivered a datagram that holds exactly this page; the pages in order begin with
  the data.
\<close>

theorem writeEPCQ_verified:
  assumes "writeEPCQ srv data start erase w = (Done n, w')" and "0 \<le> n" and "length data < 2 ^ 29"
  shows "\<exists>pages. n = 64 * int (length pages) \<and> length pages = length data div 64 + 1 \<and>
    take (length data) (concat pages) = data \<and>
    (\<forall>page \<in> set pages. \<exists>d \<in> payloads (rx w). words_of_bytes (take 2048 d) = page)"
proof -
  let ?k = "length data div 64 + 1"
  let ?erase = "if erase then command_and_wait srv ''ESE'' 0 0xFFFFFFFF else ret_io True"
  let ?pre = "bind_io (command_and_wait srv ''ERB'' 0 0xFFFFFFFF) (\<lambda>_.
    bind_io (command_and_wait srv ''ESA'' 0 start) (\<lambda>_. ?erase))"
  have "length data \<le> 16384"
    using assms by (auto simp: writeEPCQ_def bytes_to_write_small SECTOR_BYTES_def split: if_splits)
  then obtain a w1 where 1: "?pre w = (Done a, w1)"
    and 2: "writeEPCQ_loop ?k srv data 0 start 0 w1 = (Done n, w')"
    using assms(1) pages_to_write_small [OF assms(3)]
    by (auto simp: writeEPCQ_def bytes_to_write_small [OF assms(3)] SECTOR_BYTES_def bind_io_eq_Done)
  have "consumes ?erase" by (auto intro: consumes_command_and_wait consumes_rx)
  then have "consumes ?pre" by (intro consumes_bind consumes_command_and_wait)
  then have "payloads (rx w1) \<subseteq> payloads (rx w)" using 1 by (rule consumesD)
  then have "n = 64 * int ?k \<and> (\<forall>page \<in> set (data_pages data 0 ?k). read_back page w)"
    using writeEPCQ_loop_read_back [OF 2 assms(2)] read_back_mono by auto
  moreover have "take (length data) (concat (data_pages data 0 ?k)) = data"
    using take_concat_data_pages [of data 0 ?k] by simp
  ultimately show ?thesis
    by (intro exI [of _ "data_pages data 0 ?k"]) (auto simp: read_back_def)
qed

subsection \<open>A board that answers\<close>

text \<open>Every send succeeds and every socket of the conversation can be opened.\<close>

definition reachable_board :: "ODILEServer \<Rightarrow> net \<Rightarrow> bool" where
  "reachable_board srv w \<longleftrightarrow> can_listen srv COMMAND_PORT w \<and> can_listen srv FIRMWARE_PORT w \<and>
     gai_ok w (odile_address srv) (dec_int FIRMWARE_PORT) \<and> socket_ok w (odile_address srv) \<and>
     sendto_ok w = (\<lambda>_ _ _. True)"

definition advance :: "datagram list \<Rightarrow> rx_event list \<Rightarrow> int \<Rightarrow> int list \<Rightarrow> net \<Rightarrow> net" where
  "advance ts es k cs w = w\<lparr>tx := tx w @ ts, rx := es, next_fd := next_fd w + k, clock := cs\<rparr>"

lemma advance_simps [simp]:
  "reachable_board srv (advance ts es k cs w) = reachable_board srv w"
  "rx (advance ts es k cs w) = es" "clock (advance ts es k cs w) = cs" "tx (advance ts es k cs w) = tx w @ ts"
  "advance ts' es' k' cs' (advance ts es k cs w) = advance (ts @ ts') es' (k + k') cs' w"
  by (simp_all add: advance_def reachable_board_def can_listen_def)

text \<open>
  \<open>talk srv m a ts ds n\<close>: on a network that delivers the datagrams \<open>ds\<close> and has \<open>n\<close> clock readings to
  give, the code \<open>m\<close> returns \<open>a\<close>, having sent \<open>ts\<close> and used up just these datagrams and readings.
\<close>

definition talk :: "ODILEServer \<Rightarrow> 'a io \<Rightarrow> 'a \<Rightarrow> datagram list \<Rightarrow> byte list list \<Rightarrow> nat \<Rightarrow> bool" where
  "talk srv m a ts ds n \<longleftrightarrow> (\<forall>w es cs cs'. reachable_board srv w \<longrightarrow> rx w = map Queued ds @ es \<longrightarrow>
     clock w = cs @ cs' \<longrightarrow> length cs = n \<longrightarrow> (\<exists>k. m w = (Done a, advance ts es k cs' w)))"

lemma talkI:
  "(\<And>w es cs cs'. reachable_board srv w \<Longrightarrow> rx w = map Queued ds @ es \<Longrightarrow> clock w = cs @ cs' \<Longrightarrow>
     length cs = n \<Longrightarrow> \<exists>k. m w = (Done a, advance ts es k cs' w)) \<Longrightarrow> talk srv m a ts ds n"
  by (simp add: talk_def)

lemma talkD:
  "talk srv m a ts ds n \<Longrightarrow> reachable_board srv w \<Longrightarrow> rx w = map Queued ds @ es \<Longrightarrow> clock w = cs @ cs' \<Longrightarrow>
     length cs = n \<Longrightarrow> \<exists>k. m w = (Done a, advance ts es k cs' w)"
  by (simp add: talk_def)

lemma talk_bind:
  assumes "talk srv m a ts ds n" and "talk srv (f a) b ts' ds' n'"
  shows "talk srv (bind_io m f) b (ts @ ts') (ds @ ds') (n + n')"
proof (rule talkI)
  fix w es cs cs'
  assume w: "reachable_board srv w" "rx w = map Queued (ds @ ds') @ es" "clock w = cs @ cs'" "length cs = n + n'"
  have "\<exists>k. m w = (Done a, advance ts (map Queued ds' @ es) k (drop n cs @ cs') w)"
    using assms(1) w(1) by (rule talkD [where cs = "take n cs"]) (use w in auto)
  then obtain k where 1: "m w = (Done a, advance ts (map Queued ds' @ es) k (drop n cs @ cs') w)" ..
  let ?w = "advance ts (map Queued ds' @ es) k (drop n cs @ cs') w"
  have "\<exists>k. f a ?w = (Done b, advance ts' es k cs' ?w)"
    using assms(2) by (rule talkD [where cs = "drop n cs"]) (use w in simp_all)
  then show "\<exists>k. bind_io m f w = (Done b, advance (ts @ ts') es k cs' w)"
    using 1 by (auto simp: bind_io_def)
qed

lemma advance_none: "w = advance [] (rx w) 0 (clock w) w"
  by (simp add: advance_def)

lemma talk_ret: "talk srv (ret_io a) a [] [] 0" "talk srv (Pair (Done a)) a [] [] 0"
  using advance_none by (intro talkI exI [of _ 0]; auto)+

lemma talk_then:
  assumes "talk srv m a ts ds n" and "talk srv (f a) b ts' ds' n'"
    and "TS = ts @ ts'" and "DS = ds @ ds'" and "N = n + n'"
  shows "talk srv (bind_io m f) b TS DS N"
  unfolding assms(3-5) using assms(1,2) by (rule talk_bind)

lemma talk_sendCommand:
  "ascii3 cmd \<Longrightarrow> \<exists>n. talk srv (sendCommand srv cmd pre second) n [command_datagram srv cmd pre second] [] 0"
  by (rule exI, rule talkI, rule exI [of _ 0])
    (simp add: sendCommand_ascii client_send_def reachable_board_def advance_def command_datagram_def)

lemma talk_waitForDone: "talk srv (waitForDone srv (-1)) True [] [DON_datagram] 2"
proof (rule talkI)
  fix w es cs cs'
  assume "reachable_board srv w" "rx w = map Queued [DON_datagram] @ es" "clock w = cs @ cs'" "length cs = 2"
  then have "waitForDone srv (-1) w = (Done True, w\<lparr>rx := es, clock := cs', next_fd := next_fd w + 1\<rparr>)"
    using wait_loop_answered [of srv "w\<lparr>clock := tl cs @ cs'\<rparr>" "-1" "[]" DON_datagram es "tl cs" cs'
      "length (tl cs @ cs')" "[]" "hd cs div 1000 div 1000"] is_done_DON
    by (cases cs) (auto simp: reachable_board_def waitForDone_eq_Done)
  then show "\<exists>k. waitForDone srv (-1) w = (Done True, advance [] es k cs' w)"
    by (intro exI [of _ 1]) (simp add: advance_def)
qed

lemma talk_command_and_wait:
  assumes "ascii3 cmd"
  shows "talk srv (command_and_wait srv cmd pre second) True [command_datagram srv cmd pre second] [DON_datagram] 2"
proof -
  obtain n where "talk srv (sendCommand srv cmd pre second) n [command_datagram srv cmd pre second] [] 0"
    using talk_sendCommand [OF assms] by blast
  then show ?thesis
    unfolding command_and_wait_def by (rule talk_then) (rule talk_waitForDone, simp_all)
qed

lemma talk_sendData:
  "talk srv (sendData srv page FIRMWARE_PORT) (4 * int (length page)) [data_datagram srv page] [] 0"
  by (rule talkI, rule exI [of _ 1])
    (simp add: sendData_def with_object_def udp_client_new_def open_socket_def reachable_board_def
      client_send_words_def client_send_def udp_client_delete_def advance_def data_datagram_def Let_def)

lemma talk_recieveData:
  assumes "length d \<le> BUFFSIZE"
  shows "talk srv (recieveData_any srv (Some []) FIRMWARE_PORT (-1) False)
    (int (length d div 4), Some (words_of_bytes d)) [] [d] 0"
  using assms unfolding recieveData_any_def
  by (intro talkI exI [of _ 1])
    (simp add: recieveData_blocking reachable_board_def advance_def words_received_def)

lemma talk_write_and_verify:
  assumes "length page = 64"
  shows "talk srv (write_and_verify srv addr page) True (page_datagrams srv addr page)
    [DON_datagram, DON_datagram, bytes_of_words page] 4"
proof -
  obtain n where send: "talk srv (sendCommand srv ''ERD'' 64 0xFFFFFFFF) n [command_datagram srv ''ERD'' 64 0xFFFFFFFF] [] 0"
    using talk_sendCommand by (metis ascii3_literals(3))
  have "talk srv (recieveData_any srv (Some []) FIRMWARE_PORT (-1) False)
      (int (length (bytes_of_words page) div 4), Some (words_of_bytes (bytes_of_words page))) [] [bytes_of_words page] 0"
    by (rule talk_recieveData) (simp add: assms BUFFSIZE_def)
  then have recv: "talk srv (bind_io (recieveData_any srv (Some []) FIRMWARE_PORT (-1) False) (\<lambda>(_, read_page).
      ret_io (read_page = Some page))) True [] [bytes_of_words page] 0"
    by (rule talk_then) (simp_all add: talk_ret)
  have size: "int PAGE_SIZE_WORDS = 64" by (simp add: epcq_consts)
  have "talk srv (write_and_verify srv addr page) True
      [command_datagram srv ''ESA'' 0 addr, data_datagram srv page, command_datagram srv ''EWR'' 64 0xFFFFFFFF,
       command_datagram srv ''ERD'' 64 0xFFFFFFFF] [DON_datagram, DON_datagram, bytes_of_words page] 4"
    unfolding write_and_verify_def size
    by (rule talk_then, rule talk_command_and_wait, rule ascii3_literals, rule talk_then, rule talk_sendData,
      rule talk_then, rule talk_command_and_wait, rule ascii3_literals, rule talk_then, rule send, rule recv)
      simp_all
  then show ?thesis by (simp add: page_datagrams_def)
qed

definition page_answers :: "u32 list list \<Rightarrow> byte list list" where
  "page_answers pages = concat (map (\<lambda>page. [DON_datagram, DON_datagram, bytes_of_words page]) pages)"

lemma talk_writeEPCQ_loop:
  "talk srv (writeEPCQ_loop k srv data i addr n) (n + 64 * int k)
     (pages_datagrams srv addr (data_pages data i k)) (page_answers (data_pages data i k)) (4 * k)"
proof (induction k arbitrary: i addr n)
  case 0
  then show ?case by (simp add: talk_ret data_pages_def page_answers_def)
next
  case (Suc k)
  let ?f = "\<lambda>same. if \<not> same then ret_io (-2) else writeEPCQ_loop k srv data (i + PAGE_SIZE_WORDS)
     (addr + of_nat PAGE_SIZE_BYTES) (n + int PAGE_SIZE_WORDS)"
  have "talk srv (?f True) (n + 64 * int (Suc k)) (pages_datagrams srv (addr + 256) (data_pages data (i + 64) k))
      (page_answers (data_pages data (i + 64) k)) (4 * k)"
    using Suc [of "i + 64" "addr + 256" "n + 64"] by (simp add: epcq_consts algebra_simps)
  then show ?case
    unfolding writeEPCQ_loop.simps
    by (rule talk_then [OF talk_write_and_verify [OF length_fill_page]])
      (simp_all add: data_pages_Suc pages_datagrams_Cons page_answers_def)
qed

lemma talk_writeEPCQ:
  assumes "length data \<le> 16384" and "pages = data_pages data 0 (length data div 64 + 1)"
  shows "talk srv (writeEPCQ srv data start erase) (64 * int (length pages))
    (writeEPCQ_datagrams srv pages start erase) (replicate (if erase then 3 else 2) DON_datagram @ page_answers pages)
    ((if erase then 6 else 4) + 4 * length pages)"
proof -
  have small: "length data < 2 ^ 29" using assms(1) by simp
  have erase: "talk srv (if erase then command_and_wait srv ''ESE'' 0 0xFFFFFFFF else ret_io True) True
      (if erase then [command_datagram srv ''ESE'' 0 0xFFFFFFFF] else []) (replicate (if erase then 1 else 0) DON_datagram)
      (if erase then 2 else 0)"
    using talk_command_and_wait [of "''ESE''" srv 0 "0xFFFFFFFF", OF ascii3_literals(5)] by (simp add: talk_ret)
  have loop: "talk srv (writeEPCQ_loop (length data div 64 + 1) srv data 0 start 0) (64 * int (length pages))
      (pages_datagrams srv start pages) (page_answers pages) (4 * length pages)"
    using talk_writeEPCQ_loop [of srv "length data div 64 + 1" data 0 start 0] by (simp add: assms(2))
  have fits: "(int SECTOR_BYTES < bytes_to_write data) = False"
    using assms(1) by (simp add: bytes_to_write_small [OF small] SECTOR_BYTES_def)
  have answers: "replicate (if erase then 3 else 2) DON_datagram @ page_answers pages =
      [DON_datagram] @ [DON_datagram] @ replicate (if erase then 1 else 0) DON_datagram @ page_answers pages"
    by (simp add: numeral_eq_Suc)
  have counts: "(if erase then 6 else 4) + 4 * length pages = 2 + (2 + ((if erase then 2 else 0) + 4 * length pages))"
    by simp
  show ?thesis
    unfolding writeEPCQ_def pages_to_write_small [OF small] writeEPCQ_datagrams_def fits if_False
    by (rule talk_then, rule talk_command_and_wait, rule ascii3_literals, rule talk_then,
      rule talk_command_and_wait, rule ascii3_literals, rule talk_then, rule erase, rule loop)
      ((rule refl)+, simp, rule answers, rule counts)
qed

text \<open>
  C19. A write does succeed on a board that answers every command and returns every page as it was
  written: the whole conversation is sent, the result is the number of words of all pages, and
  exactly the answers (and two clock readings per wait) are used up.
\<close>

theorem writeEPCQ_answered:
  assumes "length data \<le> 16384" and "reachable_board srv w" and "pages = data_pages data 0 (length data div 64 + 1)"
    and "rx w = map Queued (replicate (if erase then 3 else 2) DON_datagram @ page_answers pages) @ es"
    and "clock w = cs @ cs'" and "length cs = (if erase then 6 else 4) + 4 * length pages"
  shows "\<exists>k. writeEPCQ srv data start erase w = (Done (64 * int (length pages)),
    w\<lparr>tx := tx w @ writeEPCQ_datagrams srv pages start erase, rx := es, next_fd := next_fd w + k, clock := cs'\<rparr>)"
  using talkD [OF talk_writeEPCQ [OF assms(1,3)] assms(2,4,5,6)] by (simp add: advance_def)

text \<open>A network on which the board answers a write of one word, and the witnesses on it.\<close>

definition answering_net :: net where
  "answering_net = quiet_net\<lparr>rx := map Queued (replicate 3 DON_datagram @ page_answers (data_pages [7] 0 1)),
     clock := replicate 10 0\<rparr>"

lemma reachable_demo: "reachable_board demo_server (quiet_net\<lparr>rx := a, clock := b\<rparr>)"
  by (simp add: reachable_board_def can_listen_def quiet_net_def)

theorem writeEPCQ_answered_witness:
  "\<exists>w'. writeEPCQ demo_server [7] 0x01F60000 True answering_net = (Done 64, w') \<and> rx w' = [] \<and> length (tx w') = 7"
proof -
  have "\<exists>k. writeEPCQ demo_server [7] 0x01F60000 True answering_net = (Done (64 * int (length (data_pages [7] 0 1))),
      answering_net\<lparr>tx := tx answering_net @ writeEPCQ_datagrams demo_server (data_pages [7] 0 1) 0x01F60000 True,
        rx := [], next_fd := next_fd answering_net + k, clock := []\<rparr>)"
    by (rule writeEPCQ_answered [where es = "[]" and cs = "replicate 10 0"])
      (simp_all add: answering_net_def reachable_demo)
  then show ?thesis
    by (auto simp: writeEPCQ_datagrams_def pages_datagrams_def page_datagrams_def answering_net_def quiet_net_def
      data_pages_def)
qed

theorem writeEPCQ_sends_witness:
  "\<exists>ts. tx (snd (writeEPCQ demo_server [7] 0x01F60000 True quiet_net)) = ts \<and>
     subseq ts (writeEPCQ_datagrams demo_server (data_pages [7] 0 1) 0x01F60000 True)"
  using writeEPCQ_sends [of "[7]" demo_server "0x01F60000" True quiet_net] by (auto simp: quiet_net_def)

theorem writeEPCQ_verified_witness:
  "\<exists>n w'. writeEPCQ demo_server [7] 0 False
       (quiet_net\<lparr>rx := map Queued (replicate 2 DON_datagram @ page_answers (data_pages [7] 0 1)),
          clock := replicate 8 0\<rparr>) = (Done n, w') \<and> n = 64"
proof -
  let ?w = "quiet_net\<lparr>rx := map Queued (replicate 2 DON_datagram @ page_answers (data_pages [7] 0 1)),
    clock := replicate 8 0\<rparr>"
  have "talk demo_server (writeEPCQ demo_server [7] 0 False) 64
      (writeEPCQ_datagrams demo_server (data_pages [7] 0 1) 0 False)
      (replicate 2 DON_datagram @ page_answers (data_pages [7] 0 1)) 8"
    using talk_writeEPCQ [of "[7]" "data_pages [7] 0 1" demo_server 0 False] by simp
  then obtain w' where e: "writeEPCQ demo_server [7] 0 False ?w = (Done 64, w')"
    using reachable_demo talkD [of demo_server _ _ _ _ _ ?w "[]" "replicate 8 0" "[]"] by fastforce
  with writeEPCQ_verified [OF e] show ?thesis by auto
qed

end
