(* ===== verification/FlashPages.thy ===== *)
theory FlashPages
  imports Flash
begin

text \<open>
  Configuration pages and \<open>readEPCQ\<close>. A reference definition says how a message
  is laid out in blocks; the header loop of \<open>writeFlashConfig\<close> is shown equal to it, and the
  loader of the board, after \<open>config_data_manager.vhd\<close>, is shown to lose the last word of every block.
\<close>

subsection \<open>Layout of a configuration page\<close>

text \<open>Blocks of up to 63 words, each after its header; the last one is shorter and may be empty.\<close>

fun page_layout :: "u32 list \<Rightarrow> u32 list" where
  "page_layout msg =
     (if length msg < 63 then config_header (word_of_nat (length msg)) # msg
      else config_header 63 # take 63 msg @ page_layout (drop 63 msg))"

declare page_layout.simps [simp del]

text \<open>
  How the board loads a configuration page: the states \<open>WAIT_READ\<close> and \<open>READ_DATA\<close> of
  \<open>config_data_manager.vhd\<close>, over the words the flash delivers, 64 at a time. The first word of
  each 64 is a header; without the flag 0xCD in its top byte the page ends. The next byte is the
  size of the block, \<^emph>\<open>including\<close> the header (\<open>words_read\<close> starts at 1 and a word is forwarded while
  \<open>words_read < block_size\<close>); the last two are the port the words of the block are forwarded to.
\<close>

fun config_load :: "u32 list \<Rightarrow> (byte list \<times> u32) list" where
  "config_load [] = []"
| "config_load (header # ws) =
     (if bytes_of_word header ! 0 \<noteq> 0xCD then []
      else let block_size = unat (bytes_of_word header ! 1); port = drop 2 (bytes_of_word header)
           in map (\<lambda>x. (port, x)) (take (block_size - 1) (take 63 ws)) @ config_load (drop 63 ws))"

text \<open>The message cut into blocks of 63 words; the last one is shorter and may be empty.\<close>

fun config_blocks :: "u32 list \<Rightarrow> u32 list list" where
  "config_blocks msg = (if length msg < 63 then [msg] else take 63 msg # config_blocks (drop 63 msg))"

declare config_blocks.simps [simp del]

lemma bytes_of_config_header: "bytes_of_word (config_header n) = [0xCD, n, 0x42, 0x68]"
proof -
  have "0xCD000000 + push_bit 16 (ucast n) + 0x4268 = word_of_bytes [0x68, 0x42, n, 0xCD]"
    by (simp add: word_of_bytes_add push_bit_eq_mult del: word_of_bytes.simps)
  then show ?thesis
    by (simp add: config_header_def bytes_of_bswap_32 bytes_of_word_of_bytes del: word_of_bytes.simps)
qed

lemma insert_headers_layout:
  assumes "length pre = 64 * i" and "k = length rest div 63 + 1" and "nwords mod 63 = length rest mod 63"
  shows "insert_headers k i nwords (pre @ rest) = pre @ page_layout rest"
  using assms
proof (induction k arbitrary: i pre rest)
  case (Suc k)
  show ?case
  proof (cases "length rest < 63")
    case True
    with Suc.prems show ?thesis
      by (simp add: vector_insert_def page_layout.simps [of rest] mult.commute)
  next
    case False
    then have k: "0 < k" "k = length (drop 63 rest) div 63 + 1"
      using Suc.prems(2) by (simp_all add: le_div_geq)
    let ?pre = "pre @ config_header 63 # take 63 rest"
    have "insert_headers (Suc k) i nwords (pre @ rest) =
        insert_headers k (Suc i) nwords (?pre @ drop 63 rest)"
      using k(1) Suc.prems(1) by (simp add: vector_insert_def mult.commute)
    also have "\<dots> = ?pre @ page_layout (drop 63 rest)"
    proof (rule Suc.IH)
      show "nwords mod 63 = length (drop 63 rest) mod 63"
        using False Suc.prems(3) by (simp add: le_mod_geq)
    qed (use False k Suc.prems(1) in simp_all)
    finally show ?thesis using False by (simp add: page_layout.simps [of rest])
  qed
qed simp

lemma config_page_words_eq: "config_page_words msg = page_layout msg"
  unfolding config_page_words_def using insert_headers_layout [of "[]" 0 _ msg] by simp

text \<open>
  C26. The loop that inserts a header every 64 words, moving the rest of the vector up each time,
  computes exactly the layout in blocks.
\<close>

theorem config_page_words_layout: "config_page_words msg = page_layout msg"
  by (rule config_page_words_eq)

lemma concat_data_pages_drop:
  "concat (data_pages data i k) = take (64 * k) (drop i data) @ replicate (64 * k - (length data - i)) 0xFFFFFFFF"
proof (induction k arbitrary: i)
  case (Suc k)
  have "fill_page data i = take 64 (drop i data) @ replicate (64 - (length data - i)) 0xFFFFFFFF"
    by (rule nth_equalityI) (auto simp: fill_page_def epcq_consts nth_append)
  then show ?case
    using Suc [of "i + 64"]
    by (cases "64 \<le> length data - i") (simp_all add: data_pages_Suc take_add algebra_simps flip: replicate_add)
qed (simp add: data_pages_def)

lemma concat_data_pages:
  "concat (data_pages data 0 (length data div 64 + 1)) =
     data @ replicate (64 * (length data div 64 + 1) - length data) 0xFFFFFFFF"
proof -
  have "length data \<le> 64 * (length data div 64 + 1)" by presburger
  then show ?thesis by (simp add: concat_data_pages_drop)
qed

lemma config_load_erased [simp]: "config_load (replicate n 0xFFFFFFFF) = []"
  by (cases n) (simp_all add: bytes_of_word_def)

lemma take_bytes_of_config_header: "drop 2 (bytes_of_word (config_header n)) = [0x42, 0x68]"
  by (simp add: bytes_of_config_header)

lemma config_load_layout:
  "config_load (page_layout msg @ replicate n 0xFFFFFFFF) =
     map (\<lambda>x. ([0x42, 0x68], x)) (concat (map butlast (config_blocks msg)))"
proof (induction msg rule: page_layout.induct)
  case (1 msg)
  have small: "unat (word_of_nat n :: byte) = n" if "n < 64" for n
    using that by (simp add: unat_of_nat)
  show ?case
  proof (cases "length msg < 63")
    case True
    then show ?thesis
      using small [of "length msg"]
      by (simp add: page_layout.simps [of msg] config_blocks.simps [of msg] bytes_of_config_header Let_def
        butlast_conv_take)
  next
    case False
    then show ?thesis
      using "1.IH" by (simp add: page_layout.simps [of msg] config_blocks.simps [of msg] bytes_of_config_header
        Let_def butlast_conv_take min_def)
  qed
qed

lemma length_butlast_blocks:
  "length (concat (map butlast (config_blocks msg))) = length msg - (length msg + 62) div 63"
proof (induction msg rule: config_blocks.induct)
  case (1 msg)
  show ?case
  proof (cases "length msg < 63")
    case True
    then have "(length msg + 62) div 63 = (if msg = [] then 0 else 1)"
      by (cases msg) (simp_all add: div_nat_eqI)
    with True show ?thesis by (simp add: config_blocks.simps [of msg])
  next
    case False
    then have "(length msg + 62) div 63 = Suc ((length msg - 63 + 62) div 63)"
      by (simp add: le_div_geq)
    moreover have "(length msg - 63 + 62) div 63 \<le> length msg - 63"
      by (cases "length msg = 63") (simp_all add: div_le_dividend less_mult_imp_div_less flip: less_Suc_eq_le)
    ultimately show ?thesis
      using False 1 by (simp add: config_blocks.simps [of msg]) linarith
  qed
qed

text \<open>
  C27. What a saved configuration page is worth: when the board loads the pages that
  \<open>writeFlashConfig\<close> writes (padded, and followed by erased flash), it forwards to port 0x4268 the
  words of the message but for the last word of every block, because the header counts the words
  after it and the board counts the header too. So one word in 63, and always the last, is lost.
\<close>

theorem config_page_as_loaded:
  "config_load (concat (data_pages (config_page_words msg) 0 (length (config_page_words msg) div 64 + 1)) @
       replicate n 0xFFFFFFFF) =
     map (\<lambda>x. ([0x42, 0x68], x)) (concat (map butlast (config_blocks msg))) \<and>
   concat (config_blocks msg) = msg \<and>
   length (concat (map butlast (config_blocks msg))) = length msg - (length msg + 62) div 63"
proof (intro conjI)
  show "concat (config_blocks msg) = msg"
    by (induction msg rule: config_blocks.induct) (subst config_blocks.simps, simp)
qed (unfold concat_data_pages config_page_words_eq append_assoc replicate_add [symmetric],
  rule config_load_layout, rule length_butlast_blocks)

lemma length_page_layout: "length (page_layout msg) = length msg + length msg div 63 + 1"
proof (induction msg rule: page_layout.induct)
  case (1 msg)
  then show ?case
    by (cases "length msg < 63") (simp_all add: page_layout.simps [of msg] le_div_geq)
qed

lemma length_config_page_words: "length (config_page_words msg) = length msg + length msg div 63 + 1"
  by (simp add: config_page_words_eq length_page_layout)

text \<open>
  C28. A configuration page number outside 0 to 9 is refused with -2 and nothing is sent. Otherwise
  the write only sends the conversation that stores the page at its own sector, which starts at
  0x01F60000 plus 0x10000 for each page; as long as the message has at most 16000 words, every
  address it sets lies inside that sector.
\<close>

theorem writeFlashConfig_sends:
  assumes "msg = fst (getConfigMessage (configBlocks srv))" and "length msg \<le> 16000"
    and "pages = data_pages (config_page_words msg) 0 (length (config_page_words msg) div 64 + 1)"
  shows "(if 0 \<le> page \<and> page \<le> 9
     then (\<exists>ts. tx (snd (writeFlashConfig srv page w)) = tx w @ ts \<and>
        subseq ts (writeEPCQ_datagrams srv pages (0x01F60000 + 0x10000 * word_of_int page) True)) \<and>
        256 * length pages \<le> 65536
     else \<exists>srv'. writeFlashConfig srv page w = (Done (-2, srv'), w))"
proof (cases "0 \<le> page \<and> page \<le> 9")
  case True
  define l where "l = snd (getConfigMessage (configBlocks srv))"
  have "page = 0 \<or> page = 1 \<or> page = 2 \<or> page = 3 \<or> page = 4 \<or> page = 5 \<or> page = 6 \<or> page = 7 \<or>
      page = 8 \<or> page = 9"
    using True by presburger
  then have addr: "CONFIG_PAGE_ADDRESS ! nat page = 0x01F60000 + 0x10000 * word_of_int page"
    by (auto simp: CONFIG_PAGE_ADDRESS_def)
  have "length msg div 63 \<le> 16000 div 63" using assms(2) by (rule div_le_mono)
  then have len: "length (config_page_words msg) < 16384" using assms(2) by (simp add: length_config_page_words)
  then have "length (config_page_words msg) div 64 \<le> 16383 div 64" by (intro div_le_mono) simp
  then have fit: "256 * length pages \<le> 65536" using assms(3) by simp
  let ?srv = "srv\<lparr>configBlocks := l\<rparr>" and ?a = "0x01F60000 + 0x10000 * word_of_int page :: u32"
  have "writeEPCQ_datagrams ?srv pages ?a True = writeEPCQ_datagrams srv pages ?a True"
    by (simp add: writeEPCQ_datagrams_def pages_datagrams_def page_datagrams_def command_datagram_def data_datagram_def)
  then have "sends (writeEPCQ ?srv (config_page_words msg) ?a True) (writeEPCQ_datagrams srv pages ?a True)"
    using sends_writeEPCQ [of "config_page_words msg" ?srv ?a True] len assms(3) by simp
  then have "sends (bind_io (writeEPCQ ?srv (config_page_words msg) ?a True) (\<lambda>n. ret_io (n, ?srv)))
      (writeEPCQ_datagrams srv pages ?a True)"
    by (rule sends_bind_last) simp
  then have "sends (writeFlashConfig srv page) (writeEPCQ_datagrams srv pages ?a True)"
    using True assms(1) by (simp add: writeFlashConfig_def addr l_def split_beta Let_def)
  with fit True show ?thesis by (simp add: sends_def)
qed (auto simp: writeFlashConfig_def split: prod.splits)

lemma demo_message_short: "length (fst (getConfigMessage (configBlocks demo_server))) = 107"
  using default_message_length by (simp add: demo_server_def Let_def)

theorem writeFlashConfig_sends_witness:
  "\<exists>srv'. writeFlashConfig demo_server 10 quiet_net = (Done (-2, srv'), quiet_net)"
  using writeFlashConfig_sends [OF refl _ refl, of demo_server 10 quiet_net] demo_message_short by simp

subsection \<open>Reading the flash\<close>

lemma readEPCQ_loop_length:
  "readEPCQ_loop k srv addr out w = (Done out', w') \<Longrightarrow> length out' = length out + 256 * k"
proof (induction k arbitrary: addr out w)
  case (Suc k)
  then show ?case
    by (fastforce simp: bind_io_eq_Done write_vector_def epcq_consts Let_def split: option.splits if_splits)
qed simp

text \<open>
  \<open>readEPCQ\<close> reports the number of words asked for, but the file it leaves is too short unless
  that number is a multiple of 64: the words after the last full page are written with a count in
  words where the stream expects bytes, so only a quarter of them reaches the file.
\<close>

theorem readEPCQ_file_length:
  assumes "readEPCQ srv start words w = (Done (n, bytes), w')" and "0 \<le> words"
  shows "n = words \<and> length bytes = 256 * (nat words div 64) + nat words mod 64"
proof -
  obtain m where m: "words = int m" using assms(2) nonneg_int_cases by blast
  have k: "nat (div_c words (int PAGE_SIZE_WORDS)) = m div 64"
    by (cases m) (simp_all add: m div_c_def epcq_consts nat_div_distrib)
  have left: "words - int (m div 64 * 64) = int (m mod 64)"
    unfolding m by (metis add_diff_cancel_left' div_mult_mod_eq of_nat_add)
  obtain out bs w1 w2 read_page where "readEPCQ_loop (m div 64) srv start [] w1 = (Done out, w2)"
    and "write_vector read_page (words - int (m div 64 * PAGE_SIZE_WORDS)) = Done bs" and "bytes = out @ bs"
    and "n = int (m div 64 * PAGE_SIZE_WORDS) + (words - int (m div 64 * PAGE_SIZE_WORDS))"
    using assms(1) unfolding readEPCQ_def Let_def k by (auto simp: bind_io_eq_Done)
  moreover from this(2) have "length bs = m mod 64"
    using left by (auto simp: write_vector_def epcq_consts split: option.splits if_splits)
  ultimately show ?thesis using readEPCQ_loop_length by (fastforce simp: m)
qed

definition read_datagrams :: "ODILEServer \<Rightarrow> u32 \<Rightarrow> nat \<Rightarrow> datagram list" where
  "read_datagrams srv addr k =
     concat (map (\<lambda>p. [command_datagram srv ''ERD'' 64 0xFFFFFFFF,
       command_datagram srv ''ESA'' 0 (addr + of_nat (256 * Suc p))]) [0..<k])"

lemma read_datagrams_Suc:
  "read_datagrams srv addr (Suc k) = [command_datagram srv ''ERD'' 64 0xFFFFFFFF,
     command_datagram srv ''ESA'' 0 (addr + 256)] @ read_datagrams srv (addr + 256) k"
  by (simp add: read_datagrams_def upt_Suc_map comp_def algebra_simps del: upt_Suc)

lemma talk_read_page:
  assumes "length page \<le> 512"
  shows "talk srv (recieveData_any srv (Some []) FIRMWARE_PORT (-1) False)
    (int (length page), Some page) [] [bytes_of_words page] 0"
  using talk_recieveData [of "bytes_of_words page" srv] assms by (simp add: BUFFSIZE_def)

lemma talk_write_vector:
  assumes "ws \<noteq> []" and "n \<le> 4 * length ws"
  shows "talk srv (\<lambda>w. (write_vector (Some ws) (int n), w)) (take n (bytes_of_words ws)) [] [] 0"
  using assms talk_ret(2) [of srv "take n (bytes_of_words ws)"] by (simp add: write_vector_def)

lemma talk_readEPCQ_loop:
  assumes "\<forall>page \<in> set pages. length page = 64"
  shows "talk srv (readEPCQ_loop (length pages) srv addr out) (out @ concat (map bytes_of_words pages))
    (read_datagrams srv addr (length pages)) (concat (map (\<lambda>page. [bytes_of_words page, DON_datagram]) pages))
    (2 * length pages)"
  using assms
proof (induction pages arbitrary: addr out)
  case Nil
  then show ?case by (simp add: talk_ret read_datagrams_def)
next
  case (Cons page pages)
  obtain n where send: "talk srv (sendCommand srv ''ERD'' 64 0xFFFFFFFF) n [command_datagram srv ''ERD'' 64 0xFFFFFFFF] [] 0"
    using talk_sendCommand by (metis ascii3_literals(3))
  have size: "int PAGE_SIZE_WORDS = 64" "PAGE_SIZE_BYTES = 256" "(of_nat 256 :: u32) = 256"
    by (simp_all add: epcq_consts)
  have page: "length page = 64" using Cons.prems by simp
  have bytes: "take 256 (bytes_of_words page) = bytes_of_words page" using page by simp
  have wv: "talk srv (\<lambda>w. (write_vector (Some page) (int 256), w)) (bytes_of_words page) [] [] 0"
    using talk_write_vector [of page 256 srv] page bytes by (cases "page = []") auto
  note rest = Cons.IH [of "addr + 256" "out @ bytes_of_words page"]
  have "talk srv (readEPCQ_loop (Suc (length pages)) srv addr out)
      ((out @ bytes_of_words page) @ concat (map bytes_of_words pages))
      ([command_datagram srv ''ERD'' 64 0xFFFFFFFF] @ [] @ [] @ [command_datagram srv ''ESA'' 0 (addr + 256)] @
        read_datagrams srv (addr + 256) (length pages))
      ([] @ [bytes_of_words page] @ [] @ [DON_datagram] @ concat (map (\<lambda>page. [bytes_of_words page, DON_datagram]) pages))
      (0 + (0 + (0 + (2 + 2 * length pages))))"
    unfolding readEPCQ_loop.simps size Let_def
    by (rule talk_bind, rule send, rule talk_bind, rule talk_read_page, simp add: page, simp only: prod.case,
      rule talk_bind, rule wv, rule talk_bind, rule talk_command_and_wait, rule ascii3_literals, rule rest)
      (use Cons.prems in simp)
  then show ?case by (simp add: read_datagrams_Suc)
qed

lemma talk_readEPCQ:
  assumes "\<forall>page \<in> set pages. length page = 64" and "words = 64 * length pages + left" and "left < 64"
    and "rest \<noteq> []" and "left \<le> length rest" and "length rest \<le> 512"
  shows "talk srv (readEPCQ srv start (int words))
    (int words, concat (map bytes_of_words pages) @ take left (bytes_of_words rest))
    ([command_datagram srv ''ERB'' 0 0xFFFFFFFF, command_datagram srv ''ESA'' 0 start] @
      read_datagrams srv start (length pages) @ [command_datagram srv ''ERD'' (int left) 0xFFFFFFFF])
    ([DON_datagram, DON_datagram] @ concat (map (\<lambda>page. [bytes_of_words page, DON_datagram]) pages) @
      [bytes_of_words rest]) (4 + 2 * length pages)"
proof -
  have k: "nat (div_c (int words) (int PAGE_SIZE_WORDS)) = length pages"
    using assms(2,3) by (cases words) (simp_all add: div_c_def epcq_consts nat_div_distrib)
  have left: "int words - int (length pages * PAGE_SIZE_WORDS) = int left" "int (length pages * PAGE_SIZE_WORDS) + int left = int words"
    using assms(2) by (simp_all add: epcq_consts)
  obtain n where send: "talk srv (sendCommand srv ''ERD'' (int left) 0xFFFFFFFF) n [command_datagram srv ''ERD'' (int left) 0xFFFFFFFF] [] 0"
    using talk_sendCommand by (metis ascii3_literals(3))
  have wv: "talk srv (\<lambda>w. (write_vector (Some rest) (int left), w)) (take left (bytes_of_words rest)) [] [] 0"
    by (rule talk_write_vector) (use assms(4,5) in simp_all)
  have "talk srv (readEPCQ srv start (int words))
      (int words, concat (map bytes_of_words pages) @ take left (bytes_of_words rest))
      ([command_datagram srv ''ERB'' 0 0xFFFFFFFF] @ [command_datagram srv ''ESA'' 0 start] @
        read_datagrams srv start (length pages) @ [command_datagram srv ''ERD'' (int left) 0xFFFFFFFF] @ [] @ [] @ [])
      ([DON_datagram] @ [DON_datagram] @ concat (map (\<lambda>page. [bytes_of_words page, DON_datagram]) pages) @
        [] @ [bytes_of_words rest] @ [] @ []) (2 + (2 + (2 * length pages + (0 + (0 + (0 + 0))))))"
    unfolding readEPCQ_def k left Let_def
    by (rule talk_bind, rule talk_command_and_wait, rule ascii3_literals, rule talk_bind,
      rule talk_command_and_wait, rule ascii3_literals, rule talk_bind,
      rule talk_readEPCQ_loop [OF assms(1), of srv start "[]", simplified append_Nil], rule talk_bind, rule send,
      rule talk_bind, rule talk_read_page, rule assms(6), simp only: prod.case, rule talk_bind, rule wv, rule talk_ret)
  then show ?thesis by (simp add: eval_nat_numeral)
qed

text \<open>
  On a board that answers, \<open>readEPCQ\<close> walks through the flash page by page and leaves the full pages
  in the file as they were delivered, followed by the first bytes (one per word) of the last answer.
\<close>

theorem readEPCQ_answered:
  assumes "\<forall>page \<in> set pages. length page = 64" and "words = 64 * length pages + left" and "left < 64"
    and "rest \<noteq> []" and "left \<le> length rest" and "length rest \<le> 512" and "reachable_board srv w"
    and "rx w = map Queued ([DON_datagram, DON_datagram] @
           concat (map (\<lambda>page. [bytes_of_words page, DON_datagram]) pages) @ [bytes_of_words rest]) @ es"
    and "clock w = cs @ cs'" and "length cs = 4 + 2 * length pages"
  shows "\<exists>w'. readEPCQ srv start (int words) w =
      (Done (int words, concat (map bytes_of_words pages) @ take left (bytes_of_words rest)), w') \<and> rx w' = es \<and>
    tx w' = tx w @ [command_datagram srv ''ERB'' 0 0xFFFFFFFF, command_datagram srv ''ESA'' 0 start] @
      read_datagrams srv start (length pages) @ [command_datagram srv ''ERD'' (int left) 0xFFFFFFFF]"
proof -
  obtain k where "readEPCQ srv start (int words) w = (Done (int words, concat (map bytes_of_words pages) @
      take left (bytes_of_words rest)), advance ([command_datagram srv ''ERB'' 0 0xFFFFFFFF,
      command_datagram srv ''ESA'' 0 start] @ read_datagrams srv start (length pages) @
      [command_datagram srv ''ERD'' (int left) 0xFFFFFFFF]) es k cs' w)"
    using talkD [OF talk_readEPCQ [OF assms(1-6), of srv start] assms(7-10)] by blast
  then show ?thesis by simp
qed

definition reading_net :: net where
  "reading_net = quiet_net\<lparr>rx := map Queued [DON_datagram, DON_datagram, bytes_of_words [0x11223344, 5, 6]],
     clock := replicate 4 0\<rparr>"

theorem readEPCQ_answered_witness:
  "fst (readEPCQ demo_server 0 3 reading_net) = Done (3, [0x44, 0x33, 0x22])"
proof -
  have r: "reachable_board demo_server reading_net" by (simp add: reading_net_def reachable_demo)
  have "\<exists>w'. readEPCQ demo_server 0 (int 3) reading_net =
      (Done (int 3, concat (map bytes_of_words []) @ take 3 (bytes_of_words [0x11223344, 5, 6])), w') \<and> rx w' = [] \<and>
    tx w' = tx reading_net @ [command_datagram demo_server ''ERB'' 0 0xFFFFFFFF, command_datagram demo_server ''ESA'' 0 0] @
      read_datagrams demo_server 0 (length ([] :: u32 list list)) @ [command_datagram demo_server ''ERD'' (int 3) 0xFFFFFFFF]"
    by (rule readEPCQ_answered [where es = "[]" and cs = "replicate 4 0" and cs' = "[]"])
      (simp_all add: r, simp_all add: reading_net_def)
  then show ?thesis by (auto simp: bytes_of_word_def)
qed

theorem readEPCQ_file_length_witness:
  "\<exists>bytes w'. readEPCQ demo_server 0 3 reading_net = (Done (3, bytes), w') \<and> length bytes = 3"
proof -
  have t: "talk demo_server (readEPCQ demo_server 0 (int 3)) (int 3, take 3 (bytes_of_words [0x11223344, 5, 6]))
      ([command_datagram demo_server ''ERB'' 0 0xFFFFFFFF, command_datagram demo_server ''ESA'' 0 0] @
        read_datagrams demo_server 0 0 @ [command_datagram demo_server ''ERD'' (int 3) 0xFFFFFFFF])
      [DON_datagram, DON_datagram, bytes_of_words [0x11223344, 5, 6]] 4"
    using talk_readEPCQ [of "[]" 3 3 "[0x11223344, 5, 6]" demo_server 0] by simp
  have "\<exists>k. readEPCQ demo_server 0 (int 3) reading_net = (Done (int 3, take 3 (bytes_of_words [0x11223344, 5, 6])),
      advance ([command_datagram demo_server ''ERB'' 0 0xFFFFFFFF, command_datagram demo_server ''ESA'' 0 0] @
        read_datagrams demo_server 0 0 @ [command_datagram demo_server ''ERD'' (int 3) 0xFFFFFFFF]) [] k [] reading_net)"
    by (rule talkD [OF t, where cs = "replicate 4 0"])
      (simp_all add: reading_net_def reachable_demo)
  then obtain bytes w' where e: "readEPCQ demo_server 0 3 reading_net = (Done (3, bytes), w')" by auto
  with readEPCQ_file_length [OF e] show ?thesis by simp
qed

end
