(* ===== verification/Firmware.thy ===== *)
theory Firmware
  imports FlashPages
begin

text \<open>
  Properties of \<open>writeFirmware\<close>: what is read from the image (past its end the last word is
  repeated, or filled up from it), that the function never returns a success code, that -2 means that
  the page in question was not delivered, that reaching its end means that every page was read back as
  written, and that it reaches its end on a board that answers.
\<close>

subsection \<open>The image\<close>

text \<open>The pages the loop reads, one after the other.\<close>

fun firmware_pages :: "nat \<Rightarrow> firmware_stream \<Rightarrow> u32 list list outcome" where
  "firmware_pages 0 st = Done []"
| "firmware_pages (Suc k) st =
     (let (page, st') = read_firmware_page PAGE_SIZE_WORDS st
      in obind page (\<lambda>p. obind (firmware_pages k st') (\<lambda>ps. Done (p # ps))))"

text \<open>Words as the code reads them once \<open>word\<close> is initialised: the bytes left, and the word.\<close>

definition stream_at :: "byte list \<Rightarrow> u32 \<Rightarrow> firmware_stream" where
  "stream_at bs x = (bs, map Some (bytes_of_word x))"

lemma take4_word:
  assumes "4 \<le> length bs"
  shows "take 4 bs = bytes_of_word (hd (words_of_bytes bs))"
    and "words_of_bytes bs = hd (words_of_bytes bs) # words_of_bytes (drop 4 bs)"
proof -
  obtain a b c d r where "bs = a # b # c # d # r"
    using assms by (auto simp: numeral_eq_Suc Suc_le_length_iff)
  then show "take 4 bs = bytes_of_word (hd (words_of_bytes bs))"
    "words_of_bytes bs = hd (words_of_bytes bs) # words_of_bytes (drop 4 bs)"
    using bytes_of_word_of_bytes [of a b c d] by (simp_all del: word_of_bytes.simps)
qed

lemma not_None_in_map_Some [simp]: "None \<notin> set (map Some xs)"
  by auto

lemma read_word_inside:
  assumes "4 \<le> length bs" and "length word \<le> 4"
  shows "read_word (bs, word) = (Done (hd (words_of_bytes bs)), stream_at (drop 4 bs) (hd (words_of_bytes bs)))"
  using assms take4_word(1) [OF assms(1)]
  by (simp add: read_word_def stream_at_def Let_def comp_def)

lemma read_word_at_end: "read_word (stream_at [] x) = (Done x, stream_at [] x)"
  by (simp add: read_word_def stream_at_def Let_def comp_def)

lemma read_page_at_end: "read_firmware_page k (stream_at [] x) = (Done (replicate k (bswap_32 x)), stream_at [] x)"
  by (induction k) (simp_all add: read_word_at_end)

text \<open>The words a stream delivers: those of the bytes left, then the last one forever.\<close>

definition delivered :: "byte list \<Rightarrow> u32 \<Rightarrow> nat \<Rightarrow> u32 list" where
  "delivered bs x n = take n (words_of_bytes bs @ replicate n (last (x # words_of_bytes bs)))"

lemma delivered_end: "delivered [] x n = replicate n x"
  by (simp add: delivered_def)

lemma delivered_Suc:
  assumes "4 \<le> length bs"
  shows "delivered bs x (Suc n) = hd (words_of_bytes bs) # delivered (drop 4 bs) (hd (words_of_bytes bs)) n"
proof -
  obtain y ys where ys: "words_of_bytes bs = y # ys" "words_of_bytes (drop 4 bs) = ys"
    using take4_word(2) [OF assms] by (metis list.sel(1,3))
  have "take n (ys @ z # replicate n z) = take n (ys @ replicate n z)" for z :: u32
    by (cases "n - length ys") (simp_all flip: replicate_Suc)
  with ys show ?thesis by (simp add: delivered_def)
qed

definition stream_after :: "byte list \<Rightarrow> u32 \<Rightarrow> nat \<Rightarrow> firmware_stream" where
  "stream_after bs x n = stream_at (drop (4 * n) bs) (last (x # take n (words_of_bytes bs)))"

lemma read_page_delivered:
  assumes "length bs = 4 * m" and "word = map Some (bytes_of_word x) \<or> 0 < m \<and> word = replicate 4 None"
  shows "0 < n \<Longrightarrow> read_firmware_page n (bs, word) = (Done (map bswap_32 (delivered bs x n)), stream_after bs x n)"
  using assms
proof (induction n arbitrary: bs word x m)
  case (Suc n)
  show ?case
  proof (cases m)
    case 0
    with Suc.prems have "bs = []" "(bs, word) = stream_at [] x" by (simp_all add: stream_at_def)
    then show ?thesis
      using read_page_at_end [of "Suc n" x] by (simp add: delivered_end stream_after_def)
  next
    case (Suc m')
    let ?y = "hd (words_of_bytes bs)"
    have 4: "4 \<le> length bs" "length word \<le> 4" using Suc Suc.prems by auto
    note word = take4_word(2) [OF 4(1)]
    have "read_firmware_page n (stream_at (drop 4 bs) ?y) =
        (Done (map bswap_32 (delivered (drop 4 bs) ?y n)), stream_after (drop 4 bs) ?y n)"
    proof (cases n)
      case 0
      then show ?thesis by (simp add: delivered_def stream_after_def)
    next
      case (Suc n')
      then show ?thesis
        using Suc.IH [of "drop 4 bs" m' _ ?y] Suc.prems \<open>m = Suc m'\<close> unfolding stream_at_def by simp
    qed
    moreover have "stream_after (drop 4 bs) ?y n = stream_after bs x (Suc n)"
      unfolding stream_after_def by (subst (2) word) (simp add: add.commute)
    ultimately show ?thesis
      using 4 by (simp add: read_word_inside delivered_Suc)
  qed
qed simp

lemma words_of_bytes_drop: "words_of_bytes (drop (4 * n) bs) = drop n (words_of_bytes bs)"
proof (induction n arbitrary: bs)
  case (Suc n)
  show ?case
  proof (cases "4 \<le> length bs")
    case True
    then show ?thesis using take4_word(2) [OF True] Suc [of "drop 4 bs"]
      by (metis drop_Suc_Cons drop_drop mult_Suc_right add.commute)
  next
    case False
    then show ?thesis by (simp add: not_le)
  qed
qed simp

lemma take_append_replicate:
  assumes "m \<le> k"
  shows "take m (xs @ replicate k l) = take m (xs @ replicate m l)"
proof -
  have "m - length xs \<le> k" using assms by simp
  then show ?thesis by (simp add: min_absorb1)
qed

lemma delivered_add:
  "delivered bs x (n + m) =
     delivered bs x n @ delivered (drop (4 * n) bs) (last (x # take n (words_of_bytes bs))) m"
proof -
  let ?ws = "words_of_bytes bs" and ?l = "last (x # words_of_bytes bs)"
  have "last (last (x # take n ws) # drop n ws) = last (x # ws)" for ws
    by (cases "n < length ws") (auto simp: last_drop)
  then have l: "last (last (x # take n ?ws) # drop n ?ws) = ?l" .
  have "n + m - (n - length ?ws) \<ge> m" by simp
  then show ?thesis
    unfolding delivered_def words_of_bytes_drop l take_add drop_append drop_replicate
    using take_append_replicate [of n "n + m"] take_append_replicate [of m "n + m - (n - length ?ws)" "drop n ?ws"] by simp
qed

lemma length_delivered [simp]: "length (delivered bs x n) = n"
  by (simp add: delivered_def)

lemma firmware_pages_delivered:
  assumes "length bs = 4 * m" and "word = map Some (bytes_of_word x) \<or> 0 < m \<and> word = replicate 4 None"
  shows "\<exists>pages. firmware_pages k (bs, word) = Done pages \<and> length pages = k \<and>
    (\<forall>page \<in> set pages. length page = 64) \<and> concat pages = map bswap_32 (delivered bs x (64 * k))"
  using assms
proof (induction k arbitrary: bs word x m)
  case 0
  then show ?case by (simp add: delivered_def)
next
  case (Suc k)
  let ?bs = "drop (4 * 64) bs" and ?x = "last (x # take 64 (words_of_bytes bs))"
  have page: "read_firmware_page PAGE_SIZE_WORDS (bs, word) =
      (Done (map bswap_32 (delivered bs x 64)), ?bs, map Some (bytes_of_word ?x))"
    using read_page_delivered [OF Suc.prems, of 64]
    by (simp add: epcq_consts stream_after_def stream_at_def)
  have "length ?bs = 4 * (m - 64)" using Suc.prems(1) by simp
  then obtain pages where "firmware_pages k (?bs, map Some (bytes_of_word ?x)) = Done pages" "length pages = k"
      "\<forall>page \<in> set pages. length page = 64" "concat pages = map bswap_32 (delivered ?bs ?x (64 * k))"
    using Suc.IH [of ?bs "m - 64" _ ?x] by blast
  then show ?case
    using page delivered_add [of bs x 64 "64 * k"] by (intro exI) (auto simp: Let_def)
qed

text \<open>
  An image whose length is no multiple of four: the bytes left at its end replace the first bytes of
  the last word read. Reading it is like reading the image filled up with the other bytes of that word.
\<close>

definition filled_up :: "byte list \<Rightarrow> u32 \<Rightarrow> byte list" where
  "filled_up bs x = bs @ (if length bs mod 4 = 0 then []
     else drop (length bs mod 4) (bytes_of_word (last (x # words_of_bytes bs))))"

lemma words_of_bytes_short: "length bs < 4 \<Longrightarrow> words_of_bytes bs = []"
  by (metis length_words_of_bytes div_less length_0_conv)

lemma four_bytes:
  assumes "length (bs :: byte list) = 4"
  obtains a b c d where "bs = [a, b, c, d]"
  using assms by (auto simp: numeral_eq_Suc length_Suc_conv)

lemma filled_up_drop:
  assumes "4 \<le> length bs"
  shows "drop 4 (filled_up bs x) = filled_up (drop 4 bs) (hd (words_of_bytes bs))"
    and "hd (words_of_bytes (filled_up bs x)) = hd (words_of_bytes bs)"
proof -
  have l: "last (x # words_of_bytes bs) = last (hd (words_of_bytes bs) # words_of_bytes (drop 4 bs))"
    using take4_word(2) [OF assms] by (metis last_ConsR list.distinct(1))
  have m: "(length bs - 4) mod 4 = length bs mod 4" using assms by (simp add: le_mod_geq)
  show "drop 4 (filled_up bs x) = filled_up (drop 4 bs) (hd (words_of_bytes bs))"
    using assms by (simp add: filled_up_def l m del: last.simps)
  obtain a b c d r where "bs = a # b # c # d # r"
    using assms by (auto simp: numeral_eq_Suc Suc_le_length_iff)
  then show "hd (words_of_bytes (filled_up bs x)) = hd (words_of_bytes bs)"
    by (simp add: filled_up_def del: word_of_bytes.simps)
qed

lemma read_word_filled_up:
  assumes "word = map Some (bytes_of_word x) \<or> 4 \<le> length bs \<and> word = replicate 4 None"
  shows "\<exists>y. read_word (bs, word) = (Done y, stream_at (drop 4 bs) y) \<and>
    read_word (filled_up bs x, word) = (Done y, stream_at (filled_up (drop 4 bs) y) y)"
proof (cases "4 \<le> length bs")
  case True
  moreover have "4 \<le> length (filled_up bs x)" using True by (simp add: filled_up_def)
  moreover have "length word \<le> 4" using assms by auto
  ultimately show ?thesis
    using read_word_inside filled_up_drop [OF True, of x] by metis
next
  case False
  then have w: "word = map Some (bytes_of_word x)" and small: "length bs mod 4 = length bs" "words_of_bytes bs = []"
    using assms by (simp_all add: not_le words_of_bytes_short)
  let ?full = "bs @ drop (length bs) (bytes_of_word x)"
  have full: "filled_up bs x = (if bs = [] then [] else ?full)" using small by (simp add: filled_up_def)
  have nil: "filled_up [] y = []" for y by (simp add: filled_up_def)
  have len: "length ?full = 4" using False by simp
  obtain a b c d where abcd: "?full = [a, b, c, d]" using len by (rule four_bytes)
  have "bytes_of_word (word_of_bytes ?full) = ?full" unfolding abcd by (rule bytes_of_word_of_bytes)
  moreover have "map Some bs @ drop (length bs) word = map Some ?full" by (simp add: w drop_map)
  ultimately have 1: "read_word (bs, word) = (Done (word_of_bytes ?full), stream_at [] (word_of_bytes ?full))"
    using False by (simp add: read_word_def stream_at_def Let_def comp_def del: word_of_bytes.simps)
  have "bs = [] \<Longrightarrow> word_of_bytes ?full = x" by simp
  then have "read_word (filled_up bs x, word) = (Done (word_of_bytes ?full), stream_at [] (word_of_bytes ?full))"
    using len \<open>bytes_of_word (word_of_bytes ?full) = ?full\<close> w
    by (auto simp: full read_word_def stream_at_def Let_def comp_def simp del: word_of_bytes.simps)
  with 1 show ?thesis using False by (intro exI [of _ "word_of_bytes ?full"]) (simp add: nil)
qed

lemma read_page_filled_up:
  assumes "0 < n" and "word = map Some (bytes_of_word x) \<or> 4 \<le> length bs \<and> word = replicate 4 None"
  shows "\<exists>ws bs' y. read_firmware_page n (bs, word) = (Done ws, stream_at bs' y) \<and>
    read_firmware_page n (filled_up bs x, word) = (Done ws, stream_at (filled_up bs' y) y)"
  using assms
proof (induction n arbitrary: bs word x)
  case (Suc n)
  obtain y where y: "read_word (bs, word) = (Done y, stream_at (drop 4 bs) y)"
    "read_word (filled_up bs x, word) = (Done y, stream_at (filled_up (drop 4 bs) y) y)"
    using read_word_filled_up [OF Suc.prems(2)] by blast
  show ?case
  proof (cases n)
    case 0
    show ?thesis
      by (rule exI [of _ "[bswap_32 y]"], rule exI [of _ "drop 4 bs"], rule exI [of _ y]) (use y 0 in simp)
  next
    case (Suc m)
    then have "\<exists>ws bs' z. read_firmware_page n (stream_at (drop 4 bs) y) = (Done ws, stream_at bs' z) \<and>
        read_firmware_page n (stream_at (filled_up (drop 4 bs) y) y) = (Done ws, stream_at (filled_up bs' z) z)"
      using Suc.IH [of "map Some (bytes_of_word y)" y "drop 4 bs"] by (simp add: stream_at_def)
    then show ?thesis using y by fastforce
  qed
qed simp

lemma firmware_pages_filled_up:
  assumes "word = map Some (bytes_of_word x) \<or> 4 \<le> length bs \<and> word = replicate 4 None"
  shows "firmware_pages k (filled_up bs x, word) = firmware_pages k (bs, word)"
  using assms
proof (induction k arbitrary: bs word x)
  case (Suc k)
  obtain ws bs' y where p: "read_firmware_page PAGE_SIZE_WORDS (bs, word) = (Done ws, stream_at bs' y)"
    "read_firmware_page PAGE_SIZE_WORDS (filled_up bs x, word) = (Done ws, stream_at (filled_up bs' y) y)"
    using read_page_filled_up [OF _ Suc.prems, of PAGE_SIZE_WORDS] by (auto simp: epcq_consts)
  then show ?case using Suc.IH [of "map Some (bytes_of_word y)" y bs'] by (simp add: stream_at_def Let_def)
qed simp

lemma words_of_bytes_append: "length bs mod 4 = 0 \<Longrightarrow> words_of_bytes (bs @ cs) = words_of_bytes bs @ words_of_bytes cs"
proof (induction bs rule: words_of_bytes.induct)
  case (1 a b c d bs)
  then show ?case by (simp del: word_of_bytes.simps)
qed simp_all

text \<open>The word that fills the rest of the last page.\<close>

definition tail_word :: "byte list \<Rightarrow> u32" where
  "tail_word bs = word_of_bytes (let rest = drop (4 * (length bs div 4)) bs
     in rest @ drop (length rest) (bytes_of_word (last (words_of_bytes bs))))"

lemma words_of_filled_up:
  assumes "4 \<le> length bs"
  shows "\<exists>m. 0 < m \<and> length (filled_up bs x) = 4 * m"
    and "take n (words_of_bytes (filled_up bs x) @ replicate n (last (words_of_bytes (filled_up bs x)))) =
      take n (words_of_bytes bs @ replicate n (tail_word bs))"
proof -
  let ?ws = "words_of_bytes bs" and ?n = "4 * (length bs div 4)"
  have ws: "?ws \<noteq> []" using take4_word(2) [OF assms] by auto
  have r: "length bs - ?n = length bs mod 4" by (simp add: minus_mult_div_eq_mod)
  show "\<exists>m. 0 < m \<and> length (filled_up bs x) = 4 * m"
  proof (intro exI conjI)
    show "length (filled_up bs x) = 4 * ((length bs + 3) div 4)"
      unfolding filled_up_def by (auto simp: ) presburger+
    show "0 < (length bs + 3) div 4" using assms by simp
  qed
  show "take n (words_of_bytes (filled_up bs x) @ replicate n (last (words_of_bytes (filled_up bs x)))) =
      take n (?ws @ replicate n (tail_word bs))"
  proof (cases "length bs mod 4 = 0")
    case True
    then have "length bs = ?n" using mult_div_mod_eq [of 4 "length bs"] by simp
    then have "drop ?n bs = []" by simp
    then have "tail_word bs = last ?ws" by (simp add: tail_word_def)
    then show ?thesis using True by (simp add: filled_up_def)
  next
    case False
    let ?rest = "drop ?n bs @ drop (length bs mod 4) (bytes_of_word (last ?ws))"
    have "filled_up bs x = take ?n bs @ ?rest"
      using False ws by (simp add: filled_up_def)
    moreover have "length (take ?n bs) mod 4 = 0" by (simp add: min_absorb2)
    moreover have "words_of_bytes (take ?n bs) = ?ws"
      using words_of_bytes_append [of "take ?n bs" "drop ?n bs"] r
      by (simp add: min_absorb2 words_of_bytes_short)
    moreover have "words_of_bytes ?rest = [word_of_bytes ?rest]"
    proof -
      have "length ?rest = 4" using r by simp
      then obtain a b c d where "?rest = [a, b, c, d]" by (rule four_bytes)
      then show ?thesis by (simp del: word_of_bytes.simps)
    qed
    moreover have "tail_word bs = word_of_bytes ?rest" using r by (simp add: tail_word_def Let_def)
    ultimately have f: "words_of_bytes (filled_up bs x) = ?ws @ [tail_word bs]"
      using words_of_bytes_append [of "take ?n bs" ?rest] by simp
    have "take n (tail_word bs # replicate n (tail_word bs)) = replicate n (tail_word bs)"
      by (simp flip: replicate_Suc)
    then have "take k (tail_word bs # replicate n (tail_word bs)) = take k (replicate n (tail_word bs))" if "k \<le> n" for k
      using that by (metis min.absorb1 take_take)
    then show ?thesis unfolding f by simp
  qed
qed

text \<open>
  C29. The pages \<open>writeFirmware\<close> writes, for every image. They are the whole words of the image in
  order, byte-swapped. Past its end one word is repeated up to the end of the last page (the flash
  is not filled up with ones): the last whole word, whose first bytes are replaced by the bytes left
  when the length is no multiple of four. An image of less than one word is read as an
  uninitialised variable.
\<close>

theorem firmware_pages_image:
  "if 4 \<le> length rpd
   then \<exists>pages. firmware_pages k (rpd, replicate 4 None) = Done pages \<and> length pages = k \<and>
     (\<forall>page \<in> set pages. length page = 64) \<and>
     concat pages = map bswap_32 (take (64 * k) (words_of_bytes rpd @ replicate (64 * k) (tail_word rpd)))
   else firmware_pages (Suc k) (rpd, replicate 4 None) = UB ''uninitialised word''"
proof (cases "4 \<le> length rpd")
  case True
  obtain m where m: "0 < m" "length (filled_up rpd 0) = 4 * m"
    using words_of_filled_up(1) [OF True, where x = 0] by blast
  then have "words_of_bytes (filled_up rpd 0) \<noteq> []" by (metis length_words_of_bytes list.size(3)
    nonzero_mult_div_cancel_left zero_neq_numeral less_numeral_extra(3))
  then have "delivered (filled_up rpd 0) 0 (64 * k) =
      take (64 * k) (words_of_bytes rpd @ replicate (64 * k) (tail_word rpd))"
    unfolding words_of_filled_up(2) [OF True, where x = 0, symmetric] by (simp add: delivered_def)
  then show ?thesis
    using True firmware_pages_delivered [OF m(2), of "replicate 4 None" 0 k] m(1)
      firmware_pages_filled_up [of "replicate 4 None" 0 rpd k] by auto
next
  case False
  have "fst (read_firmware_page (Suc j) (rpd, replicate 4 None)) = UB ''uninitialised word''" for j
    using False by (simp add: read_word_def split_beta)
  moreover have "PAGE_SIZE_WORDS = Suc 63" by (simp add: epcq_consts)
  ultimately have "fst (read_firmware_page PAGE_SIZE_WORDS (rpd, replicate 4 None)) = UB ''uninitialised word''" by metis
  then show ?thesis using False by (simp only: firmware_pages.simps Let_def split_beta obind.simps if_False)
qed

theorem firmware_pages_image_witness:
  "\<exists>pages. firmware_pages 1 ([0x11, 0x22, 0x33, 0x44, 1, 2], replicate 4 None) = Done pages \<and>
     concat pages = 0x11223344 # replicate 63 0x01023344"
proof -
  let ?bs = "[0x11, 0x22, 0x33, 0x44, 1, 2] :: byte list"
  have "words_of_bytes ?bs = [0x44332211]" "tail_word ?bs = 0x44330201"
    by (simp_all add: tail_word_def bytes_of_word_def)
  then have "take (64 * 1) (words_of_bytes ?bs @ replicate (64 * 1) (tail_word ?bs)) = 0x44332211 # replicate 63 0x44330201"
    by simp
  moreover have "map bswap_32 (0x44332211 # replicate 63 0x44330201) = 0x11223344 # replicate 63 0x01023344"
    by (simp add: bswap_32_def)
  ultimately show ?thesis
    using firmware_pages_image [of ?bs 1] by (auto simp del: firmware_pages.simps)
qed

subsection \<open>The loop\<close>

definition start_of_page :: "ODILEServer \<Rightarrow> u32 \<Rightarrow> bool io" where
  "start_of_page srv addr =
     bind_io (command_and_wait srv ''ESA'' 0 addr) (\<lambda>_.
       if unat addr mod SECTOR_BYTES = 0 then command_and_wait srv ''ESE'' 0 0xFFFFFFFF else ret_io True)"

lemma writeFirmware_loop_Suc:
  "writeFirmware_loop (Suc k) srv addr st =
     bind_io (start_of_page srv addr) (\<lambda>_.
       bind_io (\<lambda>w. (fst (read_firmware_page PAGE_SIZE_WORDS st), w)) (\<lambda>page.
         bind_io (write_and_verify srv addr page) (\<lambda>same.
           if \<not> same then ret_io False
           else writeFirmware_loop k srv (addr + of_nat PAGE_SIZE_BYTES) (snd (read_firmware_page PAGE_SIZE_WORDS st)))))"
  by (simp add: start_of_page_def bind_io_assoc split_beta)

lemma consumes_start_of_page: "consumes (start_of_page srv addr)"
  unfolding start_of_page_def by (auto intro!: consumes_bind consumes_command_and_wait intro: consumes_rx)

lemma read_firmware_page_length: "read_firmware_page n st = (Done page, st') \<Longrightarrow> length page = n"
  by (induction n arbitrary: st page) (auto simp: obind_eq_Done split: prod.splits)

lemma writeFirmware_loop_verified:
  assumes "writeFirmware_loop k srv addr st w = (Done True, w')"
  shows "\<exists>pages. firmware_pages k st = Done pages \<and> length pages = k \<and> (\<forall>page \<in> set pages. read_back page w)"
  using assms
proof (induction k arbitrary: addr st w)
  case (Suc k)
  obtain page st' where page: "read_firmware_page PAGE_SIZE_WORDS st = (page, st')"
    by (cases "read_firmware_page PAGE_SIZE_WORDS st")
  obtain a w1 p same w2 where 1: "start_of_page srv addr w = (Done a, w1)" and p: "page = Done p"
    and 2: "write_and_verify srv addr p w1 = (Done same, w2)"
    and 3: "(if \<not> same then ret_io False
      else writeFirmware_loop k srv (addr + of_nat PAGE_SIZE_BYTES) st') w2 = (Done True, w')"
    using Suc.prems unfolding writeFirmware_loop_Suc page fst_conv snd_conv by (auto simp: bind_io_eq_Done)
  have same using 3 by (cases same) auto
  have "p \<noteq> []" using read_firmware_page_length page p by (fastforce simp: epcq_consts)
  then have v: "read_back p w1" "payloads (rx w2) \<subseteq> payloads (rx w1)"
    using 2 \<open>same\<close> write_and_verify_read_back by auto
  have w1: "payloads (rx w1) \<subseteq> payloads (rx w)" using consumes_start_of_page 1 by (rule consumesD)
  obtain pages where "firmware_pages k st' = Done pages" "length pages = k" "\<forall>page \<in> set pages. read_back page w2"
    using Suc.IH [of "addr + of_nat PAGE_SIZE_BYTES" st' w2] 3 \<open>same\<close> by auto
  then show ?case using page p v w1 by (fastforce intro: read_back_mono)
qed simp

subsection \<open>What was read back last\<close>

text \<open>
  With no timeout a receive consumes the events up to the first that is a datagram or an error. What
  it heard is this event's datagram, cut to the buffer.
\<close>

definition heard :: "rx_event \<Rightarrow> byte list" where
  "heard e = (case event_payload e of Some d \<Rightarrow> take 2048 d | None \<Rightarrow> [])"

definition consumed :: "rx_event list \<Rightarrow> rx_event \<Rightarrow> rx_event list \<Rightarrow> bool" where
  "consumed es e es' \<longleftrightarrow> (\<exists>earlier. es = earlier @ e # es')"

lemma consumed_after: "suffix es1 es \<Longrightarrow> consumed es1 e es' \<Longrightarrow> consumed es e es'"
  by (auto simp: consumed_def suffix_def)

lemma consumed_suffix: "consumed es e es' \<Longrightarrow> suffix es' es"
  by (force simp: consumed_def suffix_def)

lemma recv_events_heard:
  "recv_events BUFFSIZE es = (Done (n, d), es') \<Longrightarrow>
     (n = int (length d) \<or> n = -1 \<and> d = []) \<and> (\<exists>e. consumed es e es' \<and> d = heard e)"
proof (induction BUFFSIZE es rule: recv_events.induct)
  case (5 es)
  then show ?case by (auto simp: consumed_def intro: exI [of _ "_ # _"])
next
  case (6 es)
  then show ?case by (auto simp: consumed_def intro: exI [of _ "_ # _"])
qed (auto simp: consumed_def heard_def BUFFSIZE_def)

lemma recieveData_heard:
  assumes "recieveData srv (Some ws) addr port t sw w = (Done (n, data), w')" and "t \<le> 0"
  obtains e where "consumed (rx w) e (rx w')" "data = Some (ws @ words_received sw (heard e))"
proof -
  obtain s w1 w2 len buf where b: "recv_events BUFFSIZE (rx w) = (Done (len, buf), rx w')"
      "data = Some (ws @ take (nat (div_c len 4)) (words_received sw buf))"
    using assms unfolding recieveData_block
    by (elim server_block_cases) (auto simp: bind_io_eq_Done receive_call_def server_recv_def split: prod.splits)
  obtain e where l: "len = int (length buf) \<or> len = -1 \<and> buf = []" and e: "consumed (rx w) e (rx w')" "buf = heard e"
    using recv_events_heard [OF b(1)] by blast
  have "take (nat (div_c len 4)) (words_received sw buf) = words_received sw buf"
    using l by (auto simp: div_c_nat div_c_minus_1 length_words_received words_received_def Let_def)
  with e b(2) that show thesis by simp
qed

text \<open>What a conversation consumes is the front of the events.\<close>

definition in_order :: "'a io \<Rightarrow> bool" where
  "in_order m \<longleftrightarrow> (\<forall>w a w'. m w = (Done a, w') \<longrightarrow> suffix (rx w') (rx w))"

lemma in_orderD: "in_order m \<Longrightarrow> m w = (Done a, w') \<Longrightarrow> suffix (rx w') (rx w)"
  by (simp add: in_order_def)

lemma in_order_bind: "in_order m \<Longrightarrow> (\<And>a. in_order (f a)) \<Longrightarrow> in_order (bind_io m f)"
  unfolding in_order_def bind_io_eq_Done by (blast intro: suffix_order.trans)

lemma in_order_rx: "(\<And>w. rx (snd (m w)) = rx w) \<Longrightarrow> in_order m"
  unfolding in_order_def by (metis suffix_order.refl snd_conv)

lemma in_order_sendCommand: "in_order (sendCommand srv cmd pre second)"
  by (rule in_order_rx)
    (simp add: sendCommand_def bind_io_def client_send_words_def client_send_def split: outcome.splits)

lemma in_order_sendData: "in_order (sendData srv page port)"
proof (rule in_order_rx)
  fix w
  show "rx (snd (sendData srv page port w)) = rx w"
    by (cases rule: udp_client_new_cases [of "odile_address srv" port w])
      (auto simp: sendData_def with_object_def client_send_words_def client_send_def udp_client_delete_def)
qed

lemma in_order_recieveData: "t \<le> 0 \<Longrightarrow> in_order (recieveData srv (Some ws) addr port t sw)"
  unfolding in_order_def using recieveData_heard consumed_suffix by (metis prod.collapse)

lemma in_order_clock: "in_order clock_gettime_ms"
  by (rule in_order_rx) (simp add: clock_gettime_ms_def split: list.split)

lemma in_order_ret: "in_order (ret_io a)"
  by (rule in_order_rx) simp

lemma in_order_wait_loop: "in_order (wait_loop k srv (-1) start buffer)"
proof (induction k arbitrary: buffer)
  case 0
  then show ?case by (simp add: in_order_def)
next
  case (Suc k)
  have t: "div_c (-1) 10 = 0" by (simp add: div_c_def)
  let ?r = "recieveData srv (Some buffer) NULL_IPADDRESS COMMAND_PORT 0 True"
  let ?f = "\<lambda>(n, data). bind_io clock_gettime_ms (\<lambda>currtime.
      let buffer' = (case data of Some b \<Rightarrow> b | None \<Rightarrow> [])
      in if 0 < n \<and> (\<exists>x \<in> set buffer'. is_done_word x) then ret_io True
         else if 0 < (-1 :: int) \<and> -1 < currtime - start then ret_io False
         else wait_loop k srv (-1) start buffer')"
  have clock: "in_order (bind_io clock_gettime_ms (f :: int \<Rightarrow> bool io))" if "\<And>c. in_order (f c)" for f
    using in_order_clock that by (rule in_order_bind)
  have body: "in_order (?f p)" for p
    by (cases p) (auto simp: Let_def intro!: clock in_order_ret Suc.IH)
  have "in_order (bind_io ?r ?f)" by (rule in_order_bind, rule in_order_recieveData, simp, rule body)
  moreover have "wait_loop (Suc k) srv (-1) start buffer = bind_io ?r ?f"
    by (rule ext) (simp only: wait_loop.simps recieveData_any_def t)
  ultimately show ?case by simp
qed

lemma in_order_waitForDone: "in_order (waitForDone srv (-1))"
  unfolding in_order_def waitForDone_eq_Done using in_order_wait_loop [THEN in_orderD] by fastforce

lemma in_order_command_and_wait: "in_order (command_and_wait srv cmd pre second)"
  unfolding command_and_wait_def by (intro in_order_bind in_order_sendCommand in_order_waitForDone)

lemma in_order_start_of_page: "in_order (start_of_page srv addr)"
  unfolding start_of_page_def by (auto intro!: in_order_bind in_order_command_and_wait in_order_ret)

lemma write_and_verify_heard:
  assumes "write_and_verify srv addr page w = (Done same, w')"
  obtains e where "consumed (rx w) e (rx w')" "same \<longleftrightarrow> words_of_bytes (heard e) = page"
proof -
  let ?pre = "bind_io (command_and_wait srv ''ESA'' 0 addr) (\<lambda>_. bind_io (sendData srv page FIRMWARE_PORT) (\<lambda>_.
     bind_io (command_and_wait srv ''EWR'' (int PAGE_SIZE_WORDS) 0xFFFFFFFF) (\<lambda>_.
     sendCommand srv ''ERD'' (int PAGE_SIZE_WORDS) 0xFFFFFFFF)))"
  have "write_and_verify srv addr page = bind_io ?pre (\<lambda>_.
      bind_io (recieveData_any srv (Some []) FIRMWARE_PORT (-1) False) (\<lambda>(_, read_page).
       ret_io (read_page = Some page)))"
    by (simp add: write_and_verify_def bind_io_assoc)
  then obtain a w1 n data where 1: "?pre w = (Done a, w1)"
    and 2: "recieveData srv (Some []) NULL_IPADDRESS FIRMWARE_PORT (-1) False w1 = (Done (n, data), w')"
    and same: "same \<longleftrightarrow> data = Some page"
    using assms(1) by (auto simp: bind_io_eq_Done recieveData_any_def)
  have "in_order ?pre" by (intro in_order_bind in_order_command_and_wait in_order_sendCommand in_order_sendData)
  with 1 have "suffix (rx w1) (rx w)" by (rule in_orderD [rotated])
  moreover obtain e where "consumed (rx w1) e (rx w')" "data = Some ([] @ words_received False (heard e))"
    using 2 by (rule recieveData_heard) simp
  ultimately show thesis using that same by (auto simp: words_received_def intro: consumed_after)
qed

text \<open>A run that gives up has written and read back some pages, and hears another page for the next one.\<close>

lemma writeFirmware_loop_differs:
  assumes "writeFirmware_loop k srv addr st w = (Done False, w')"
  shows "\<exists>j pages page w1 e. j < k \<and> firmware_pages (Suc j) st = Done (pages @ [page]) \<and>
    writeFirmware_loop j srv addr st w = (Done True, w1) \<and>
    consumed (rx w1) e (rx w') \<and> words_of_bytes (heard e) \<noteq> page"
  using assms
proof (induction k arbitrary: addr st w)
  case (Suc k)
  obtain page st' where page: "read_firmware_page PAGE_SIZE_WORDS st = (page, st')"
    by (cases "read_firmware_page PAGE_SIZE_WORDS st")
  obtain a w1 p same w2 where 1: "start_of_page srv addr w = (Done a, w1)" and p: "page = Done p"
    and 2: "write_and_verify srv addr p w1 = (Done same, w2)"
    and 3: "(if \<not> same then ret_io False
      else writeFirmware_loop k srv (addr + of_nat PAGE_SIZE_BYTES) st') w2 = (Done False, w')"
    using Suc.prems unfolding writeFirmware_loop_Suc page fst_conv snd_conv by (auto simp: bind_io_eq_Done)
  obtain e where e: "consumed (rx w1) e (rx w2)" "same \<longleftrightarrow> words_of_bytes (heard e) = p"
    using 2 by (rule write_and_verify_heard)
  show ?case
  proof (cases same)
    case True
    then obtain j pages q w3 e' where IH: "j < k" "firmware_pages (Suc j) st' = Done (pages @ [q])"
      "writeFirmware_loop j srv (addr + of_nat PAGE_SIZE_BYTES) st' w2 = (Done True, w3)"
      "consumed (rx w3) e' (rx w')" "words_of_bytes (heard e') \<noteq> q"
      using Suc.IH [of "addr + of_nat PAGE_SIZE_BYTES" st' w2] 3 by auto
    have "writeFirmware_loop (Suc j) srv addr st w = (Done True, w3)"
      unfolding writeFirmware_loop_Suc page fst_conv snd_conv p
      using 1 2 True IH(3) by (simp add: bind_io_def)
    moreover have "firmware_pages (Suc (Suc j)) st = Done ((p # pages) @ [q])"
      using IH(2) page p by (simp del: firmware_pages.simps(2) add: firmware_pages.simps(2) [of "Suc j"])
    ultimately show ?thesis
      using IH(1,4,5) by (intro exI [of _ "Suc j"] exI [of _ "p # pages"] exI [of _ q] exI [of _ w3] exI [of _ e']) simp
  next
    case False
    have "rx w' = rx w2" using 3 False by simp
    moreover have "consumed (rx w) e (rx w2)"
      using consumed_after [OF in_orderD [OF in_order_start_of_page 1] e(1)] .
    ultimately show ?thesis
      using e(2) False page p
      by (intro exI [of _ 0] exI [of _ "[]"] exI [of _ p] exI [of _ w] exI [of _ e]) simp
  qed
qed simp

text \<open>The image file as the loop finds it, and the uninitialised variable it is read into.\<close>

definition image_stream :: "files \<Rightarrow> string \<Rightarrow> firmware_stream" where
  "image_stream fs f = (case fs f of None \<Rightarrow> [] | Some s \<Rightarrow> map byte_of_char s, replicate 4 None)"

text \<open>
  C30. \<open>writeFirmware\<close> has no success code. It returns -1 exactly for a start address that is not
  aligned to a sector, before it sends anything. It returns -2 when a page does not read back: the
  pages before it had been written and read back, and the last thing it received, the answer to
  reading this page, does not hold the page's words. After the last page it runs off its end; by
  then every page of the image has been read back as it was written.
\<close>

theorem writeFirmware_outcomes:
  "(\<forall>n w'. writeFirmware fs srv f m start w = (Done n, w') \<longrightarrow>
      n = -1 \<and> unat start mod 65536 \<noteq> 0 \<and> w' = w \<or>
      n = -2 \<and> unat start mod 65536 = 0 \<and>
      (\<exists>end_address k w0 j pages page w1 e. map_end_address fs m = Done end_address \<and>
         sendCommand srv ''ERB'' 0 0xFFFFFFFF w = (Done k, w0) \<and>
         j \<le> unat end_address div 256 \<and> firmware_pages (Suc j) (image_stream fs f) = Done (pages @ [page]) \<and>
         writeFirmware_loop j srv start (image_stream fs f) w0 = (Done True, w1) \<and>
         consumed (rx w1) e (rx w') \<and> words_of_bytes (heard e) \<noteq> page)) \<and>
   (\<forall>w'. writeFirmware_body fs srv f m start w = (Done None, w') \<longrightarrow>
      (\<exists>end_address pages. map_end_address fs m = Done end_address \<and>
         firmware_pages (unat end_address div 256 + 1) (image_stream fs f) = Done pages \<and>
         (\<forall>page \<in> set pages. \<exists>d \<in> payloads (rx w). words_of_bytes (take 2048 d) = page)))"
proof (intro conjI allI impI)
  fix n w'
  assume r: "writeFirmware fs srv f m start w = (Done n, w')"
  show "n = -1 \<and> unat start mod 65536 \<noteq> 0 \<and> w' = w \<or>
      n = -2 \<and> unat start mod 65536 = 0 \<and>
      (\<exists>end_address k w0 j pages page w1 e. map_end_address fs m = Done end_address \<and>
         sendCommand srv ''ERB'' 0 0xFFFFFFFF w = (Done k, w0) \<and>
         j \<le> unat end_address div 256 \<and> firmware_pages (Suc j) (image_stream fs f) = Done (pages @ [page]) \<and>
         writeFirmware_loop j srv start (image_stream fs f) w0 = (Done True, w1) \<and>
         consumed (rx w1) e (rx w') \<and> words_of_bytes (heard e) \<noteq> page)"
  proof (cases "unat start mod 65536 = 0")
    case False
    then show ?thesis using r
      by (auto simp: writeFirmware_def writeFirmware_body_def bind_io_eq_Done Let_def SECTOR_BYTES_def
        split: if_splits option.splits)
  next
    case True
    then obtain e k w0 where e: "map_end_address fs m = Done e" and 1: "sendCommand srv ''ERB'' 0 0xFFFFFFFF w = (Done k, w0)"
      and 2: "writeFirmware_loop (unat e div 256 + 1) srv start (image_stream fs f) w0 = (Done False, w')" and n: "n = -2"
      using r by (auto simp: writeFirmware_def writeFirmware_body_def bind_io_eq_Done Let_def epcq_consts image_stream_def
        simp del: writeFirmware_loop.simps split: if_splits option.splits)
    show ?thesis
      using writeFirmware_loop_differs [OF 2] e 1 n True by (auto simp: less_Suc_eq_le)
  qed
next
  fix w'
  assume "writeFirmware_body fs srv f m start w = (Done None, w')"
  then obtain e n w1 w2 where e: "map_end_address fs m = Done e"
    and 1: "sendCommand srv ''ERB'' 0 0xFFFFFFFF w = (Done n, w1)"
    and 2: "writeFirmware_loop (unat e div 256 + 1) srv start (image_stream fs f) w1 = (Done True, w2)"
    by (auto simp: writeFirmware_body_def bind_io_eq_Done Let_def epcq_consts image_stream_def simp del: writeFirmware_loop.simps
      split: if_splits)
  have "payloads (rx w1) \<subseteq> payloads (rx w)" using consumes_sendCommand 1 by (rule consumesD)
  moreover obtain pages where "firmware_pages (unat e div 256 + 1) (image_stream fs f) = Done pages" "\<forall>page \<in> set pages. read_back page w1"
    using writeFirmware_loop_verified [OF 2] by blast
  ultimately show "\<exists>end_address pages. map_end_address fs m = Done end_address \<and>
      firmware_pages (unat end_address div 256 + 1) (image_stream fs f) = Done pages \<and>
      (\<forall>page \<in> set pages. \<exists>d \<in> payloads (rx w). words_of_bytes (take 2048 d) = page)"
    using e read_back_mono unfolding read_back_def by blast
qed

subsection \<open>On a board that answers\<close>

definition erases :: "u32 \<Rightarrow> bool" where
  "erases addr \<longleftrightarrow> unat addr mod 65536 = 0"

fun firmware_datagrams :: "ODILEServer \<Rightarrow> u32 \<Rightarrow> u32 list list \<Rightarrow> datagram list" where
  "firmware_datagrams srv addr [] = []"
| "firmware_datagrams srv addr (page # pages) =
     command_datagram srv ''ESA'' 0 addr #
     (if erases addr then [command_datagram srv ''ESE'' 0 0xFFFFFFFF] else []) @
     page_datagrams srv addr page @ firmware_datagrams srv (addr + 256) pages"

fun firmware_answers :: "u32 \<Rightarrow> u32 list list \<Rightarrow> byte list list" where
  "firmware_answers addr [] = []"
| "firmware_answers addr (page # pages) =
     DON_datagram # (if erases addr then [DON_datagram] else []) @
     [DON_datagram, DON_datagram, bytes_of_words page] @ firmware_answers (addr + 256) pages"

fun firmware_waits :: "u32 \<Rightarrow> u32 list list \<Rightarrow> nat" where
  "firmware_waits addr [] = 0"
| "firmware_waits addr (page # pages) = 2 + (if erases addr then 2 else 0) + 4 + firmware_waits (addr + 256) pages"

lemma talk_start_of_page:
  "talk srv (start_of_page srv addr) True
     ([command_datagram srv ''ESA'' 0 addr] @ (if erases addr then [command_datagram srv ''ESE'' 0 0xFFFFFFFF] else []))
     ([DON_datagram] @ (if erases addr then [DON_datagram] else [])) (2 + (if erases addr then 2 else 0))"
proof -
  have "talk srv (if unat addr mod SECTOR_BYTES = 0 then command_and_wait srv ''ESE'' 0 0xFFFFFFFF else ret_io True) True
      (if erases addr then [command_datagram srv ''ESE'' 0 0xFFFFFFFF] else [])
      (if erases addr then [DON_datagram] else []) (if erases addr then 2 else 0)"
    using talk_command_and_wait [of "''ESE''" srv 0 "0xFFFFFFFF", OF ascii3_literals(5)]
    by (simp add: talk_ret erases_def SECTOR_BYTES_def)
  then show ?thesis
    unfolding start_of_page_def by (rule talk_bind [OF talk_command_and_wait [OF ascii3_literals(1)]])
qed

lemma talk_writeFirmware_loop:
  assumes "firmware_pages k st = Done pages"
  shows "talk srv (writeFirmware_loop k srv addr st) True
    (firmware_datagrams srv addr pages) (firmware_answers addr pages) (firmware_waits addr pages)"
  using assms
proof (induction k arbitrary: addr st pages)
  case 0
  then show ?case by (simp add: talk_ret)
next
  case (Suc k)
  obtain r st' where page: "read_firmware_page PAGE_SIZE_WORDS st = (r, st')"
    by (cases "read_firmware_page PAGE_SIZE_WORDS st")
  with Suc.prems obtain p ps where r: "r = Done p" and ps: "firmware_pages k st' = Done ps" "pages = p # ps"
    by (auto simp: obind_eq_Done)
  have p: "length p = 64" using read_firmware_page_length page r by (fastforce simp: epcq_consts)
  have size: "(of_nat PAGE_SIZE_BYTES :: u32) = 256" by (simp add: epcq_consts)
  let ?f = "\<lambda>same. if \<not> same then ret_io False else writeFirmware_loop k srv (addr + 256) st'"
  have rest: "talk srv (?f True) True (firmware_datagrams srv (addr + 256) ps) (firmware_answers (addr + 256) ps)
      (firmware_waits (addr + 256) ps)"
    using Suc.IH [OF ps(1), of "addr + 256"] by simp
  have "talk srv (writeFirmware_loop (Suc k) srv addr st) True
    (([command_datagram srv ''ESA'' 0 addr] @ (if erases addr then [command_datagram srv ''ESE'' 0 0xFFFFFFFF] else [])) @
      [] @ page_datagrams srv addr p @ firmware_datagrams srv (addr + 256) ps)
    (([DON_datagram] @ (if erases addr then [DON_datagram] else [])) @ [] @
      [DON_datagram, DON_datagram, bytes_of_words p] @ firmware_answers (addr + 256) ps)
    ((2 + (if erases addr then 2 else 0)) + (0 + (4 + firmware_waits (addr + 256) ps)))"
    unfolding writeFirmware_loop_Suc page r size fst_conv snd_conv
    by (rule talk_bind, rule talk_start_of_page, rule talk_bind, rule talk_ret(2), rule talk_bind,
      rule talk_write_and_verify, rule p, rule rest)
  then show ?case unfolding ps(2) by (simp add: add.assoc)
qed

lemma talk_writeFirmware_body:
  assumes "map_end_address fs m = Done end_address" and "unat start mod 65536 = 0" and "fs f = Some rpd"
    and "firmware_pages (unat end_address div 256 + 1) (map byte_of_char rpd, replicate 4 None) = Done pages"
  shows "talk srv (writeFirmware_body fs srv f m start) None
    (command_datagram srv ''ERB'' 0 0xFFFFFFFF # firmware_datagrams srv start pages)
    (firmware_answers start pages) (firmware_waits start pages)"
proof -
  obtain n where send: "talk srv (sendCommand srv ''ERB'' 0 0xFFFFFFFF) n [command_datagram srv ''ERB'' 0 0xFFFFFFFF] [] 0"
    using talk_sendCommand by (metis ascii3_literals(4))
  have al: "unat start mod SECTOR_BYTES = 0" using assms(2) by (simp add: SECTOR_BYTES_def)
  have "talk srv (writeFirmware_body fs srv f m start) None
    ([] @ [command_datagram srv ''ERB'' 0 0xFFFFFFFF] @ firmware_datagrams srv start pages @ [])
    ([] @ [] @ firmware_answers start pages @ []) (0 + (0 + (firmware_waits start pages + 0)))"
    unfolding writeFirmware_body_def assms(1,3) option.case Let_def
    by (rule talk_bind, rule talk_ret(2), simp only: al not_True_eq_False simp_thms if_False if_True,
      rule talk_bind, rule send, rule talk_bind, rule talk_writeFirmware_loop)
      (simp only: assms(4) PAGE_SIZE_BYTES_def, simp add: talk_ret)
  then show ?thesis by simp
qed

text \<open>
  C7. On a board that answers every command and returns every page as written, the firmware write
  works through the whole image: each page is addressed, the sector erased when a page starts
  one, the page written and read back, until the function runs off its end.
\<close>

theorem writeFirmware_answered:
  assumes "map_end_address fs m = Done end_address" and "unat start mod 65536 = 0" and "fs f = Some rpd"
    and "firmware_pages (unat end_address div 256 + 1) (map byte_of_char rpd, replicate 4 None) = Done pages"
    and "reachable_board srv w" and "rx w = map Queued (firmware_answers start pages) @ es"
    and "clock w = cs @ cs'" and "length cs = firmware_waits start pages"
  shows "\<exists>w'. writeFirmware fs srv f m start w = (UB ''missing return'', w') \<and> rx w' = es \<and>
    tx w' = tx w @ command_datagram srv ''ERB'' 0 0xFFFFFFFF # firmware_datagrams srv start pages"
  using talkD [OF talk_writeFirmware_body [OF assms(1-4)] assms(5-8)] by (auto simp: writeFirmware_def bind_io_def)

text \<open>A map file with the end address 0x7F, and an image of one word.\<close>

definition demo_files :: files where
  "demo_files = [''fw.map'' \<mapsto> ''BLOCK START ADDRESS END ADDRESS P 0x0 0x7F'', ''fw.rpd'' \<mapsto> ''ABCD'']"

lemma demo_end_address: "map_end_address demo_files ''fw.map'' = Done 0x7F"
  by code_simp

theorem writeFirmware_answered_witness:
  "\<exists>pages w'. writeFirmware demo_files demo_server ''fw.rpd'' ''fw.map'' 0x01000000
      (quiet_net\<lparr>rx := map Queued (firmware_answers 0x01000000 pages), clock := replicate 8 0\<rparr>) =
        (UB ''missing return'', w') \<and> concat pages = replicate 64 0x41424344 \<and> length (tx w') = 7"
proof -
  obtain pages where pages: "firmware_pages 1 (map byte_of_char ''ABCD'', replicate 4 None) = Done pages"
    "length pages = 1" "concat pages = map bswap_32 (delivered (map byte_of_char ''ABCD'') 0 64)"
    using firmware_pages_delivered [of "map byte_of_char ''ABCD''" 1 "replicate 4 None" 0 1] by auto
  then obtain page where p: "pages = [page]" by (cases pages) auto
  have "words_of_bytes (map byte_of_char ''ABCD'') = [0x44434241]" by (simp add: byte_of_char_def)
  then have "delivered (map byte_of_char ''ABCD'') 0 64 = replicate 64 0x44434241"
    by (simp add: delivered_def flip: replicate_Suc)
  moreover have "bswap_32 0x44434241 = 0x41424344" by (simp add: bswap_32_def)
  ultimately have c: "concat pages = replicate 64 0x41424344" using pages(3) by (metis map_replicate)
  let ?w = "quiet_net\<lparr>rx := map Queued (firmware_answers 0x01000000 pages), clock := replicate 8 0\<rparr>"
  have "\<exists>w'. writeFirmware demo_files demo_server ''fw.rpd'' ''fw.map'' 0x01000000 ?w = (UB ''missing return'', w') \<and>
    rx w' = [] \<and>
    tx w' = tx ?w @ command_datagram demo_server ''ERB'' 0 0xFFFFFFFF # firmware_datagrams demo_server 0x01000000 pages"
    by (rule writeFirmware_answered [OF demo_end_address, where cs = "replicate 8 0" and cs' = "[]" and rpd = "''ABCD''"])
      (use pages p in \<open>simp_all add: demo_files_def reachable_demo erases_def\<close>)
  moreover have "length (firmware_datagrams demo_server 0x01000000 pages) = 6"
    by (simp add: p erases_def page_datagrams_def)
  moreover have "tx ?w = []" by (simp add: quiet_net_def)
  ultimately show ?thesis using c by (auto intro!: exI [of _ pages])
qed

theorem writeFirmware_outcomes_witness:
  "fst (writeFirmware demo_files demo_server ''fw.rpd'' ''fw.map'' 0x100 quiet_net) = Done (-1)"
proof -
  have "\<exists>n. writeFirmware demo_files demo_server ''fw.rpd'' ''fw.map'' 0x100 quiet_net = (Done n, quiet_net)"
    by (simp add: writeFirmware_def writeFirmware_body_def bind_io_def demo_end_address SECTOR_BYTES_def)
  then obtain n where n: "writeFirmware demo_files demo_server ''fw.rpd'' ''fw.map'' 0x100 quiet_net = (Done n, quiet_net)" ..
  with writeFirmware_outcomes [of demo_files demo_server "''fw.rpd''" "''fw.map''" "0x100" quiet_net]
  show ?thesis by auto
qed

end
