(* ===== verification/Progress.thy ===== *)
theory Progress
  imports IeeeFloat
begin

text \<open>
  The progress bar of \<open>utils.hpp\<close>, printed by \<open>take_image\<close> and, copied into the loop, by
  \<open>ODILEServer::writeFirmware\<close>. The share of the work done is a quotient of two \<open>int\<close> computed in
  \<open>double\<close> and passed as \<open>float\<close>; the position of the arrow and the percentage are truncated
  products. The theory shows that the line is well formed and that, while the work goes on, neither
  the arrow nor the percentage moves back or leaves its range, with the distance of the percentage
  from the true share bounded.
\<close>

subsection \<open>The code\<close>

definition bar_char :: "int \<Rightarrow> int \<Rightarrow> string" where
  "bar_char pos i = (if i < pos then ''='' else if i = pos then ''>'' else '' '')"

definition print_progress :: "ieee \<Rightarrow> int \<Rightarrow> string outcome" where
  "print_progress progress barwidth =
     obind (to_int_fp (mul_fp float32 (of_int_fp float32 barwidth) progress)) (\<lambda>pos.
     obind (to_int_fp (mul_fp double64 (convert_fp double64 progress) (of_int_fp double64 100))) (\<lambda>percent.
       Done (''['' @ concat (map (bar_char pos) [0..barwidth - 1]) @ ''] '' @ dec_int percent @ '' %'' @ [CHR 0x0D])))"

text \<open>\<open>done * 1.0 / all\<close>, converted to \<open>float\<close>.\<close>

definition progress_of :: "int \<Rightarrow> int \<Rightarrow> ieee" where
  "progress_of k n =
     convert_fp float32
       (div_fp double64 (mul_fp double64 (of_int_fp double64 k) (of_int_fp double64 1)) (of_int_fp double64 n))"

subsection \<open>The line\<close>

definition bar_line :: "nat \<Rightarrow> int \<Rightarrow> int \<Rightarrow> string" where
  "bar_line w pos percent =
     ''['' @ replicate (min w (nat pos)) CHR ''='' @
     (if pos < int w then ''>'' @ replicate (w - Suc (nat pos)) CHR '' '' else []) @
     ''] '' @ dec_int percent @ '' %'' @ [CHR 0x0D]"

lemma bar_chars:
  assumes "0 \<le> pos"
  shows "concat (map (bar_char pos) [0..int w - 1]) =
    replicate (min w (nat pos)) CHR ''='' @ (if pos < int w then ''>'' @ replicate (w - Suc (nat pos)) CHR '' '' else [])"
proof (induction w)
  case (Suc w)
  have "[0..int (Suc w) - 1] = [0..int w - 1] @ [int w]"
    using upto_rec2 [of 0 "int w"] by simp
  with Suc assms show ?case
    by (auto simp: bar_char_def min_def replicate_append_same Suc_diff_le nat_less_iff le_nat_iff
      intro: arg_cong [where f = "\<lambda>k. replicate k _"] simp flip: replicate_Suc)
qed (use assms in simp)

lemma length_bar_line: "0 \<le> pos \<Longrightarrow> length (bar_line w pos percent) = w + 6 + length (dec_int percent)"
  by (auto simp: bar_line_def min_def nat_less_iff)

subsection \<open>Its numbers\<close>

lemma rnd_small_int:
  assumes "0 \<le> k" and "k < 2 ^ 31"
  shows "rnd double64 (of_int k) = of_int k"
proof -
  have "nat k < 2 ^ 53" using assms(2) by (auto simp: nat_less_iff intro: less_trans)
  then show ?thesis using rnd_nat [of double64 "nat k"] assms(1) by (simp add: double64_def)
qed

lemma int_holds:
  assumes "0 \<le> k" and "k < 2 ^ 31"
  shows "holds_fp (of_int_fp double64 k) (of_int k)"
proof -
  have "real_of_int k \<le> 2 ^ 40" using assms(2) by simp
  then show ?thesis using of_int_holds [of double64 k] assms rnd_small_int in_range_small by simp
qed

definition progress_value :: "int \<Rightarrow> int \<Rightarrow> real" where
  "progress_value k n = rnd float32 (rnd double64 (of_int k / of_int n))"

lemma progress_holds:
  assumes "0 \<le> k" "k < 2 ^ 31" and "0 < n" "n < 2 ^ 31"
  shows "holds_fp (progress_of k n) (progress_value k n)"
proof -
  have n: "holds_fp (of_int_fp double64 n) (of_int n)" using assms by (intro int_holds) auto
  have k: "real_of_int k \<le> 2 ^ 40" using assms(2) by simp
  have "1 \<le> real_of_int n" using assms(3) by simp
  then have "real_of_int k / real_of_int n \<le> real_of_int k" using assms(1) by (simp add: divide_le_eq mult_le_cancel_left1)
  with k have q: "real_of_int k / real_of_int n \<le> 2 ^ 40" by linarith
  have "holds_fp (mul_fp double64 (of_int_fp double64 k) (of_int_fp double64 1)) (rnd double64 (of_int k * of_int 1))"
    using k assms in_range_small by (intro mul_holds int_holds) auto
  then have "holds_fp (mul_fp double64 (of_int_fp double64 k) (of_int_fp double64 1)) (of_int k)"
    using rnd_small_int assms by simp
  then have d: "holds_fp (div_fp double64 (mul_fp double64 (of_int_fp double64 k) (of_int_fp double64 1)) (of_int_fp double64 n))
      (rnd double64 (of_int k / of_int n))"
    using n assms in_range_small [OF q] by (intro div_holds) auto
  have "rnd double64 (real_of_int k / real_of_int n) \<le> rnd double64 (2 ^ 40)"
    using q assms by (intro rnd_mono) (auto simp: double64_def)
  also have "\<dots> = 2 ^ 40" using rnd_exact [of double64 40 1] by (simp add: double64_def)
  finally show ?thesis
    unfolding progress_of_def progress_value_def using d in_range_small by (intro convert_holds) auto
qed

lemma rnd32_ints [simp]: "rnd float32 1 = 1" "rnd float32 2 = 2" "rnd float32 70 = 70" "rnd float32 140 = 140"
  using rnd_nat [of float32 1] rnd_nat [of float32 2] rnd_nat [of float32 70] rnd_nat [of float32 140]
  by (simp_all add: float32_def)

lemma rnd64_ints [simp]: "rnd double64 1 = 1" "rnd double64 2 = 2" "rnd double64 100 = 100" "rnd double64 200 = 200"
  using rnd_nat [of double64 1] rnd_nat [of double64 2] rnd_nat [of double64 100] rnd_nat [of double64 200]
  by (simp_all add: double64_def)

lemma formats_precise [simp]: "0 < precision float32" "0 < precision double64"
  by (simp_all add: float32_def double64_def)

lemma progress_value_mono:
  assumes "0 \<le> k" "k \<le> k'" "0 < n"
  shows "progress_value k n \<le> progress_value k' n"
  using assms unfolding progress_value_def by (intro rnd_mono rnd_nonneg) (auto intro: divide_right_mono)

lemma progress_value_nonneg: "0 \<le> k \<Longrightarrow> 0 < n \<Longrightarrow> 0 \<le> progress_value k n"
  unfolding progress_value_def by (intro rnd_nonneg) simp

lemma progress_value_full [simp]: "0 < n \<Longrightarrow> progress_value n n = 1"
  by (simp add: progress_value_def)

lemma progress_value_double [simp]: "0 < n \<Longrightarrow> progress_value (2 * n) n = 2"
  by (simp add: progress_value_def)

text \<open>Where the arrow stands and the percentage, as functions of the value passed.\<close>

definition arrow :: "real \<Rightarrow> int" where
  "arrow v = \<lfloor>rnd float32 (70 * v)\<rfloor>"

definition percent :: "real \<Rightarrow> int" where
  "percent v = \<lfloor>rnd double64 (rnd double64 v * 100)\<rfloor>"

lemma arrow_mono: "0 \<le> u \<Longrightarrow> u \<le> v \<Longrightarrow> arrow u \<le> arrow v"
  unfolding arrow_def by (intro floor_mono rnd_mono) auto

lemma percent_mono: "0 \<le> u \<Longrightarrow> u \<le> v \<Longrightarrow> percent u \<le> percent v"
  unfolding percent_def by (intro floor_mono rnd_mono mult_right_mono mult_nonneg_nonneg rnd_nonneg) auto

lemma bar_ends [simp]:
  "arrow 0 = 0" "percent 0 = 0" "arrow 1 = 70" "percent 1 = 100" "arrow 2 = 140" "percent 2 = 200"
  by (simp_all add: arrow_def percent_def)

lemma rnd_large [simp]: "rnd float32 (70 * 2 ^ 20) = 70 * 2 ^ 20" "rnd double64 (2 ^ 20) = 2 ^ 20" "rnd double64 (2 ^ 20 * 100) = 2 ^ 20 * 100"
  using rnd_exact [of float32 20 70] rnd_exact [of double64 20 1] rnd_exact [of double64 20 100]
  by (simp_all add: float32_def double64_def)

lemma print_progress_line:
  assumes "holds_fp p v" and "v \<le> 2 ^ 20"
  shows "print_progress p 70 = Done (bar_line 70 (arrow v) (percent v))"
proof -
  have v: "0 \<le> v" using holds_nonneg [OF assms(1)] .
  have "rnd double64 v \<le> rnd double64 (2 ^ 20)" using v assms(2) by (intro rnd_mono) auto
  then have v64: "rnd double64 v \<le> 2 ^ 20" by (simp only: rnd_large)
  have "holds_fp (of_int_fp float32 70) (rnd float32 (of_int 70))"
    by (intro of_int_holds) (auto intro: in_range_small [THEN conjunct1])
  then have "holds_fp (mul_fp float32 (of_int_fp float32 70) p) (rnd float32 (70 * v))"
    using assms in_range_small [of "70 * v"] by (intro mul_holds) auto
  moreover have "rnd float32 (70 * v) \<le> 70 * 2 ^ 20"
    using v assms(2) rnd_mono [of "70 * v" "70 * 2 ^ 20" float32] unfolding rnd_large by simp
  ultimately have a: "to_int_fp (mul_fp float32 (of_int_fp float32 70) p) = Done (arrow v)"
    unfolding arrow_def by (intro to_int_holds) auto
  have "holds_fp (convert_fp double64 p) (rnd double64 v)"
    using assms in_range_small [of v] by (intro convert_holds) auto
  then have "holds_fp (mul_fp double64 (convert_fp double64 p) (of_int_fp double64 100)) (rnd double64 (rnd double64 v * 100))"
    using v64 in_range_small [of "rnd double64 v * 100"] int_holds [of 100] by (intro mul_holds) auto
  moreover have "rnd double64 (rnd double64 v * 100) \<le> 2 ^ 20 * 100"
    using v v64 rnd_mono [of "rnd double64 v * 100" "2 ^ 20 * 100" double64] rnd_nonneg [of v double64]
    unfolding rnd_large by simp
  ultimately have b: "to_int_fp (mul_fp double64 (convert_fp double64 p) (of_int_fp double64 100)) = Done (percent v)"
    unfolding percent_def by (intro to_int_holds) auto
  have "0 \<le> arrow v" using arrow_mono [of 0 v] v by simp
  then show ?thesis
    using bar_chars [of "arrow v" 70] by (simp add: print_progress_def a b bar_line_def)
qed

lemma rnd_error_small:
  assumes "2 powi (-40) \<le> x" and "x \<le> 100"
  shows "\<bar>rnd float32 x - x\<bar> \<le> x / 2 ^ 24" and "\<bar>rnd double64 x - x\<bar> \<le> x / 2 ^ 53"
    and "2 powi (-40) \<le> rnd float32 x" and "2 powi (-40) \<le> rnd double64 x"
proof -
  have "(2::real) powi (-126) \<le> 2 powi (-40)" "(2::real) powi (-1022) \<le> 2 powi (-40)"
    unfolding powi_le_iff by simp_all
  then have m: "(2::real) powi (-126) \<le> x" "(2::real) powi (-1022) \<le> x" using assms(1) by linarith+
  show "\<bar>rnd float32 x - x\<bar> \<le> x / 2 ^ 24" "\<bar>rnd double64 x - x\<bar> \<le> x / 2 ^ 53"
    using rnd_error [of float32 x] rnd_error [of double64 x] m powi_neg [of 24] powi_neg [of 53]
    by (simp_all add: float32_def double64_def)
  have "rnd float32 (2 powi (-40)) = 2 powi (-40)" "rnd double64 (2 powi (-40)) = 2 powi (-40)"
    using rnd_exact [of float32 "-40" 1] rnd_exact [of double64 "-40" 1] by (simp_all add: float32_def double64_def)
  then show "2 powi (-40) \<le> rnd float32 x" "2 powi (-40) \<le> rnd double64 x"
    using rnd_mono [of "2 powi (-40)" x float32] rnd_mono [of "2 powi (-40)" x double64] assms(1) by auto
qed

lemma progress_percent_error:
  assumes "0 \<le> k" "k \<le> n" and "0 < n" "n < 2 ^ 31"
  shows "\<bar>rnd double64 (rnd double64 (progress_value k n) * 100) - 100 * of_int k / of_int n\<bar> \<le> 1 / 10 ^ 5"
proof (cases "k = 0")
  case True
  then show ?thesis by (simp add: progress_value_def)
next
  case False
  define x y v w where "x = (of_int k / of_int n :: real)" and "y = rnd double64 x" and "v = rnd float32 y"
    and "w = rnd double64 v"
  note defs = x_def y_def v_def w_def
  have "1 \<le> real_of_int k" "real_of_int n \<le> 2 ^ 40" using False assms by auto
  then have "1 / 2 ^ 40 \<le> x" unfolding x_def using assms by (intro frac_le) auto
  moreover have "(2::real) powi (-40) = 1 / 2 ^ 40" using powi_neg [of 40] by simp
  ultimately have x: "2 powi (-40) \<le> x" "x \<le> 1" using assms by (simp_all only:) (simp add: x_def)
  have le: "y \<le> 1" "v \<le> 1" "w \<le> 1"
    using assms x rnd_mono [of x 1 double64] rnd_mono [of y 1 float32] rnd_mono [of v 1 double64]
      rnd_nonneg [of x double64] rnd_nonneg [of y float32]
    unfolding y_def v_def w_def by (auto simp: x_def)
  have ge: "2 powi (-40) \<le> y" "2 powi (-40) \<le> v" "2 powi (-40) \<le> w"
    using x le rnd_error_small(4) [of x] rnd_error_small(3) [of y] rnd_error_small(4) [of v]
    unfolding y_def v_def w_def by auto
  have small: "w * 100 / 2 ^ 53 \<le> 1 / 10000000" "v / 2 ^ 53 \<le> 1 / 1000000000" "y / 2 ^ 24 \<le> 6 / 100000000"
    "x / 2 ^ 53 \<le> 1 / 1000000000" "(1::real) / 10 ^ 5 = 1 / 100000"
    using le x(2) by simp_all
  have "(2::real) powi (-40) \<le> 2 powi (-40) * 100" by simp
  with ge(3) have "2 powi (-40) \<le> w * 100" by linarith
  then have "\<bar>rnd double64 (w * 100) - w * 100\<bar> \<le> (w * 100) / 2 ^ 53"
    using le by (intro rnd_error_small(2)) auto
  moreover have "\<bar>w - v\<bar> \<le> v / 2 ^ 53" unfolding w_def using ge le by (intro rnd_error_small(2)) auto
  moreover have "\<bar>v - y\<bar> \<le> y / 2 ^ 24" unfolding v_def using ge le by (intro rnd_error_small(1)) auto
  moreover have "\<bar>y - x\<bar> \<le> x / 2 ^ 53" unfolding y_def using x by (intro rnd_error_small(2)) auto
  ultimately have "\<bar>rnd double64 (w * 100) - 100 * x\<bar> \<le> 1 / 10 ^ 5"
    using small by linarith
  then show ?thesis by (simp add: progress_value_def defs)
qed

subsection \<open>The progress shown\<close>

text \<open>
  What a loop prints on its way from \<open>k\<close> to \<open>k'\<close> of \<open>n\<close>: lines of 70 places in which neither the arrow nor the
  percentage moves back; the percentage is the integral part of the true one up to an error of
  \<open>10 ^ -5\<close>, which is the rounding to \<open>float\<close>. The bar is full when the work is done.
\<close>

theorem progress_never_goes_back:
  assumes "0 \<le> k" and "k \<le> k'" and "k' \<le> n" and "0 < n" and "n < 2 ^ 31"
  shows "\<exists>a p a' p'. print_progress (progress_of k n) 70 = Done (bar_line 70 a p) \<and>
    print_progress (progress_of k' n) 70 = Done (bar_line 70 a' p') \<and>
    0 \<le> a \<and> a \<le> a' \<and> a' \<le> 70 \<and> 0 \<le> p \<and> p \<le> p' \<and> p' \<le> 100 \<and>
    of_int p \<le> 100 * of_int k / of_int n + (1 / 10 ^ 5 :: real) \<and>
    100 * of_int k / of_int n - 1 - (1 / 10 ^ 5 :: real) < of_int p \<and>
    (k' = n \<longrightarrow> a' = 70 \<and> p' = 100)"
proof -
  let ?v = "progress_value k n" and ?v' = "progress_value k' n"
  have v: "0 \<le> ?v" "?v \<le> ?v'" "?v' \<le> 1"
    using assms progress_value_nonneg progress_value_mono [of k k' n] progress_value_mono [of k' n n] by auto
  have "holds_fp (progress_of k n) ?v" "holds_fp (progress_of k' n) ?v'"
    using assms by (auto intro: progress_holds)
  then have lines: "print_progress (progress_of k n) 70 = Done (bar_line 70 (arrow ?v) (percent ?v))"
      "print_progress (progress_of k' n) 70 = Done (bar_line 70 (arrow ?v') (percent ?v'))"
    using v by (auto intro: print_progress_line)
  have ends: "0 \<le> arrow ?v" "arrow ?v \<le> arrow ?v'" "arrow ?v' \<le> 70"
      "0 \<le> percent ?v" "percent ?v \<le> percent ?v'" "percent ?v' \<le> 100"
    using v arrow_mono [of 0 ?v] arrow_mono [of ?v ?v'] arrow_mono [of ?v' 1]
      percent_mono [of 0 ?v] percent_mono [of ?v ?v'] percent_mono [of ?v' 1] by auto
  have "k' = n \<Longrightarrow> arrow ?v' = 70 \<and> percent ?v' = 100" using assms by simp
  moreover have "of_int (percent ?v) \<le> 100 * of_int k / of_int n + (1 / 10 ^ 5 :: real)"
    "100 * of_int k / of_int n - 1 - (1 / 10 ^ 5 :: real) < of_int (percent ?v)"
    using progress_percent_error [of k n] assms unfolding percent_def by linarith+
  ultimately show ?thesis using lines ends by blast
qed

theorem progress_never_goes_back_witness:
  "\<exists>a p a' p'. print_progress (progress_of 29 100) 70 = Done (bar_line 70 a p) \<and>
    print_progress (progress_of 100 100) 70 = Done (bar_line 70 a' p') \<and> a \<le> a' \<and> a' = 70 \<and> p \<le> p' \<and> p' = 100"
  using progress_never_goes_back [of 29 100 100] by auto

text \<open>The percentage can be one too small: 29 words of 100 are shown as 28 percent.\<close>

theorem percent_shown_too_small: "print_progress (progress_of 29 100) 70 = Done (bar_line 70 20 28)"
proof -
  have "[0..69] = map int [0..<70]" by (simp add: upt_conv_Cons upto_rec1)
  moreover have "to_int_fp (mul_fp float32 (of_int_fp float32 70) (progress_of 29 100)) = Done 20"
    "to_int_fp (mul_fp double64 (convert_fp double64 (progress_of 29 100)) (of_int_fp double64 100)) = Done 28"
    by (simp_all add: progress_of_def fp_eval)
  ultimately show ?thesis
    using bar_chars [of 20 70] by (simp add: print_progress_def bar_line_def)
qed

end
