(* ===== verification/Console.thy ===== *)
theory Console
  imports Firmware Progress
begin

text \<open>
  What the functions of \<open>ODILEServer\<close> print. Code that prints returns, with its outcome and the state
  of the network, the characters written to \<open>std::cout\<close>, also when it ends in an exception or in
  undefined behaviour. The printing versions of the flash functions follow the code statement by
  statement; forgetting the text gives the functions of theory \<open>Flash\<close>. A firmware write that gets
  through the image has printed one progress line per page, and never 100 percent.
\<close>

subsection \<open>Code that prints\<close>

type_synonym 'a out = "net \<Rightarrow> string \<times> 'a outcome \<times> net"

definition say :: "string \<Rightarrow> unit out" where
  "say t w = (t, Done (), w)"

definition quiet :: "'a io \<Rightarrow> 'a out" where
  "quiet m w = ([], m w)"

definition bind_out :: "'a out \<Rightarrow> ('a \<Rightarrow> 'b out) \<Rightarrow> 'b out" where
  "bind_out m f w =
     (case m w of (t, Done a, w') \<Rightarrow> (t @ fst (f a w'), snd (f a w')) | (t, Throws e, w') \<Rightarrow> (t, Throws e, w')
        | (t, UB e, w') \<Rightarrow> (t, UB e, w') | (t, Blocks, w') \<Rightarrow> (t, Blocks, w'))"

definition effects :: "'a out \<Rightarrow> 'a io" where
  "effects m w = snd (m w)"

definition printed :: "'a out \<Rightarrow> net \<Rightarrow> string" where
  "printed m w = fst (m w)"

lemma effects_say [simp]: "effects (say t) = ret_io ()"
  by (rule ext) (simp add: effects_def say_def ret_io_def)

lemma effects_quiet [simp]: "effects (quiet m) = m"
  by (rule ext) (simp add: effects_def quiet_def)

lemma effects_bind [simp]: "effects (bind_out m f) = bind_io (effects m) (\<lambda>a. effects (f a))"
  by (rule ext) (auto simp: effects_def bind_out_def bind_io_def split: prod.split outcome.split)

lemma printed_say [simp]: "printed (say t) w = t"
  by (simp add: printed_def say_def)

lemma printed_quiet [simp]: "printed (quiet m) w = []"
  by (simp add: printed_def quiet_def)

lemma printed_bind:
  "effects m w = (Done a, w') \<Longrightarrow> printed (bind_out m f) w = printed m w @ printed (f a) w'"
  by (auto simp: effects_def printed_def bind_out_def split: prod.split)

lemma bind_io_unit [simp]: "bind_io (ret_io a) f = f a"
  by (rule ext) (simp add: bind_io_def ret_io_def)

subsection \<open>Pages\<close>

text \<open>A page and what it reads back as.\<close>

definition write_and_read :: "ODILEServer \<Rightarrow> u32 \<Rightarrow> u32 list \<Rightarrow> u32 list option io" where
  "write_and_read srv curr_address write_page =
     bind_io (command_and_wait srv ''ESA'' 0 curr_address) (\<lambda>_.
     bind_io (sendData srv write_page FIRMWARE_PORT) (\<lambda>_.
     bind_io (command_and_wait srv ''EWR'' (int PAGE_SIZE_WORDS) 0xFFFFFFFF) (\<lambda>_.
     bind_io (sendCommand srv ''ERD'' (int PAGE_SIZE_WORDS) 0xFFFFFFFF) (\<lambda>_.
     bind_io (recieveData_any srv (Some []) FIRMWARE_PORT (-1) False) (\<lambda>(_, read_page). ret_io read_page)))))"

lemma bind_io_case: "bind_io (case x of (a, b) \<Rightarrow> g a b) f = (case x of (a, b) \<Rightarrow> bind_io (g a b) f)"
  by (cases x) simp

lemma write_and_verify_read:
  "write_and_verify srv addr page = bind_io (write_and_read srv addr page) (\<lambda>r. ret_io (r = Some page))"
  by (simp only: write_and_verify_def write_and_read_def bind_io_assoc bind_io_case bind_io_unit)

text \<open>The error report: the sizes, and the words in hexadecimal when the sizes agree.\<close>

definition mismatch_text :: "u32 list \<Rightarrow> u32 list option \<Rightarrow> string" where
  "mismatch_text write_page r =
     (let read_page = (case r of None \<Rightarrow> [] | Some ws \<Rightarrow> ws)
      in ''Sizes are: '' @ dec_digits (length write_page) @ '':'' @ dec_digits (length read_page) @ [newline] @
         (if length write_page = length read_page
          then concat (map (\<lambda>(a, b). hex_digits (unat a) @ '':'' @ hex_digits (unat b) @ [newline]) (zip write_page read_page))
          else []))"

subsection \<open>Writing data\<close>

fun writeEPCQ_loop_out :: "nat \<Rightarrow> ODILEServer \<Rightarrow> u32 list \<Rightarrow> nat \<Rightarrow> u32 \<Rightarrow> int \<Rightarrow> int out" where
  "writeEPCQ_loop_out 0 srv data data_idx curr_address words_written = quiet (ret_io words_written)"
| "writeEPCQ_loop_out (Suc k) srv data data_idx curr_address words_written =
     (let page = fill_page data data_idx
      in bind_out (quiet (write_and_read srv curr_address page)) (\<lambda>r.
           if r \<noteq> Some page
           then bind_out (say (''Error, read back data does not match written data for address: '' @
                    dec_digits (unat curr_address) @ [newline] @ mismatch_text page r))
                  (\<lambda>_. quiet (ret_io (-2)))
           else writeEPCQ_loop_out k srv data (data_idx + PAGE_SIZE_WORDS)
                  (curr_address + of_nat PAGE_SIZE_BYTES) (words_written + int PAGE_SIZE_WORDS)))"

definition writeEPCQ_out :: "ODILEServer \<Rightarrow> u32 list \<Rightarrow> u32 \<Rightarrow> bool \<Rightarrow> int out" where
  "writeEPCQ_out srv data start_address perform_erase =
     (if int SECTOR_BYTES < bytes_to_write data
      then bind_out (say (''Error, cannot write more than a sector at once...'' @ [newline])) (\<lambda>_. quiet (ret_io (-1)))
      else bind_out (quiet (command_and_wait srv ''ERB'' 0 0xFFFFFFFF)) (\<lambda>_.
           bind_out (quiet (command_and_wait srv ''ESA'' 0 start_address)) (\<lambda>_.
           bind_out (if perform_erase
                     then bind_out (say ''Performing sector erase...'') (\<lambda>_.
                          bind_out (quiet (command_and_wait srv ''ESE'' 0 0xFFFFFFFF)) (\<lambda>_.
                            say (''erase done. Beginning write...'' @ [newline])))
                     else say []) (\<lambda>_.
             writeEPCQ_loop_out (nat (pages_to_write data)) srv data 0 start_address 0))))"

lemma effects_writeEPCQ_loop [simp]:
  "effects (writeEPCQ_loop_out k srv data i addr n) = writeEPCQ_loop k srv data i addr n"
proof (induction k arbitrary: i addr n)
  case (Suc k)
  show ?case
    by (simp only: writeEPCQ_loop_out.simps writeEPCQ_loop.simps write_and_verify_read bind_io_assoc bind_io_unit Let_def
        effects_bind effects_quiet effects_say Suc if_distrib [of effects] cong: if_cong)
qed simp

lemma effects_if: "effects (if b then m else m') = (if b then effects m else effects m')"
  by simp

lemmas effects_simps = effects_bind effects_quiet effects_say effects_if bind_io_assoc bind_io_unit

lemma effects_writeEPCQ [simp]: "effects (writeEPCQ_out srv data start erase) = writeEPCQ srv data start erase"
proof -
  have "bind_io (if erase then bind_io (command_and_wait srv ''ESE'' 0 0xFFFFFFFF) (\<lambda>_. ret_io ()) else ret_io ())
      (\<lambda>_. m) = bind_io (if erase then command_and_wait srv ''ESE'' 0 0xFFFFFFFF else ret_io True) (\<lambda>_. m)" for m :: "int io"
    by (cases erase) (simp_all only: if_True if_False bind_io_assoc bind_io_unit)
  then show ?thesis
    by (simp only: writeEPCQ_out_def writeEPCQ_def effects_simps effects_writeEPCQ_loop Let_def cong: if_cong)
qed

subsection \<open>Configuration\<close>

text \<open>\<open>readConfigData\<close> reports the first of its two readings.\<close>

definition config_error_text :: "files \<Rightarrow> string \<Rightarrow> ODILEServer \<Rightarrow> string" where
  "config_error_text fs inifile srv =
     (let readError = fst (list_readINI fs inifile (configBlocks srv))
      in if readError \<noteq> 0 then ''Error reading configuration file, error on line: '' @ dec_int readError @ [newline] else [])"

definition sendConfigData_file_out :: "files \<Rightarrow> string \<Rightarrow> ODILEServer \<Rightarrow> (int \<times> ODILEServer) out" where
  "sendConfigData_file_out fs inifile srv =
     bind_out (say (config_error_text fs inifile srv)) (\<lambda>_. quiet (sendConfigData (snd (readConfigData fs inifile srv))))"

definition writeFlashConfig_out :: "ODILEServer \<Rightarrow> int \<Rightarrow> (int \<times> ODILEServer) out" where
  "writeFlashConfig_out srv config_page =
     (let (config_message, l) = getConfigMessage (configBlocks srv);
          msg = config_page_words config_message;
          srv' = srv\<lparr>configBlocks := l\<rparr>
      in if 10 \<le> config_page \<or> config_page < 0 then quiet (ret_io (-2, srv'))
         else bind_out (writeEPCQ_out srv' msg (CONFIG_PAGE_ADDRESS ! nat config_page) True)
                (\<lambda>n. quiet (ret_io (n, srv'))))"

definition writeFlashConfig_file_out :: "files \<Rightarrow> ODILEServer \<Rightarrow> int \<Rightarrow> string \<Rightarrow> (int \<times> ODILEServer) out" where
  "writeFlashConfig_file_out fs srv config_page inifile =
     bind_out (say (config_error_text fs inifile srv))
       (\<lambda>_. writeFlashConfig_out (snd (readConfigData fs inifile srv)) config_page)"

lemma effects_sendConfigData_file [simp]:
  "effects (sendConfigData_file_out fs f srv) = sendConfigData_file fs f srv"
  by (simp add: sendConfigData_file_out_def sendConfigData_file_def)

lemma effects_writeFlashConfig [simp]: "effects (writeFlashConfig_out srv p) = writeFlashConfig srv p"
  by (simp only: writeFlashConfig_out_def writeFlashConfig_def Let_def split_beta effects_simps effects_writeEPCQ)

lemma effects_writeFlashConfig_file [simp]:
  "effects (writeFlashConfig_file_out fs srv p f) = writeFlashConfig_file fs srv p f"
  by (simp add: writeFlashConfig_file_out_def writeFlashConfig_file_def)

subsection \<open>Reading\<close>

definition readEPCQ_out :: "ODILEServer \<Rightarrow> u32 \<Rightarrow> int \<Rightarrow> (int \<times> byte list) out" where
  "readEPCQ_out srv start_address words_to_read =
     (let pages_to_read = div_c words_to_read (int PAGE_SIZE_WORDS);
          k = nat pages_to_read;
          words_left = words_to_read - int (k * PAGE_SIZE_WORDS);
          words_read = int (k * PAGE_SIZE_WORDS)
      in bind_out (say ''Clearing buffers...'') (\<lambda>_.
         bind_out (quiet (command_and_wait srv ''ERB'' 0 0xFFFFFFFF)) (\<lambda>_.
         bind_out (say (''Done.'' @ [newline] @ ''Starting read from address 0x'' @ hex_digits (unat start_address) @ '' '')) (\<lambda>_.
         bind_out (quiet (command_and_wait srv ''ESA'' 0 start_address)) (\<lambda>_.
         bind_out (quiet (readEPCQ_loop k srv start_address [])) (\<lambda>outfile.
         bind_out (quiet (sendCommand srv ''ERD'' words_left 0xFFFFFFFF)) (\<lambda>_.
         bind_out (quiet (recieveData_any srv (Some []) FIRMWARE_PORT (-1) False)) (\<lambda>(_, read_page).
         bind_out (quiet (\<lambda>w. (write_vector read_page words_left, w))) (\<lambda>bs.
         bind_out (say (''Done.'' @ [newline])) (\<lambda>_.
           quiet (ret_io (words_read + words_left, outfile @ bs))))))))))))"

lemma effects_case: "effects (case x of (a, b) \<Rightarrow> g a b) = (case x of (a, b) \<Rightarrow> effects (g a b))"
  by (cases x) simp

lemma effects_readEPCQ [simp]: "effects (readEPCQ_out srv start n) = readEPCQ srv start n"
  by (simp only: readEPCQ_out_def readEPCQ_def Let_def effects_simps effects_case)

subsection \<open>Firmware\<close>

text \<open>The progress code at the end of the page loop is the body of \<open>print_progress\<close>.\<close>

definition show_progress :: "int \<Rightarrow> int \<Rightarrow> unit out" where
  "show_progress page_idx pages w =
     (case print_progress (progress_of page_idx pages) 70 of
        Done t \<Rightarrow> (t, Done (), w) | Throws e \<Rightarrow> ([], Throws e, w) | UB e \<Rightarrow> ([], UB e, w) | Blocks \<Rightarrow> ([], Blocks, w))"

fun writeFirmware_loop_out ::
    "nat \<Rightarrow> int \<Rightarrow> int \<Rightarrow> int \<Rightarrow> ODILEServer \<Rightarrow> u32 \<Rightarrow> firmware_stream \<Rightarrow> bool out" where
  "writeFirmware_loop_out 0 pages page_idx sector_idx srv curr_address st = quiet (ret_io True)"
| "writeFirmware_loop_out (Suc k) pages page_idx sector_idx srv curr_address st =
     bind_out (quiet (command_and_wait srv ''ESA'' 0 curr_address)) (\<lambda>_.
     bind_out (quiet (if unat curr_address mod SECTOR_BYTES = 0
              then command_and_wait srv ''ESE'' 0 0xFFFFFFFF else ret_io True)) (\<lambda>_.
       let (page, st') = read_firmware_page PAGE_SIZE_WORDS st;
           sector_idx' = (if unat curr_address mod SECTOR_BYTES = 0 then sector_idx + 1 else sector_idx)
       in bind_out (quiet (\<lambda>w. (page, w))) (\<lambda>write_page.
          bind_out (quiet (write_and_read srv curr_address write_page)) (\<lambda>r.
            if r \<noteq> Some write_page
            then bind_out (say ([newline] @ ''Error, read back data does not match written data for sector: '' @ dec_int sector_idx' @
                     '', page: '' @ dec_int page_idx @ [newline] @ mismatch_text write_page r))
                   (\<lambda>_. quiet (ret_io False))
            else bind_out (show_progress page_idx pages) (\<lambda>_.
                   writeFirmware_loop_out k pages (page_idx + 1) sector_idx' srv (curr_address + of_nat PAGE_SIZE_BYTES) st')))))"

definition writeFirmware_out :: "files \<Rightarrow> ODILEServer \<Rightarrow> string \<Rightarrow> string \<Rightarrow> u32 \<Rightarrow> int out" where
  "writeFirmware_out fs srv fname mapfname start_address =
     bind_out (quiet (\<lambda>w. (map_end_address fs mapfname, w))) (\<lambda>end_address.
       let image = (case fs fname of None \<Rightarrow> [] | Some s \<Rightarrow> map byte_of_char s);
           pages = unat end_address div PAGE_SIZE_BYTES + 1
       in if unat start_address mod SECTOR_BYTES \<noteq> 0
          then bind_out (say (''Error, start address is not aligned with sector boundary, make sure start address is aligned with sector start'' @ [newline]))
                 (\<lambda>_. quiet (ret_io (-1)))
          else bind_out (quiet (sendCommand srv ''ERB'' 0 0xFFFFFFFF)) (\<lambda>_.
               bind_out (writeFirmware_loop_out pages (int pages) 0 (-1) srv start_address (image, replicate 4 None)) (\<lambda>finished.
                 if finished then bind_out (say [newline]) (\<lambda>_. quiet (\<lambda>w. (UB ''missing return'', w)))
                 else quiet (ret_io (-2)))))"

definition progress_line :: "int \<Rightarrow> int \<Rightarrow> string" where
  "progress_line k n = bar_line 70 (arrow (progress_value k n)) (percent (progress_value k n))"

lemma print_progress_of:
  assumes "0 \<le> k" "k < 2 ^ 31" "k \<le> 2 ^ 20 * n" "0 < n" "n < 2 ^ 31"
  shows "print_progress (progress_of k n) 70 = Done (progress_line k n)"
proof -
  have "rnd float32 (2 ^ 20) = 2 ^ 20" using rnd_exact [of float32 20 1] by (simp add: float32_def)
  then have "progress_value (2 ^ 20 * n) n = 2 ^ 20" using assms(4) by (simp add: progress_value_def del: power_numeral)
  then have "progress_value k n \<le> 2 ^ 20" using progress_value_mono [OF assms(1,3,4)] by simp
  then show ?thesis
    using print_progress_line [OF progress_holds] assms by (simp add: progress_line_def)
qed

lemma show_progress_line:
  assumes "0 \<le> k" "k \<le> n" "0 < n" "n < 2 ^ 31"
  shows "show_progress k n w = (progress_line k n, Done (), w)"
proof -
  have "print_progress (progress_of k n) 70 = Done (progress_line k n)" using assms by (intro print_progress_of) auto
  then show ?thesis by (simp add: show_progress_def)
qed

lemma effects_show_progress:
  "0 \<le> k \<Longrightarrow> k \<le> n \<Longrightarrow> 0 < n \<Longrightarrow> n < 2 ^ 31 \<Longrightarrow> effects (show_progress k n) = ret_io ()"
  by (rule ext) (simp add: effects_def show_progress_line ret_io_def)

lemma effects_writeFirmware_loop:
  assumes "0 \<le> i" and "i + int k = n" and "n < 2 ^ 31"
  shows "effects (writeFirmware_loop_out k n i s srv addr st) = writeFirmware_loop k srv addr st"
  using assms
proof (induction k arbitrary: i s addr st)
  case (Suc k)
  have p: "effects (show_progress i n) = ret_io ()" using Suc.prems by (intro effects_show_progress) auto
  have IH: "effects (writeFirmware_loop_out k n (i + 1) s' srv addr' st') = writeFirmware_loop k srv addr' st'" for s' addr' st'
    using Suc.prems by (intro Suc.IH) auto
  show ?case
    by (simp only: writeFirmware_loop_out.simps writeFirmware_loop.simps write_and_verify_read Let_def split_beta
        effects_simps p IH cong: if_cong)
qed simp

lemma firmware_pages_small: "int (unat (e :: u32) div PAGE_SIZE_BYTES + 1) < 2 ^ 31"
proof -
  have "unat e < 2 ^ 32" using unsigned_less [of e, where 'a = nat] by simp
  then have "unat e div 256 < 2 ^ 24" by (simp add: less_mult_imp_div_less)
  then show ?thesis by (simp add: PAGE_SIZE_BYTES_def)
qed

lemma bind_io_if: "bind_io (if b then m else m') f = (if b then bind_io m f else bind_io m' f)"
  by simp

lemma effects_writeFirmware [simp]: "effects (writeFirmware_out fs srv f m start) = writeFirmware fs srv f m start"
proof -
  let ?K = "\<lambda>r. case r of Some n \<Rightarrow> ret_io n | None \<Rightarrow> (\<lambda>w. (UB ''missing return'', w))"
  have K: "(\<lambda>r w. case r of Some n \<Rightarrow> (Done n, w) | None \<Rightarrow> (UB ''missing return'', w)) = ?K"
    by (intro ext) (simp add: ret_io_def split: option.split)
  have fin: "?K (if b then None else Some (-2)) = (if b then \<lambda>w. (UB ''missing return'', w) else ret_io (-2))" for b :: bool
    by simp
  have l: "effects (writeFirmware_loop_out (unat (e :: u32) div PAGE_SIZE_BYTES + 1) (int (unat e div PAGE_SIZE_BYTES + 1)) 0 (-1) srv start st) =
      writeFirmware_loop (unat e div PAGE_SIZE_BYTES + 1) srv start st" for e st
    using firmware_pages_small [of e] by (intro effects_writeFirmware_loop) auto
  show ?thesis
    by (simp only: writeFirmware_out_def writeFirmware_def writeFirmware_body_def K effects_simps Let_def l bind_io_if
        option.case fin cong: if_cong)
qed

subsection \<open>What a firmware write shows\<close>

lemma printed_show_progress:
  "0 \<le> k \<Longrightarrow> k \<le> n \<Longrightarrow> 0 < n \<Longrightarrow> n < 2 ^ 31 \<Longrightarrow> printed (show_progress k n) w = progress_line k n"
  by (simp add: printed_def show_progress_line)

lemma printed_writeFirmware_loop:
  assumes "writeFirmware_loop k srv addr st w = (Done True, w')" and "0 \<le> i" and "i + int k = n" and "n < 2 ^ 31"
  shows "printed (writeFirmware_loop_out k n i s srv addr st) w = concat (map (\<lambda>j. progress_line (i + int j) n) [0..<k])"
  using assms
proof (induction k arbitrary: i s addr st w)
  case (Suc k)
  let ?p = "read_firmware_page PAGE_SIZE_WORDS st"
  let ?addr = "addr + of_nat PAGE_SIZE_BYTES"
  obtain a w1 b w2 page w3 where 1: "command_and_wait srv ''ESA'' 0 addr w = (Done a, w1)"
    and 2: "(if unat addr mod SECTOR_BYTES = 0 then command_and_wait srv ''ESE'' 0 0xFFFFFFFF else ret_io True) w1 = (Done b, w2)"
    and 3: "fst ?p = Done page" and 4: "write_and_read srv addr page w2 = (Done (Some page), w3)"
    and 5: "writeFirmware_loop k srv ?addr (snd ?p) w3 = (Done True, w')"
    using Suc.prems(1)
    by (auto simp: write_and_verify_read bind_io_assoc bind_io_eq_Done Let_def split_beta split: if_splits simp del: effects_simps)
  have p: "effects (show_progress i n) = ret_io ()" "\<And>w. printed (show_progress i n) w = progress_line i n"
    using Suc.prems by (auto intro!: effects_show_progress printed_show_progress)
  have "printed (writeFirmware_loop_out k n (i + 1) (if unat addr mod SECTOR_BYTES = 0 then s + 1 else s) srv ?addr (snd ?p)) w3 =
      concat (map (\<lambda>j. progress_line (i + 1 + int j) n) [0..<k])"
    using Suc.prems 5 by (intro Suc.IH) auto
  moreover have "map (\<lambda>j. progress_line (i + int j) n) [0..<Suc k] =
      progress_line i n # map (\<lambda>j. progress_line (i + 1 + int j) n) [0..<k]"
    by (simp add: upt_conv_Cons map_Suc_upt [symmetric] algebra_simps comp_def del: upt_Suc)
  ultimately show ?case
    using 1 2 3 4 p by (simp add: printed_bind Let_def split_beta ret_io_def del: upt_Suc)
qed simp

lemma percent_unfinished:
  assumes "0 \<le> k" "k < n" "n < 10 ^ 7"
  shows "percent (progress_value k n) < 100"
proof -
  have n: "0 < n" "n < 2 ^ 31" using assms by auto
  have "100 * real_of_int k / of_int n \<le> 100 * (of_int n - 1) / of_int n"
    using assms by (intro divide_right_mono mult_left_mono) auto
  also have "\<dots> = 100 - 100 / of_int n" using n by (simp add: field_simps)
  also have "\<dots> < 100 - 1 / 10 ^ 5"
  proof -
    have "real_of_int n < 10 ^ 7" using assms(3) by simp
    then have "1 / 10 ^ 5 < 100 / real_of_int n" using n by (simp add: field_simps)
    then show ?thesis by simp
  qed
  finally have "rnd double64 (rnd double64 (progress_value k n) * 100) < 100"
    using progress_percent_error [of k n] assms n by linarith
  then show ?thesis unfolding percent_def by linarith
qed

lemma percent_range:
  assumes "0 \<le> k" "k \<le> k'" "k' < n" "n < 2 ^ 31"
  shows "0 \<le> arrow (progress_value k n)" "arrow (progress_value k n) \<le> arrow (progress_value k' n)"
    "arrow (progress_value k' n) \<le> 70" "percent (progress_value k n) \<le> percent (progress_value k' n)"
proof -
  have v: "0 \<le> progress_value k n" "progress_value k n \<le> progress_value k' n" "progress_value k' n \<le> 1"
    using assms progress_value_nonneg progress_value_mono [of k k' n] progress_value_mono [of k' n n] by auto
  then show "0 \<le> arrow (progress_value k n)" "arrow (progress_value k n) \<le> arrow (progress_value k' n)"
    "arrow (progress_value k' n) \<le> 70" "percent (progress_value k n) \<le> percent (progress_value k' n)"
    using arrow_mono [of 0 "progress_value k n"] arrow_mono [of "progress_value k n" "progress_value k' n"]
      arrow_mono [of "progress_value k' n" 1] percent_mono [of "progress_value k n" "progress_value k' n"] by auto
qed

text \<open>
  C21. What a user sees of a firmware write on a board that answers: one line per page, in which neither
  the arrow nor the percentage moves back, and a line feed. The last line is printed with the index
  of the last page and not with the number of pages, so up to ten million pages the display
  ends below 100 percent.
\<close>

theorem firmware_progress_shown:
  assumes "map_end_address fs m = Done end_address" and "unat start mod 65536 = 0" and "fs f = Some rpd"
    and "n = unat end_address div 256 + 1"
    and "firmware_pages n (map byte_of_char rpd, replicate 4 None) = Done pages"
    and "reachable_board srv w" and "rx w = map Queued (firmware_answers start pages) @ es"
    and "clock w = cs @ cs'" and "length cs = firmware_waits start pages"
  shows "(\<exists>w'. writeFirmware_out fs srv f m start w =
      (concat (map (\<lambda>j. progress_line (int j) (int n)) [0..<n]) @ [newline], UB ''missing return'', w')) \<and>
    (\<forall>i j. i \<le> j \<and> j < n \<longrightarrow> (\<exists>a p a' p'. progress_line (int i) (int n) = bar_line 70 a p \<and>
      progress_line (int j) (int n) = bar_line 70 a' p' \<and> 0 \<le> a \<and> a \<le> a' \<and> a' \<le> 70 \<and> p \<le> p' \<and> (n < 10 ^ 7 \<longrightarrow> p' < 100)))"
proof (intro conjI allI impI)
  let ?st = "(map byte_of_char rpd, replicate 4 None) :: firmware_stream"
  let ?out = "writeFirmware_out fs srv f m start" and ?loop = "writeFirmware_loop_out n (int n) 0 (-1) srv start ?st"
  have n31: "int n < 2 ^ 31" using firmware_pages_small [of end_address] assms(4) by (simp add: PAGE_SIZE_BYTES_def)
  obtain k where "writeFirmware_body fs srv f m start w = (Done None, advance
      (command_datagram srv ''ERB'' 0 0xFFFFFFFF # firmware_datagrams srv start pages) es k cs' w)"
    using talkD [OF talk_writeFirmware_body [OF assms(1-3) assms(5) [unfolded assms(4)]] assms(6-9)] by blast
  then obtain w' where body: "writeFirmware_body fs srv f m start w = (Done None, w')" by blast
  have al: "unat start mod SECTOR_BYTES = 0" using assms(2) by (simp add: SECTOR_BYTES_def)
  obtain x w1 where 1: "sendCommand srv ''ERB'' 0 0xFFFFFFFF w = (Done x, w1)"
    and 2: "writeFirmware_loop n srv start ?st w1 = (Done True, w')"
    using body assms(1,3,4) al
    by (auto simp: writeFirmware_body_def bind_io_eq_Done Let_def PAGE_SIZE_BYTES_def simp del: writeFirmware_loop.simps split: if_splits)
  have l: "effects ?loop = writeFirmware_loop n srv start ?st" using n31 by (intro effects_writeFirmware_loop) auto
  have t: "printed ?loop w1 = concat (map (\<lambda>j. progress_line (int j) (int n)) [0..<n])"
    using printed_writeFirmware_loop [OF 2, of 0 "int n" "-1"] n31 by simp
  have "printed ?out w = printed (bind_out (quiet (sendCommand srv ''ERB'' 0 0xFFFFFFFF)) (\<lambda>_. bind_out ?loop (\<lambda>finished.
      if finished then bind_out (say [newline]) (\<lambda>_. quiet (\<lambda>w. (UB ''missing return'', w))) else quiet (ret_io (-2 :: int))))) w"
    using assms(1,3,4) al
    by (simp add: writeFirmware_out_def printed_bind Let_def PAGE_SIZE_BYTES_def del: writeFirmware_loop_out.simps)
  also have "\<dots> = concat (map (\<lambda>j. progress_line (int j) (int n)) [0..<n]) @ [newline]"
    using 1 2 t l by (simp add: printed_bind ret_io_def del: writeFirmware_loop_out.simps)
  finally have "fst (?out w) = concat (map (\<lambda>j. progress_line (int j) (int n)) [0..<n]) @ [newline]"
    by (simp add: printed_def)
  moreover have "snd (?out w) = (UB ''missing return'', w')"
  proof -
    have "effects ?out w = writeFirmware fs srv f m start w" by simp
    with body show ?thesis by (simp add: effects_def writeFirmware_def bind_io_def del: effects_writeFirmware)
  qed
  ultimately show "\<exists>w'. ?out w = (concat (map (\<lambda>j. progress_line (int j) (int n)) [0..<n]) @ [newline], UB ''missing return'', w')"
    by (metis prod.collapse)
  fix i j assume "i \<le> j \<and> j < n"
  then show "\<exists>a p a' p'. progress_line (int i) (int n) = bar_line 70 a p \<and>
      progress_line (int j) (int n) = bar_line 70 a' p' \<and> 0 \<le> a \<and> a \<le> a' \<and> a' \<le> 70 \<and> p \<le> p' \<and> (n < 10 ^ 7 \<longrightarrow> p' < 100)"
    using percent_range [of "int i" "int j" "int n"] percent_unfinished [of "int j" "int n"] n31
    unfolding progress_line_def
    by (intro exI [of _ "arrow (progress_value (int i) (int n))"] exI [of _ "percent (progress_value (int i) (int n))"]
        exI [of _ "arrow (progress_value (int j) (int n))"] exI [of _ "percent (progress_value (int j) (int n))"]) auto
qed

theorem firmware_progress_shown_witness:
  "\<exists>rxs w'. writeFirmware_out demo_files demo_server ''fw.rpd'' ''fw.map'' 0x01000000
      (quiet_net\<lparr>rx := rxs, clock := replicate 8 0\<rparr>) =
        (bar_line 70 0 0 @ [newline], UB ''missing return'', w')"
proof -
  obtain pages where pages: "firmware_pages 1 (map byte_of_char ''ABCD'', replicate 4 None) = Done pages" "length pages = 1"
    using firmware_pages_delivered [of "map byte_of_char ''ABCD''" 1 "replicate 4 None" 0 1] by auto
  then obtain page where p: "pages = [page]" by (cases pages) auto
  let ?w = "quiet_net\<lparr>rx := map Queued (firmware_answers 0x01000000 pages), clock := replicate 8 0\<rparr>"
  have "\<exists>w'. writeFirmware_out demo_files demo_server ''fw.rpd'' ''fw.map'' 0x01000000 ?w =
      (concat (map (\<lambda>j. progress_line (int j) (int 1)) [0..<1]) @ [newline], UB ''missing return'', w')"
    by (rule firmware_progress_shown [OF demo_end_address, where cs = "replicate 8 0" and cs' = "[]" and rpd = "''ABCD''"
          and es = "[]" and pages = pages, THEN conjunct1])
      (use pages p in \<open>simp_all add: demo_files_def reachable_demo erases_def\<close>)
  moreover have "progress_line 0 1 = bar_line 70 0 0" by (simp add: progress_line_def progress_value_def)
  ultimately show ?thesis by auto
qed

end
