(* ===== verification/AsyncThreads.thy ===== *)
theory AsyncThreads
  imports OdileReceive
begin

text \<open>
  Asynchronous reception: \<open>launchAsyncThread\<close>, \<open>isValidThread\<close>, \<open>getWordsRead\<close>, \<open>closeAsyncThread\<close>, the
  destructor, and the thread function \<open>asyncRecieve\<close>. The argument structures live in an explicit
  heap, because the main thread and the receive threads share them and the main thread deletes
  them; None marks memory that is not allocated. A thread is a small state machine whose step is
  one pass of its loop; \<open>stop\<close> is only read at the head of the loop, so a pass is atomic for the
  main thread. Reads of memory without a value are undefined behaviour, or counted where the value
  is of no consequence. The CFITSIO library is represented by the log of the calls made to it.
\<close>

subsection \<open>State\<close>

record async_arg_t =
  ar_stop :: bool
  ar_port :: int
  ar_thread_id :: int
  ar_ip_address :: string
  ar_outfname :: string
  ar_finished :: bool
  ar_nrows :: int
  ar_ncols :: int
  ar_nread :: "int option"

datatype fits_call =
  Fits_create_file string | Fits_create_img int int | Fits_write_img int "u32 list" | Fits_close_file

text \<open>\<open>NoOutput\<close> is the .fits case of a build without CFITSIO: no file is opened.\<close>

datatype output_mode = Fits | Text | Binary | NoOutput

text \<open>
  \<open>words_recvd\<close> points to an integer that \<open>new int\<close> leaves without a value: None. A read of it while
  it has none is counted in \<open>th_uninit_reads\<close>, which is not part of the program.
\<close>

datatype thread_pc = Created | Receiving udp_server | Exited

record rx_thread =
  th_arg :: nat
  th_pc :: thread_pc
  th_mode :: output_mode
  th_out :: string
  th_fits :: "fits_call list"
  th_curr_pix :: int
  th_words_recvd :: "int option"
  th_uninit_reads :: nat

text \<open>
  \<open>thread_vec\<close> is the member \<open>threads\<close>; the member \<open>thread_args\<close> is part of the server object.
  \<open>cfitsio\<close> is the build option \<open>CFITSIO_INSTALLED\<close>.
\<close>

record process =
  cfitsio :: bool
  arg_heap :: "nat \<Rightarrow> async_arg_t option"
  fresh_ptr :: nat
  odile :: ODILEServer
  thread_vec :: "rx_thread list"
  os :: net

definition deref :: "process \<Rightarrow> nat \<Rightarrow> async_arg_t outcome" where
  "deref p a = (case arg_heap p a of None \<Rightarrow> UB ''use after free'' | Some x \<Rightarrow> Done x)"

definition store :: "nat \<Rightarrow> async_arg_t \<Rightarrow> process \<Rightarrow> process" where
  "store a x p = p\<lparr>arg_heap := (arg_heap p)(a := Some x)\<rparr>"

subsection \<open>The thread function\<close>

fun contains :: "string \<Rightarrow> string \<Rightarrow> bool" where
  "contains pat [] = (pat = [])"
| "contains pat (c # s) = (take (length pat) (c # s) = pat \<or> contains pat s)"

definition output_mode_of :: "bool \<Rightarrow> async_arg_t \<Rightarrow> output_mode" where
  "output_mode_of have_fits arg =
     (if contains ''.fits'' (ar_outfname arg) \<and> 0 < ar_ncols arg \<and> 0 < ar_nrows arg
      then (if have_fits then Fits else NoOutput)
      else if contains ''.txt'' (ar_outfname arg) then Text else Binary)"

definition char_of_byte :: "byte \<Rightarrow> char" where
  "char_of_byte b = char_of (unat b)"

definition file_header :: "output_mode \<Rightarrow> async_arg_t \<Rightarrow> string" where
  "file_header mode arg =
     (if mode = Binary \<and> 0 < ar_ncols arg \<and> 0 < ar_nrows arg
      then map char_of_byte (bytes_of_word (bswap_32 (word_of_int (ar_ncols arg))) @
                             bytes_of_word (bswap_32 (word_of_int (ar_nrows arg))))
      else [])"

definition fits_header :: "output_mode \<Rightarrow> async_arg_t \<Rightarrow> fits_call list" where
  "fits_header mode arg =
     (if mode = Fits then [Fits_create_file (ar_outfname arg), Fits_create_img (ar_ncols arg) (ar_nrows arg)]
      else [])"

text \<open>From the start of the function to the loop: open the output, reset \<open>nread\<close>, open the socket.\<close>

definition thread_open :: "nat \<Rightarrow> process \<Rightarrow> process outcome" where
  "thread_open i p =
     (let t = thread_vec p ! i
      in obind (deref p (th_arg t)) (\<lambda>arg.
           let mode = output_mode_of (cfitsio p) arg
           in case udp_server_new (ar_ip_address arg) (ar_port arg) (os p) of
                (Done s, w) \<Rightarrow>
                  Done ((store (th_arg t) (arg\<lparr>ar_nread := Some 0\<rparr>) p)
                     \<lparr>thread_vec := (thread_vec p)[i := t\<lparr>th_pc := Receiving s, th_mode := mode,
                        th_out := file_header mode arg, th_fits := fits_header mode arg, th_curr_pix := 1\<rparr>],
                      os := w\<rparr>)
              | (Throws e, w) \<Rightarrow> Throws e
              | (UB e, w) \<Rightarrow> UB e
              | (Blocks, w) \<Rightarrow> Blocks))"

definition text_line :: "u32 \<Rightarrow> string" where
  "text_line word = hex_padded 8 (unat (bswap_32 word)) @ [newline]"

text \<open>What one packet adds to the output; \<open>write_packet\<close> is the branch on the output mode.\<close>

definition write_packet :: "async_arg_t \<Rightarrow> byte list \<Rightarrow> rx_thread \<Rightarrow> rx_thread" where
  "write_packet arg packet t =
     (let ws = words_of_bytes packet
      in case th_mode t of
           Fits \<Rightarrow>
             (if th_curr_pix t \<le> ar_nrows arg * ar_ncols arg
              then t\<lparr>th_fits := th_fits t @ [Fits_write_img (th_curr_pix t) (swapBufferBytes ws)],
                     th_curr_pix := th_curr_pix t + int (length ws)\<rparr>
              else t)
         | Text \<Rightarrow> t\<lparr>th_out := th_out t @ concat (map text_line ws)\<rparr>
         | Binary \<Rightarrow> t\<lparr>th_out := th_out t @ map char_of_byte packet\<rparr>
         | NoOutput \<Rightarrow> t)"

text \<open>
  \<open>*words_recvd+=nwords\<close>: the sum of an integer without a value has none either. The sum goes nowhere:
  \<open>closeAsyncThread\<close> does not look at the status a thread leaves.
\<close>

definition count_words :: "int \<Rightarrow> rx_thread \<Rightarrow> rx_thread" where
  "count_words nwords t =
     (case th_words_recvd t of
        Some n \<Rightarrow> t\<lparr>th_words_recvd := Some (n + nwords)\<rparr>
      | None \<Rightarrow> t\<lparr>th_uninit_reads := Suc (th_uninit_reads t)\<rparr>)"

text \<open>One pass of the loop that finds \<open>stop\<close> unset: the next receive meets the event \<open>ev\<close>.\<close>

definition thread_receive :: "rx_event \<Rightarrow> nat \<Rightarrow> udp_server \<Rightarrow> process \<Rightarrow> process outcome" where
  "thread_receive ev i s p =
     (let t = thread_vec p ! i
      in obind (deref p (th_arg t)) (\<lambda>arg.
           case timed_recv s BUFFSIZE WAIT_TIME ((os p)\<lparr>rx := [ev]\<rparr>) of
             (Done (packet_len, buffer), w) \<Rightarrow>
               if 0 < packet_len
               then let nwords = packet_len div 4
                    in case ar_nread arg of
                         None \<Rightarrow> UB ''uninitialised nread''
                       | Some nread \<Rightarrow>
                           Done ((store (th_arg t) (arg\<lparr>ar_nread := Some (nread + nwords)\<rparr>) p)
                             \<lparr>thread_vec := (thread_vec p)[i := write_packet arg buffer (count_words nwords t)],
                              os := w\<rparr>)
               else Done (p\<lparr>os := w\<rparr>)
           | (Throws e, w) \<Rightarrow> Throws e
           | (UB e, w) \<Rightarrow> UB e
           | (Blocks, w) \<Rightarrow> Blocks))"

text \<open>
  After the loop: close the output, set \<open>finished\<close>, leave by \<open>pthread_exit\<close>, which unwinds the stack
  and so runs the destructor of the socket.
\<close>

definition thread_exit :: "nat \<Rightarrow> udp_server \<Rightarrow> process \<Rightarrow> process outcome" where
  "thread_exit i s p =
     (let t = thread_vec p ! i
      in obind (deref p (th_arg t)) (\<lambda>arg.
           Done ((store (th_arg t) (arg\<lparr>ar_finished := True\<rparr>) p)
              \<lparr>thread_vec := (thread_vec p)[i := t\<lparr>th_pc := Exited,
                 th_fits := th_fits t @ (if th_mode t = Fits then [Fits_close_file] else [])\<rparr>],
               os := snd (udp_server_delete s (os p))\<rparr>)))"

definition thread_step :: "rx_event \<Rightarrow> nat \<Rightarrow> process \<Rightarrow> process outcome" where
  "thread_step ev i p =
     (case th_pc (thread_vec p ! i) of
        Created \<Rightarrow> thread_open i p
      | Receiving s \<Rightarrow>
          obind (deref p (th_arg (thread_vec p ! i))) (\<lambda>arg.
            if ar_stop arg then thread_exit i s p else thread_receive ev i s p)
      | Exited \<Rightarrow> Done p)"

subsection \<open>The main thread\<close>

definition new_thread :: "nat \<Rightarrow> rx_thread" where
  "new_thread a = \<lparr>th_arg = a, th_pc = Created, th_mode = NoOutput, th_out = [], th_fits = [],
     th_curr_pix = 1, th_words_recvd = None, th_uninit_reads = 0\<rparr>"

definition launchAsyncThread :: "string \<Rightarrow> string \<Rightarrow> int \<Rightarrow> int \<Rightarrow> int \<Rightarrow> process \<Rightarrow> int \<times> process" where
  "launchAsyncThread outfile serv_address port nrows ncols p =
     (let a = fresh_ptr p; tid = int (length (thread_args (odile p)));
          arg = \<lparr>ar_stop = False, ar_port = port, ar_thread_id = tid, ar_ip_address = serv_address,
                 ar_outfname = outfile, ar_finished = False, ar_nrows = nrows, ar_ncols = ncols, ar_nread = None\<rparr>
      in (tid, (store a arg p)\<lparr>fresh_ptr := Suc a,
             odile := (odile p)\<lparr>thread_args := thread_args (odile p) @ [a]\<rparr>,
             thread_vec := thread_vec p @ [new_thread a]\<rparr>))"

text \<open>A negative \<open>thread_id\<close> is converted to a huge unsigned number by the comparison.\<close>

definition isValidThread :: "process \<Rightarrow> int \<Rightarrow> bool outcome" where
  "isValidThread p thread_id =
     (if thread_id < 0 \<or> int (length (thread_args (odile p))) \<le> thread_id then Done False
      else obind (deref p (thread_args (odile p) ! nat thread_id)) (\<lambda>arg. Done (\<not> ar_finished arg)))"

definition getWordsRead :: "process \<Rightarrow> int \<Rightarrow> int outcome" where
  "getWordsRead p thread_id =
     obind (isValidThread p thread_id) (\<lambda>valid.
       if valid
       then obind (deref p (thread_args (odile p) ! nat thread_id)) (\<lambda>arg.
              case ar_nread arg of Some n \<Rightarrow> Done n | None \<Rightarrow> UB ''uninitialised nread'')
       else Done (-1))"

text \<open>\<open>thread_args[thread_id]->stop = true\<close>\<close>

definition request_stop :: "nat \<Rightarrow> process \<Rightarrow> process outcome" where
  "request_stop a p = obind (deref p a) (\<lambda>arg. Done (store a (arg\<lparr>ar_stop := True\<rparr>) p))"

definition delete_arg :: "nat \<Rightarrow> process \<Rightarrow> process outcome" where
  "delete_arg a p = obind (deref p a) (\<lambda>_. Done (p\<lparr>arg_heap := (arg_heap p)(a := None)\<rparr>))"

text \<open>
  \<open>pthread_join\<close>: the thread runs to its exit. Once \<open>stop\<close> is set it needs at most two steps, to get
  to its loop and to leave it.
\<close>

definition join :: "nat \<Rightarrow> process \<Rightarrow> process outcome" where
  "join i p = obind (thread_step Silent i p) (thread_step Silent i)"

definition closeAsyncThread :: "int \<Rightarrow> process \<Rightarrow> (int \<times> process) outcome" where
  "closeAsyncThread thread_id p =
     obind (isValidThread p thread_id) (\<lambda>valid.
       if \<not> valid then Done (-1, p)
       else let i = nat thread_id; a = thread_args (odile p) ! i
            in obind (request_stop a p) (\<lambda>p1.
               obind (join i p1) (\<lambda>p2.
               obind (delete_arg a p2) (\<lambda>p3. Done (0, p3)))))"

fun close_all :: "nat \<Rightarrow> int \<Rightarrow> process \<Rightarrow> process outcome" where
  "close_all 0 i p = Done p"
| "close_all (Suc k) i p = obind (closeAsyncThread i p) (\<lambda>(_, p'). close_all k (i + 1) p')"

text \<open>The destructor: its body, then the members \<open>cmdClient\<close> and \<open>configClient\<close>.\<close>

definition ODILEServer_delete :: "process \<Rightarrow> process outcome" where
  "ODILEServer_delete p =
     obind (close_all (length (thread_args (odile p))) 0 p) (\<lambda>p'.
       let w1 = snd (udp_client_delete (cmdClient (odile p')) (os p'));
           w2 = snd (udp_client_delete (configClient (odile p')) w1)
       in Done (p'\<lparr>os := w2\<rparr>))"

subsection \<open>All interleavings\<close>

text \<open>
  The steps of the whole process: the main thread launches a thread, asks one to stop (the first
  half of \<open>closeAsyncThread\<close>), or deletes the argument of one that has exited (the second half);
  any thread makes a step, meeting any event of the network.
\<close>

datatype event = Launch string string int int int | Stop nat | Run nat rx_event | Delete nat

inductive step :: "process \<Rightarrow> event \<Rightarrow> process \<Rightarrow> bool" where
  launch: "step p (Launch f ip port nrows ncols) (snd (launchAsyncThread f ip port nrows ncols p))"
| stop: "i < length (thread_args (odile p)) \<Longrightarrow> isValidThread p (int i) = Done True \<Longrightarrow>
     request_stop (thread_args (odile p) ! i) p = Done p' \<Longrightarrow> step p (Stop i) p'"
| run: "i < length (thread_vec p) \<Longrightarrow> thread_step ev i p = Done p' \<Longrightarrow> step p (Run i ev) p'"
| delete: "i < length (thread_args (odile p)) \<Longrightarrow> th_pc (thread_vec p ! i) = Exited \<Longrightarrow>
     delete_arg (thread_args (odile p) ! i) p = Done p' \<Longrightarrow> step p (Delete i) p'"

inductive reachable :: "process \<Rightarrow> bool" where
  start: "thread_args (odile p) = [] \<Longrightarrow> thread_vec p = [] \<Longrightarrow> arg_heap p = (\<lambda>_. None) \<Longrightarrow> reachable p"
| step: "reachable p \<Longrightarrow> step p e p' \<Longrightarrow> reachable p'"

inductive_cases stepE: "step p e p'"

subsection \<open>The invariant of the shared memory\<close>

text \<open>
  Thread \<open>i\<close> uses argument structure \<open>i\<close>; the structures are distinct; a thread that has not exited
  finds its structure allocated, with \<open>finished\<close> unset and, once it is in its loop, with \<open>nread\<close> set;
  a thread that has exited has set \<open>finished\<close>.
\<close>

definition arg_ok :: "thread_pc \<Rightarrow> async_arg_t option \<Rightarrow> bool" where
  "arg_ok pc x =
     (case pc of
        Created \<Rightarrow> (\<exists>arg. x = Some arg \<and> \<not> ar_finished arg)
      | Receiving s \<Rightarrow> (\<exists>arg. x = Some arg \<and> \<not> ar_finished arg \<and> ar_nread arg \<noteq> None)
      | Exited \<Rightarrow> (\<forall>arg. x = Some arg \<longrightarrow> ar_finished arg))"

definition proc_inv :: "process \<Rightarrow> bool" where
  "proc_inv p \<longleftrightarrow>
     map th_arg (thread_vec p) = thread_args (odile p) \<and> distinct (thread_args (odile p)) \<and>
     (\<forall>a \<in> set (thread_args (odile p)). a < fresh_ptr p) \<and>
     (\<forall>i < length (thread_vec p). arg_ok (th_pc (thread_vec p ! i)) (arg_heap p (th_arg (thread_vec p ! i))))"

lemma proc_invD:
  assumes "proc_inv p"
  shows "length (thread_vec p) = length (thread_args (odile p))"
    and "i < length (thread_vec p) \<Longrightarrow> th_arg (thread_vec p ! i) = thread_args (odile p) ! i"
    and "i < length (thread_vec p) \<Longrightarrow> j < length (thread_vec p) \<Longrightarrow>
      th_arg (thread_vec p ! i) = th_arg (thread_vec p ! j) \<longleftrightarrow> i = j"
    and "i < length (thread_vec p) \<Longrightarrow> arg_ok (th_pc (thread_vec p ! i)) (arg_heap p (th_arg (thread_vec p ! i)))"
proof -
  have m: "map th_arg (thread_vec p) = thread_args (odile p)" and d: "distinct (thread_args (odile p))"
    using assms by (auto simp: proc_inv_def)
  from m show len: "length (thread_vec p) = length (thread_args (odile p))" by (metis length_map)
  from m show arg: "th_arg (thread_vec p ! i) = thread_args (odile p) ! i" if "i < length (thread_vec p)" for i
    using that by (metis nth_map)
  show "th_arg (thread_vec p ! i) = th_arg (thread_vec p ! j) \<longleftrightarrow> i = j"
    if "i < length (thread_vec p)" "j < length (thread_vec p)"
    using that arg len d by (simp add: nth_eq_iff_index_eq)
  show "i < length (thread_vec p) \<Longrightarrow> arg_ok (th_pc (thread_vec p ! i)) (arg_heap p (th_arg (thread_vec p ! i)))"
    using assms by (simp add: proc_inv_def)
qed

text \<open>Changing one thread and its own structure keeps the invariant if the pair is in order.\<close>

lemma proc_inv_local:
  assumes "proc_inv p" and "i < length (thread_vec p)" and "th_arg t = th_arg (thread_vec p ! i)"
    and "arg_ok (th_pc t) x"
    and "thread_vec p' = (thread_vec p)[i := t]" and "arg_heap p' = (arg_heap p)(th_arg t := x)"
    and "odile p' = odile p" and "fresh_ptr p' = fresh_ptr p"
  shows "proc_inv p'"
proof -
  have "map th_arg ((thread_vec p)[i := t]) = map th_arg (thread_vec p)"
    using assms(2,3) by (metis list_update_id map_update)
  moreover have "arg_ok (th_pc (thread_vec p' ! j)) (arg_heap p' (th_arg (thread_vec p' ! j)))"
    if "j < length (thread_vec p)" for j
    using assms that proc_invD(3,4) [OF assms(1)] by (cases "j = i") auto
  ultimately show ?thesis using assms by (simp add: proc_inv_def)
qed

lemma deref_simps:
  "deref p a = Done x \<longleftrightarrow> arg_heap p a = Some x"
  by (simp add: deref_def split: option.splits)

lemma write_packet_simps [simp]:
  "th_arg (write_packet arg d t) = th_arg t" "th_pc (write_packet arg d t) = th_pc t"
  "th_mode (write_packet arg d t) = th_mode t" "th_words_recvd (write_packet arg d t) = th_words_recvd t"
  "th_uninit_reads (write_packet arg d t) = th_uninit_reads t"
  by (simp_all add: write_packet_def Let_def split: output_mode.splits)

lemma count_words_simps [simp]:
  "th_arg (count_words n t) = th_arg t" "th_pc (count_words n t) = th_pc t"
  "th_mode (count_words n t) = th_mode t" "th_out (count_words n t) = th_out t"
  "th_fits (count_words n t) = th_fits t" "th_curr_pix (count_words n t) = th_curr_pix t"
  "th_words_recvd t = None \<Longrightarrow> th_words_recvd (count_words n t) = None"
  "th_words_recvd t = None \<Longrightarrow> th_uninit_reads (count_words n t) = Suc (th_uninit_reads t)"
  by (simp_all add: count_words_def split: option.split)

lemma timed_recv_Done: "\<exists>n d w'. timed_recv s k t w = (Done (n, d), w')"
  by (auto simp: timed_recv_def Let_def split: prod.splits)

text \<open>The packet a pass of the loop obtains from an event, if any.\<close>

definition packet_of :: "bool \<Rightarrow> rx_event \<Rightarrow> byte list list" where
  "packet_of can_write ev =
     (let (retval, t) = select_rwx can_write WAIT_TIME ev; (n, d) = recv_dontwait BUFFSIZE t ev
      in if 0 < retval \<and> 0 < n then [d] else [])"

lemma timed_recv_packet:
  assumes "timed_recv s BUFFSIZE WAIT_TIME (w\<lparr>rx := [ev]\<rparr>) = (Done (n, d), w')"
  shows "packet_of (writable w) ev = (if 0 < n then [d] else [])" and "0 < n \<Longrightarrow> n = int (length d)"
    and "writable w' = writable w"
  using assms by (cases ev; auto simp: timed_recv_def packet_of_def Let_def split: if_splits)+

text \<open>The step of thread \<open>i\<close> under \<open>ev\<close> is a pass of its loop that gets a packet.\<close>

definition gets_packet :: "rx_event \<Rightarrow> nat \<Rightarrow> process \<Rightarrow> bool" where
  "gets_packet ev i p \<longleftrightarrow>
     (case (th_pc (thread_vec p ! i), arg_heap p (th_arg (thread_vec p ! i))) of
        (Receiving s, Some arg) \<Rightarrow> \<not> ar_stop arg \<and> packet_of (writable (os p)) ev \<noteq> []
      | _ \<Rightarrow> False)"

text \<open>One step of a thread, when it completes: only this thread and its structure change.\<close>

lemma thread_step_local:
  assumes "thread_step ev i p = Done p'" and "i < length (thread_vec p)" and "proc_inv p"
  obtains t x where "th_arg t = th_arg (thread_vec p ! i)" "arg_ok (th_pc t) x"
    "thread_vec p' = (thread_vec p)[i := t]" "arg_heap p' = (arg_heap p)(th_arg t := x)"
    "odile p' = odile p" "fresh_ptr p' = fresh_ptr p"
    "th_words_recvd (thread_vec p ! i) = None \<Longrightarrow> th_words_recvd t = None"
proof (cases "th_pc (thread_vec p ! i)")
  case Created
  with proc_invD(4) [OF assms(3,2)] obtain arg where
      "arg_heap p (th_arg (thread_vec p ! i)) = Some arg" "\<not> ar_finished arg"
    by (auto simp: arg_ok_def)
  with Created assms(1,2) show thesis
    by (intro that [of "thread_vec p' ! i" "arg_heap p' (th_arg (thread_vec p ! i))"])
      (auto simp: thread_step_def thread_open_def deref_def Let_def store_def arg_ok_def
        split: prod.splits outcome.splits)
next
  case (Receiving s)
  with proc_invD(4) [OF assms(3,2)] obtain arg where
      a: "arg_heap p (th_arg (thread_vec p ! i)) = Some arg" "\<not> ar_finished arg" "ar_nread arg \<noteq> None"
    by (auto simp: arg_ok_def)
  show thesis
  proof (cases "ar_stop arg")
    case True
    with a Receiving assms(1,2) show thesis
      by (intro that [of "thread_vec p' ! i" "arg_heap p' (th_arg (thread_vec p ! i))"])
        (auto simp: thread_step_def thread_exit_def deref_def Let_def store_def arg_ok_def)
  next
    case False
    obtain n d w' where r: "timed_recv s BUFFSIZE WAIT_TIME ((os p)\<lparr>rx := [ev]\<rparr>) = (Done (n, d), w')"
      using timed_recv_Done by blast
    show thesis
    proof (cases "0 < n")
      case True
      with False a r Receiving assms(1,2) show thesis
        by (intro that [of "thread_vec p' ! i" "arg_heap p' (th_arg (thread_vec p ! i))"])
          (auto simp: thread_step_def thread_receive_def deref_def Let_def store_def arg_ok_def)
    next
      case n: False
      with False a r Receiving assms(1) show thesis
        by (intro that [of "thread_vec p ! i" "Some arg"])
          (auto simp: thread_step_def thread_receive_def deref_def arg_ok_def)
    qed
  qed
next
  case Exited
  with assms show thesis
    using proc_invD(4) [OF assms(3,2)]
    by (intro that [of "thread_vec p ! i" "arg_heap p (th_arg (thread_vec p ! i))"]) (auto simp: thread_step_def)
qed

lemma proc_inv_step:
  assumes "step p e p'" and "proc_inv p"
  shows "proc_inv p'"
  using assms(1)
proof cases
  case (launch f ip port nrows ncols)
  have old: "th_arg (thread_vec p ! i) \<noteq> fresh_ptr p" if "i < length (thread_vec p)" for i
  proof -
    have "th_arg (thread_vec p ! i) \<in> set (thread_args (odile p))"
      using that proc_invD(1,2) [OF assms(2)] by simp
    then show ?thesis using assms(2) by (auto simp: proc_inv_def)
  qed
  have new: "fresh_ptr p \<notin> set (thread_args (odile p))" using assms(2) by (auto simp: proc_inv_def)
  have ok: "arg_ok Created (Some \<lparr>ar_stop = False, ar_port = port, ar_thread_id = n, ar_ip_address = ip,
      ar_outfname = f, ar_finished = False, ar_nrows = nrows, ar_ncols = ncols, ar_nread = None\<rparr>)" for n
    by (simp add: arg_ok_def)
  show ?thesis
    using assms(2) old new ok
    by (auto simp: launch proc_inv_def launchAsyncThread_def new_thread_def store_def Let_def nth_append less_Suc_eq)
next
  case (stop i)
  have i: "i < length (thread_vec p)" using stop(2) proc_invD(1) [OF assms(2)] by simp
  note a = proc_invD(2) [OF assms(2) i]
  obtain arg where arg: "arg_heap p (thread_args (odile p) ! i) = Some arg"
    and p': "p' = store (thread_args (odile p) ! i) (arg\<lparr>ar_stop := True\<rparr>) p"
    using stop(4) by (auto simp: request_stop_def obind_eq_Done deref_simps)
  show ?thesis
    using proc_invD(4) [OF assms(2) i] arg a
    by (intro proc_inv_local [OF assms(2) i, where t = "thread_vec p ! i" and x = "Some (arg\<lparr>ar_stop := True\<rparr>)"])
      (auto simp: p' store_def arg_ok_def split: thread_pc.splits)
next
  case (run i ev)
  then show ?thesis
    using assms(2) by (elim thread_step_local) (auto intro: proc_inv_local)
next
  case (delete i)
  have i: "i < length (thread_vec p)" using delete(2) proc_invD(1) [OF assms(2)] by simp
  note a = proc_invD(2) [OF assms(2) i]
  have "p' = p\<lparr>arg_heap := (arg_heap p)(thread_args (odile p) ! i := None)\<rparr>"
    using delete(4) by (auto simp: delete_arg_def obind_eq_Done)
  then show ?thesis
    using delete(3) a
    by (intro proc_inv_local [OF assms(2) i, where t = "thread_vec p ! i" and x = None]) (auto simp: arg_ok_def)
qed

lemma reachable_inv: "reachable p \<Longrightarrow> proc_inv p"
proof (induction rule: reachable.induct)
  case (start p)
  then show ?case by (simp add: proc_inv_def)
qed (rule proc_inv_step)

lemma words_recvd_step:
  assumes "step p e p'" and "proc_inv p" and "\<forall>t \<in> set (thread_vec p). th_words_recvd t = None"
  shows "\<forall>t \<in> set (thread_vec p'). th_words_recvd t = None"
  using assms(1)
proof cases
  case (run i ev)
  have "\<exists>t. thread_vec p' = (thread_vec p)[i := t] \<and>
      (th_words_recvd (thread_vec p ! i) = None \<longrightarrow> th_words_recvd t = None)"
    by (rule thread_step_local [OF run(3,2) assms(2)]) (intro exI conjI impI, assumption, simp)
  then obtain t where t: "thread_vec p' = (thread_vec p)[i := t] \<and>
      (th_words_recvd (thread_vec p ! i) = None \<longrightarrow> th_words_recvd t = None)" ..
  then have "th_words_recvd t = None" using run(2) assms(3) by simp
  then show ?thesis
    using t assms(3) set_update_subset_insert [of "thread_vec p" i t] by auto
qed (use assms(3) in \<open>auto simp: launchAsyncThread_def new_thread_def store_def request_stop_def delete_arg_def
  obind_eq_Done Let_def\<close>)

lemma words_recvd_never_set:
  "reachable p \<Longrightarrow> i < length (thread_vec p) \<Longrightarrow> th_words_recvd (thread_vec p ! i) = None"
proof -
  assume "reachable p" and i: "i < length (thread_vec p)"
  from this(1) have "\<forall>t \<in> set (thread_vec p). th_words_recvd t = None"
  proof (induction rule: reachable.induct)
    case (step p e p')
    then show ?case using words_recvd_step reachable_inv by blast
  qed simp
  with i show ?thesis by simp
qed

text \<open>
  C10. Whatever the order of launches, stop requests, deletions and thread steps: a thread never
  touches freed memory, never uses \<open>nread\<close> before it is set and never gets stuck. Its next step
  completes, or it is the step that opens its socket and the constructor of the socket throws. Of
  the uninitialised memory the thread allocates, the counter \<open>*words_recvd\<close>, it makes one read for
  every packet it gets, from the first on, and no other: the counter never has a value.
\<close>

theorem threads_are_safe:
  assumes "reachable p" and "i < length (thread_vec p)"
  shows "th_words_recvd (thread_vec p ! i) = None \<and>
    ((\<exists>p'. thread_step ev i p = Done p' \<and> reachable p' \<and>
        th_uninit_reads (thread_vec p' ! i) =
          th_uninit_reads (thread_vec p ! i) + (if gets_packet ev i p then 1 else 0)) \<or>
     (th_pc (thread_vec p ! i) = Created \<and> (\<exists>e. thread_step ev i p = Throws e)))"
proof -
  have ok: "arg_ok (th_pc (thread_vec p ! i)) (arg_heap p (th_arg (thread_vec p ! i)))"
    using proc_invD(4) [OF reachable_inv [OF assms(1)] assms(2)] .
  note un = words_recvd_never_set [OF assms]
  have "(\<exists>p'. thread_step ev i p = Done p' \<and> th_uninit_reads (thread_vec p' ! i) =
          th_uninit_reads (thread_vec p ! i) + (if gets_packet ev i p then 1 else 0)) \<or>
    (th_pc (thread_vec p ! i) = Created \<and> (\<exists>e. thread_step ev i p = Throws e))"
  proof (cases "th_pc (thread_vec p ! i)")
    case Created
    with ok obtain arg where arg: "arg_heap p (th_arg (thread_vec p ! i)) = Some arg" by (auto simp: arg_ok_def)
    show ?thesis
      by (rule udp_server_new_cases [of "ar_ip_address arg" "ar_port arg" "os p"])
        (use Created arg assms(2) in \<open>auto simp: thread_step_def thread_open_def deref_def gets_packet_def Let_def\<close>)
  next
    case (Receiving s)
    with ok obtain arg nread where arg: "arg_heap p (th_arg (thread_vec p ! i)) = Some arg" "ar_nread arg = Some nread"
      by (auto simp: arg_ok_def)
    obtain n d w' where r: "timed_recv s BUFFSIZE WAIT_TIME ((os p)\<lparr>rx := [ev]\<rparr>) = (Done (n, d), w')"
      using timed_recv_Done by blast
    with Receiving arg assms(2) un timed_recv_packet(1) [OF r] show ?thesis
      by (auto simp: thread_step_def thread_exit_def thread_receive_def deref_def gets_packet_def store_def Let_def)
  qed (simp add: thread_step_def gets_packet_def)
  then show ?thesis using assms un by (blast intro: reachable.step step.run)
qed

subsection \<open>Closing\<close>

lemma closeAsyncThread_frees:
  assumes "closeAsyncThread tid p = Done (0, p')"
  shows "0 \<le> tid \<and> tid < int (length (thread_args (odile p))) \<and>
    arg_heap p' (thread_args (odile p) ! nat tid) = None"
  using assms
  by (auto simp: closeAsyncThread_def obind_eq_Done isValidThread_def delete_arg_def Let_def deref_simps split: if_splits)

lemma thread_op_keeps:
  "thread_open i p = Done p' \<Longrightarrow> odile p' = odile p \<and> (arg_heap p a = None \<longrightarrow> arg_heap p' a = None)"
  "thread_receive ev i s p = Done p' \<Longrightarrow> odile p' = odile p \<and> (arg_heap p a = None \<longrightarrow> arg_heap p' a = None)"
  "thread_exit i s p = Done p' \<Longrightarrow> odile p' = odile p \<and> (arg_heap p a = None \<longrightarrow> arg_heap p' a = None)"
proof -
  let ?t = "thread_vec p ! i"
  note defs = thread_open_def thread_receive_def thread_exit_def Let_def deref_def store_def
  assume "thread_open i p = Done p'"
  moreover from this obtain arg where "arg_heap p (th_arg ?t) = Some arg"
    by (cases "arg_heap p (th_arg ?t)") (auto simp: defs)
  ultimately show "odile p' = odile p \<and> (arg_heap p a = None \<longrightarrow> arg_heap p' a = None)"
    by (cases "udp_server_new (ar_ip_address arg) (ar_port arg) (os p)"; cases "fst (udp_server_new (ar_ip_address arg) (ar_port arg) (os p))")
      (auto simp: defs)
next
  let ?t = "thread_vec p ! i"
  note defs = thread_open_def thread_receive_def thread_exit_def Let_def deref_def store_def
  assume "thread_receive ev i s p = Done p'"
  moreover from this obtain arg where "arg_heap p (th_arg ?t) = Some arg"
    by (cases "arg_heap p (th_arg ?t)") (auto simp: defs)
  moreover obtain n d w where "timed_recv s BUFFSIZE WAIT_TIME ((os p)\<lparr>rx := [ev]\<rparr>) = (Done (n, d), w)"
    using timed_recv_Done by blast
  ultimately show "odile p' = odile p \<and> (arg_heap p a = None \<longrightarrow> arg_heap p' a = None)"
    by (auto simp: defs split: if_splits option.splits)
next
  assume "thread_exit i s p = Done p'"
  then show "odile p' = odile p \<and> (arg_heap p a = None \<longrightarrow> arg_heap p' a = None)"
    by (auto simp: thread_exit_def Let_def deref_def store_def split: option.splits)
qed

lemma thread_step_keeps:
  assumes "thread_step ev i p = Done p'"
  shows "odile p' = odile p" and "arg_heap p a = None \<Longrightarrow> arg_heap p' a = None"
  using assms thread_op_keeps
  by (auto simp: thread_step_def obind_eq_Done split: thread_pc.split_asm if_split_asm)

lemma closeAsyncThread_keeps:
  assumes "closeAsyncThread tid p = Done (n, p')"
  shows "odile p' = odile p" and "arg_heap p a = None \<Longrightarrow> arg_heap p' a = None"
proof -
  consider "p' = p" | x arg i p2 p3 where "arg_heap p x = Some arg"
      "thread_step Silent i (store x (arg\<lparr>ar_stop := True\<rparr>) p) = Done p2" "thread_step Silent i p2 = Done p3"
      "p' = p3\<lparr>arg_heap := (arg_heap p3)(x := None)\<rparr>"
    using assms
    by (auto simp: closeAsyncThread_def request_stop_def join_def delete_arg_def obind_eq_Done deref_simps Let_def
      split: if_splits)
  then have "odile p' = odile p \<and> (arg_heap p a = None \<longrightarrow> arg_heap p' a = None)"
  proof cases
    case (2 x arg i p2 p3)
    then show ?thesis using thread_step_keeps [OF 2(2)] thread_step_keeps [OF 2(3)] by (auto simp: store_def)
  qed simp
  then show "odile p' = odile p" "arg_heap p a = None \<Longrightarrow> arg_heap p' a = None" by auto
qed

lemma closed_thread_is_dangling:
  assumes "arg_heap p (thread_args (odile p) ! nat tid) = None" and "0 \<le> tid"
    and "tid < int (length (thread_args (odile p)))"
  shows "closeAsyncThread tid p = UB ''use after free''" and "isValidThread p tid = UB ''use after free''"
  using assms by (simp_all add: closeAsyncThread_def isValidThread_def deref_def)

lemma close_all_dangling:
  assumes "arg_heap p (thread_args (odile p) ! j) = None" and "j < length (thread_args (odile p))"
    and "0 \<le> i" and "i \<le> int j" and "int j < i + int k"
  shows "close_all k i p \<noteq> Done q"
  using assms
proof (induction k arbitrary: i p)
  case (Suc k)
  show ?case
  proof (cases "i = int j")
    case True
    then show ?thesis using closed_thread_is_dangling [of p i] Suc.prems by simp
  next
    case False
    show ?thesis
    proof (cases "closeAsyncThread i p")
      case (Done r)
      obtain n p' where r: "r = (n, p')" by (cases r)
      note k = closeAsyncThread_keeps [OF Done [unfolded r]]
      have "close_all k (i + 1) p' \<noteq> Done q"
        by (rule Suc.IH) (use Suc.prems False k in auto)
      then show ?thesis using Done r by simp
    qed simp_all
  qed
qed simp

text \<open>
  C25. \<open>closeAsyncThread\<close> deletes the argument structure but leaves the pointer to it in \<open>thread_args\<close>.
  After a successful close every later use of that thread number is a use after free: asking
  whether the thread is valid, asking for its word count, closing it again. In particular the
  destructor of the server, which closes every thread, cannot end normally.
\<close>

theorem close_leaves_dangling_pointer:
  assumes "closeAsyncThread tid p = Done (0, p')"
  shows "isValidThread p' tid = UB ''use after free'' \<and> getWordsRead p' tid = UB ''use after free'' \<and>
    closeAsyncThread tid p' = UB ''use after free'' \<and> (\<forall>q. ODILEServer_delete p' \<noteq> Done q)"
proof -
  note f = closeAsyncThread_frees [OF assms] and k = closeAsyncThread_keeps(1) [OF assms]
  have d: "arg_heap p' (thread_args (odile p') ! nat tid) = None" using f k by simp
  have "close_all (length (thread_args (odile p'))) 0 p' \<noteq> Done q" for q
    by (rule close_all_dangling [OF d]) (use f k in auto)
  then have "ODILEServer_delete p' \<noteq> Done q" for q by (auto simp: ODILEServer_delete_def obind_eq_Done)
  moreover have "isValidThread p' tid = UB ''use after free''" using d f k by (simp add: isValidThread_def deref_def)
  ultimately show ?thesis by (simp add: getWordsRead_def closeAsyncThread_def)
qed

text \<open>Every socket a thread may want can be opened.\<close>

definition can_open :: "net \<Rightarrow> bool" where
  "can_open w \<longleftrightarrow> gai_ok w = (\<lambda>_ _. True) \<and> socket_ok w = (\<lambda>_. True) \<and> bind_ok w = (\<lambda>_ _. True)"

lemma thread_exit_effect:
  assumes "arg_heap p (th_arg (thread_vec p ! i)) = Some arg" and "ar_stop arg"
    and "th_pc (thread_vec p ! i) = Receiving s" and "i < length (thread_vec p)" and "can_open (os p)"
  shows "\<exists>t x w. thread_step ev i p = Done (p\<lparr>arg_heap := (arg_heap p)(th_arg (thread_vec p ! i) \<mapsto> x),
    thread_vec := (thread_vec p)[i := t], os := w\<rparr>) \<and> th_pc t = Exited \<and> th_arg t = th_arg (thread_vec p ! i) \<and> can_open w"
proof (intro exI conjI)
  let ?t = "(thread_vec p ! i)\<lparr>th_pc := Exited,
    th_fits := th_fits (thread_vec p ! i) @ (if th_mode (thread_vec p ! i) = Fits then [Fits_close_file] else [])\<rparr>"
  show "thread_step ev i p = Done (p\<lparr>arg_heap := (arg_heap p)(th_arg (thread_vec p ! i) \<mapsto> arg\<lparr>ar_finished := True\<rparr>),
      thread_vec := (thread_vec p)[i := ?t], os := snd (udp_server_delete s (os p))\<rparr>)"
    using assms by (simp add: thread_step_def thread_exit_def deref_def store_def Let_def)
qed (use assms(5) in \<open>simp_all add: can_open_def udp_server_delete_def\<close>)

lemma join_effect:
  assumes "arg_heap p (th_arg (thread_vec p ! i)) = Some arg" and "ar_stop arg"
    and "th_pc (thread_vec p ! i) \<noteq> Exited" and "i < length (thread_vec p)" and "can_open (os p)"
  shows "\<exists>t x w. join i p = Done (p\<lparr>arg_heap := (arg_heap p)(th_arg (thread_vec p ! i) \<mapsto> x),
    thread_vec := (thread_vec p)[i := t], os := w\<rparr>) \<and> th_pc t = Exited \<and> th_arg t = th_arg (thread_vec p ! i) \<and> can_open w"
proof (cases "th_pc (thread_vec p ! i)")
  case Created
  let ?a = "th_arg (thread_vec p ! i)"
  have w: "\<exists>s w. udp_server_new (ar_ip_address arg) (ar_port arg) (os p) = (Done s, w) \<and> can_open w"
    using assms(5) by (simp add: can_open_def udp_server_new_def open_socket_def Let_def)
  then obtain s w where sw: "udp_server_new (ar_ip_address arg) (ar_port arg) (os p) = (Done s, w)" "can_open w" by blast
  define t1 where "t1 = (thread_vec p ! i)\<lparr>th_pc := Receiving s, th_mode := output_mode_of (cfitsio p) arg,
    th_out := file_header (output_mode_of (cfitsio p) arg) arg,
    th_fits := fits_header (output_mode_of (cfitsio p) arg) arg, th_curr_pix := 1\<rparr>"
  define p1 where "p1 = p\<lparr>arg_heap := (arg_heap p)(?a \<mapsto> arg\<lparr>ar_nread := Some 0\<rparr>),
    thread_vec := (thread_vec p)[i := t1], os := w\<rparr>"
  have 1: "thread_step Silent i p = Done p1"
    using Created assms(1) sw by (simp add: thread_step_def thread_open_def deref_def store_def Let_def p1_def t1_def)
  have t1: "thread_vec p1 ! i = t1" "th_arg t1 = ?a" "th_pc t1 = Receiving s"
    using assms(4) by (simp_all add: p1_def t1_def)
  obtain t x w' where "thread_step Silent i p1 = Done (p1\<lparr>arg_heap := (arg_heap p1)(?a \<mapsto> x),
      thread_vec := (thread_vec p1)[i := t], os := w'\<rparr>)" "th_pc t = Exited" "th_arg t = ?a" "can_open w'"
    using thread_exit_effect [of p1 i "arg\<lparr>ar_nread := Some 0\<rparr>" s Silent] t1 assms(2,4) sw(2) by (auto simp: p1_def)
  then show ?thesis using 1 by (auto simp: join_def p1_def)
next
  case (Receiving s)
  obtain t x w where "thread_step Silent i p = Done (p\<lparr>arg_heap := (arg_heap p)(th_arg (thread_vec p ! i) \<mapsto> x),
      thread_vec := (thread_vec p)[i := t], os := w\<rparr>)" "th_pc t = Exited" "th_arg t = th_arg (thread_vec p ! i)" "can_open w"
    using thread_exit_effect [OF assms(1,2) Receiving assms(4,5), of Silent] by blast
  then show ?thesis using assms(4) by (auto simp: join_def thread_step_def [of _ _ "p\<lparr>arg_heap := _, thread_vec := _, os := _\<rparr>"])
qed (use assms in simp)

lemma close_one:
  assumes "proc_inv p" and "i < length (thread_vec p)" and "th_pc (thread_vec p ! i) \<noteq> Exited" and "can_open (os p)"
  shows "\<exists>p' t. closeAsyncThread (int i) p = Done (0, p') \<and> proc_inv p' \<and> can_open (os p') \<and>
    odile p' = odile p \<and> thread_vec p' = (thread_vec p)[i := t] \<and> th_pc t = Exited \<and>
    arg_heap p' (thread_args (odile p) ! i) = None"
proof -
  let ?a = "thread_args (odile p) ! i"
  have a: "th_arg (thread_vec p ! i) = ?a" "i < length (thread_args (odile p))"
    using proc_invD(1,2) [OF assms(1)] assms(2) by simp_all
  obtain arg where arg: "arg_heap p ?a = Some arg" "\<not> ar_finished arg"
    using proc_invD(4) [OF assms(1,2)] assms(3) a by (auto simp: arg_ok_def split: thread_pc.splits)
  let ?p1 = "store ?a (arg\<lparr>ar_stop := True\<rparr>) p"
  obtain t x w where j: "join i ?p1 = Done (?p1\<lparr>arg_heap := (arg_heap ?p1)(?a \<mapsto> x),
      thread_vec := (thread_vec p)[i := t], os := w\<rparr>)" "th_pc t = Exited" "th_arg t = ?a" "can_open w"
    using join_effect [of ?p1 i "arg\<lparr>ar_stop := True\<rparr>"] a assms(2-4) by (auto simp: store_def)
  let ?p3 = "p\<lparr>arg_heap := (arg_heap p)(?a := None), thread_vec := (thread_vec p)[i := t], os := w\<rparr>"
  have "closeAsyncThread (int i) p = Done (0, ?p3)"
    using a arg j by (simp add: closeAsyncThread_def isValidThread_def deref_def request_stop_def delete_arg_def store_def)
  moreover have "proc_inv ?p3"
    using j a by (intro proc_inv_local [OF assms(1,2), where t = t and x = None]) (auto simp: arg_ok_def)
  ultimately show ?thesis using j by (intro exI conjI) (assumption | simp)+
qed

lemma close_all_effect:
  assumes "proc_inv p" and "can_open (os p)" and "length (thread_vec p) = n + k"
    and "\<forall>j < n. th_pc (thread_vec p ! j) = Exited \<and> arg_heap p (thread_args (odile p) ! j) = None"
    and "\<forall>j. n \<le> j \<and> j < n + k \<longrightarrow> th_pc (thread_vec p ! j) \<noteq> Exited"
  shows "\<exists>q. close_all k (int n) p = Done q \<and> odile q = odile p \<and> length (thread_vec q) = length (thread_vec p) \<and>
    (\<forall>j < n + k. th_pc (thread_vec q ! j) = Exited \<and> arg_heap q (thread_args (odile p) ! j) = None)"
  using assms
proof (induction k arbitrary: n p)
  case (Suc k)
  obtain p' t where c: "closeAsyncThread (int n) p = Done (0, p')" "proc_inv p'" "can_open (os p')" "odile p' = odile p"
      "thread_vec p' = (thread_vec p)[n := t]" "th_pc t = Exited" "arg_heap p' (thread_args (odile p) ! n) = None"
    using close_one [of p n] Suc.prems by auto
  have "\<exists>q. close_all k (int (Suc n)) p' = Done q \<and> odile q = odile p' \<and> length (thread_vec q) = length (thread_vec p') \<and>
      (\<forall>j < Suc n + k. th_pc (thread_vec q ! j) = Exited \<and> arg_heap q (thread_args (odile p') ! j) = None)"
  proof (rule Suc.IH)
    have "n < length (thread_vec p)" using Suc.prems(3) by simp
    then show "\<forall>j < Suc n. th_pc (thread_vec p' ! j) = Exited \<and> arg_heap p' (thread_args (odile p') ! j) = None"
      using Suc.prems(4) c closeAsyncThread_keeps(2) [OF c(1)] by (auto simp: less_Suc_eq)
  qed (use Suc.prems c in auto)
  then show ?case using c by (auto simp: add.commute)
qed auto

text \<open>
  C24. As long as no thread has been closed before, the destructor does its job: it stops and joins every
  thread and frees every argument structure, however far each thread has got.
\<close>

theorem destructor_closes_all:
  assumes "reachable p" and "\<forall>t \<in> set (thread_vec p). th_pc t \<noteq> Exited" and "can_open (os p)"
  shows "\<exists>q. ODILEServer_delete p = Done q \<and> (\<forall>t \<in> set (thread_vec q). th_pc t = Exited) \<and>
    (\<forall>a \<in> set (thread_args (odile p)). arg_heap q a = None)"
proof -
  have inv: "proc_inv p" using assms(1) by (rule reachable_inv)
  note len = proc_invD(1) [OF inv]
  obtain q where q: "close_all (length (thread_vec p)) (int 0) p = Done q" "odile q = odile p"
      "length (thread_vec q) = length (thread_vec p)"
      "\<forall>j < length (thread_vec p). th_pc (thread_vec q ! j) = Exited \<and> arg_heap q (thread_args (odile p) ! j) = None"
    using close_all_effect [of p 0 "length (thread_vec p)"] inv assms by auto
  define r where "r = q\<lparr>os := snd (udp_client_delete (configClient (odile q)) (snd (udp_client_delete (cmdClient (odile q)) (os q))))\<rparr>"
  have "ODILEServer_delete p = Done r" using q(1) len by (simp add: ODILEServer_delete_def r_def)
  moreover have "thread_vec r = thread_vec q" "arg_heap r = arg_heap q" by (simp_all add: r_def)
  ultimately show ?thesis using q len by (auto simp: in_set_conv_nth)
qed

end
