(* ===== verification/AsyncCapture.thy ===== *)
theory AsyncCapture
  imports AsyncThreads
begin

text \<open>
  What a receive thread leaves in its output. The specification of a capture is the list of packets
  delivered so far; every execution of the process, in any interleaving, keeps the stream, the calls
  made to the FITS library and the word counter of a thread in step with it. A text capture can be sent again with \<open>sendData\<close>.
\<close>

subsection \<open>Executions\<close>

inductive exec :: "process \<Rightarrow> event list \<Rightarrow> process \<Rightarrow> bool" where
  Nil: "exec p [] p"
| Cons: "step p e p1 \<Longrightarrow> exec p1 es p' \<Longrightarrow> exec p (e # es) p'"

inductive_cases exec_NilE: "exec p [] p'"
inductive_cases exec_ConsE: "exec p (e # es) p'"

lemma exec_reachable: "exec p es p' \<Longrightarrow> reachable p \<Longrightarrow> reachable p'"
  by (induction rule: exec.induct) (auto intro: reachable.step)

definition packets_to :: "bool \<Rightarrow> nat \<Rightarrow> event list \<Rightarrow> byte list list" where
  "packets_to can_write i es =
     concat (map (\<lambda>e. case e of Run j ev \<Rightarrow> (if j = i then packet_of can_write ev else []) | _ \<Rightarrow> []) es)"

subsection \<open>The specification of a capture\<close>

text \<open>What a packet adds to the stream, which only the text and the binary mode open.\<close>

fun packet_text :: "output_mode \<Rightarrow> byte list \<Rightarrow> string" where
  "packet_text Text d = concat (map text_line (words_of_bytes d))"
| "packet_text Binary d = map char_of_byte d"
| "packet_text _ d = []"

definition total_words :: "byte list list \<Rightarrow> int" where
  "total_words ds = sum_list (map (\<lambda>d. int (length d) div 4) ds)"

text \<open>
  A FITS image of \<open>npix\<close> pixels: packet \<open>k\<close> is written, in the byte order of the host, at the pixel
  behind the words of the packets before it, unless the image ends before that pixel.
\<close>

definition fits_image :: "int \<Rightarrow> byte list list \<Rightarrow> fits_call list" where
  "fits_image npix ds =
     map (\<lambda>k. Fits_write_img (1 + total_words (take k ds)) (map bswap_32 (words_of_bytes (ds ! k))))
       (filter (\<lambda>k. 1 + total_words (take k ds) \<le> npix) [0..<length ds])"

definition fits_calls :: "output_mode \<Rightarrow> async_arg_t \<Rightarrow> byte list list \<Rightarrow> fits_call list" where
  "fits_calls mode arg ds =
     (if mode = Fits
      then [Fits_create_file (ar_outfname arg), Fits_create_img (ar_ncols arg) (ar_nrows arg)] @
           fits_image (ar_nrows arg * ar_ncols arg) ds
      else [])"

definition next_pixel :: "int \<Rightarrow> output_mode \<Rightarrow> int \<Rightarrow> byte list list \<Rightarrow> bool" where
  "next_pixel pix mode npix ds \<longleftrightarrow> mode = Fits \<longrightarrow>
     pix = 1 + total_words ds \<or> npix < pix \<and> npix < 1 + total_words ds"

text \<open>
  Thread \<open>i\<close>, launched with the structure \<open>a\<close>, is in its loop and has captured \<open>ds\<close>. The pixel it
  writes next is the one behind these words, as long as the image has such a pixel.
\<close>

definition captured :: "process \<Rightarrow> nat \<Rightarrow> output_mode \<Rightarrow> async_arg_t \<Rightarrow> byte list list \<Rightarrow> bool" where
  "captured p i mode a ds \<longleftrightarrow> i < length (thread_vec p) \<and>
     (\<exists>s arg. th_pc (thread_vec p ! i) = Receiving s \<and> th_mode (thread_vec p ! i) = mode \<and>
        arg_heap p (th_arg (thread_vec p ! i)) = Some arg \<and>
        ar_nrows arg = ar_nrows a \<and> ar_ncols arg = ar_ncols a \<and>
        th_out (thread_vec p ! i) = file_header mode a @ concat (map (packet_text mode) ds) \<and>
        th_fits (thread_vec p ! i) = fits_calls mode a ds \<and>
        next_pixel (th_curr_pix (thread_vec p ! i)) mode (ar_nrows a * ar_ncols a) ds \<and>
        ar_nread arg = Some (total_words ds))"

lemma th_out_write_packet: "th_out (write_packet arg d t) = th_out t @ packet_text (th_mode t) d"
  by (auto simp: write_packet_def Let_def split: output_mode.splits)

lemma total_words_snoc: "total_words (ds @ [d]) = total_words ds + int (length d) div 4"
  by (simp add: total_words_def)

lemma fits_image_snoc:
  "fits_image npix (ds @ [d]) = fits_image npix ds @
     (if 1 + total_words ds \<le> npix
      then [Fits_write_img (1 + total_words ds) (map bswap_32 (words_of_bytes d))] else [])"
proof -
  have "map (\<lambda>k. Fits_write_img (1 + total_words (take k (ds @ [d]))) (map bswap_32 (words_of_bytes ((ds @ [d]) ! k))))
      (filter (\<lambda>k. 1 + total_words (take k (ds @ [d])) \<le> npix) [0..<length ds]) = fits_image npix ds"
    unfolding fits_image_def by (rule map_cong [OF filter_cong]) (auto simp: nth_append)
  then show ?thesis by (simp add: fits_image_def)
qed

lemma write_packet_fits:
  assumes "next_pixel (th_curr_pix t) (th_mode t) (ar_nrows a * ar_ncols a) ds"
    and "th_fits t = fits_calls (th_mode t) a ds" and "ar_nrows arg = ar_nrows a" and "ar_ncols arg = ar_ncols a"
  shows "th_fits (write_packet arg d t) = fits_calls (th_mode t) a (ds @ [d])"
    and "next_pixel (th_curr_pix (write_packet arg d t)) (th_mode t) (ar_nrows a * ar_ncols a) (ds @ [d])"
  using assms
  by (auto simp: write_packet_def fits_calls_def fits_image_snoc next_pixel_def total_words_snoc swapBufferBytes_def Let_def
    zdiv_int split: output_mode.splits)

lemma captured_cong:
  assumes "captured p i mode a ds" and "i < length (thread_vec p')" and "thread_vec p' ! i = thread_vec p ! i"
    and "\<And>arg. arg_heap p (th_arg (thread_vec p ! i)) = Some arg \<Longrightarrow>
      \<exists>arg'. arg_heap p' (th_arg (thread_vec p ! i)) = Some arg' \<and> ar_nread arg' = ar_nread arg \<and>
        ar_nrows arg' = ar_nrows arg \<and> ar_ncols arg' = ar_ncols arg"
  shows "captured p' i mode a ds"
  using assms unfolding captured_def by metis

lemma captured_run:
  assumes "captured p i mode a ds" and "thread_step ev i p = Done p'"
  shows "captured p' i mode a (ds @ packet_of (writable (os p)) ev) \<or> th_pc (thread_vec p' ! i) = Exited"
proof -
  obtain s arg where c: "i < length (thread_vec p)" "th_pc (thread_vec p ! i) = Receiving s"
    "th_mode (thread_vec p ! i) = mode" "arg_heap p (th_arg (thread_vec p ! i)) = Some arg"
    "th_out (thread_vec p ! i) = file_header mode a @ concat (map (packet_text mode) ds)" "ar_nread arg = Some (total_words ds)"
    "ar_nrows arg = ar_nrows a" "ar_ncols arg = ar_ncols a"
    "th_fits (thread_vec p ! i) = fits_calls mode a ds"
    "next_pixel (th_curr_pix (thread_vec p ! i)) mode (ar_nrows a * ar_ncols a) ds"
    using assms(1) by (auto simp: captured_def)
  show ?thesis
  proof (cases "ar_stop arg")
    case True
    with c assms(2) show ?thesis
      by (auto simp: thread_step_def thread_exit_def deref_def store_def Let_def)
  next
    case False
    obtain n d w where r: "timed_recv s BUFFSIZE WAIT_TIME ((os p)\<lparr>rx := [ev]\<rparr>) = (Done (n, d), w)"
      using timed_recv_Done by blast
    note pk = timed_recv_packet [OF r]
    show ?thesis
    proof (cases "0 < n")
      case True
      let ?t = "count_words (n div 4) (thread_vec p ! i)"
      have "th_fits (write_packet arg d ?t) = fits_calls mode a (ds @ [d])"
        "next_pixel (th_curr_pix (write_packet arg d ?t)) mode (ar_nrows a * ar_ncols a) (ds @ [d])"
        using write_packet_fits [of ?t a ds arg d] c by simp_all
      with True False c r pk assms(2) show ?thesis
        by (auto simp: thread_step_def thread_receive_def deref_def store_def Let_def captured_def
          th_out_write_packet total_words_snoc)
    next
      case n: False
      with False c r pk assms(2) show ?thesis
        by (auto simp: thread_step_def thread_receive_def deref_def captured_def)
    qed
  qed
qed

lemma writable_server_new: "writable (snd (udp_server_new a b w)) = writable w"
  by (simp add: udp_server_new_def open_socket_def Let_def)

lemma writable_thread_step:
  assumes "thread_step ev i p = Done p'"
  shows "writable (os p') = writable (os p)"
proof (cases "th_pc (thread_vec p ! i)")
  case Created
  with assms obtain arg where arg: "arg_heap p (th_arg (thread_vec p ! i)) = Some arg"
    by (auto simp: thread_step_def thread_open_def deref_def Let_def split: option.splits)
  obtain r w where r: "udp_server_new (ar_ip_address arg) (ar_port arg) (os p) = (r, w)"
    by (cases "udp_server_new (ar_ip_address arg) (ar_port arg) (os p)")
  then have "writable w = writable (os p)" using writable_server_new by (metis snd_conv)
  with Created assms arg r show ?thesis
    by (cases r) (auto simp: thread_step_def thread_open_def deref_def store_def Let_def)
next
  case (Receiving s)
  with assms obtain arg where arg: "arg_heap p (th_arg (thread_vec p ! i)) = Some arg"
    by (auto simp: thread_step_def deref_def split: option.splits)
  obtain n d w where r: "timed_recv s BUFFSIZE WAIT_TIME ((os p)\<lparr>rx := [ev]\<rparr>) = (Done (n, d), w)"
    using timed_recv_Done by blast
  with Receiving assms arg timed_recv_packet(3) [OF r] show ?thesis
    by (auto simp: thread_step_def thread_receive_def thread_exit_def deref_def store_def Let_def
      udp_server_delete_def split: if_splits option.splits)
qed (use assms in \<open>simp add: thread_step_def\<close>)

lemma writable_step: "step p e p' \<Longrightarrow> writable (os p') = writable (os p)"
  by (erule stepE) (auto simp: launchAsyncThread_def store_def request_stop_def delete_arg_def obind_eq_Done Let_def
    dest: writable_thread_step)

text \<open>Steps of the others leave thread \<open>i\<close> alone.\<close>

lemma captured_step:
  assumes "captured p i mode a ds" and "step p e p'" and "proc_inv p"
  shows "captured p' i mode a (ds @ packets_to (writable (os p)) i [e]) \<or> th_pc (thread_vec p' ! i) = Exited"
  using assms(2)
proof cases
  case (launch f ip port nrows ncols)
  have i: "i < length (thread_vec p)" using assms(1) by (simp add: captured_def)
  have "th_arg (thread_vec p ! i) \<in> set (thread_args (odile p))"
    using i proc_invD(1,2) [OF assms(3)] by simp
  then have "th_arg (thread_vec p ! i) \<noteq> fresh_ptr p" using assms(3) by (auto simp: proc_inv_def)
  then have "captured p' i mode a ds"
    using i by (intro captured_cong [OF assms(1)])
      (auto simp: launch launchAsyncThread_def store_def Let_def nth_append)
  then show ?thesis by (simp add: launch packets_to_def)
next
  case (stop j)
  have i: "i < length (thread_vec p)" using assms(1) by (simp add: captured_def)
  have "captured p' i mode a ds"
    using i stop by (intro captured_cong [OF assms(1)])
      (auto simp: request_stop_def store_def obind_eq_Done deref_simps)
  then show ?thesis by (simp add: stop packets_to_def)
next
  case (run j ev)
  show ?thesis
  proof (cases "j = i")
    case True
    then show ?thesis using captured_run [OF assms(1)] run by (simp add: packets_to_def)
  next
    case False
    have i: "i < length (thread_vec p)" using assms(1) by (simp add: captured_def)
    obtain t x where "th_arg t = th_arg (thread_vec p ! j)" "thread_vec p' = (thread_vec p)[j := t]"
        "arg_heap p' = (arg_heap p)(th_arg t := x)"
      using run assms(3) by (elim thread_step_local) auto
    moreover have "th_arg (thread_vec p ! i) \<noteq> th_arg (thread_vec p ! j)"
      using proc_invD(3) [OF assms(3) i run(2)] False by simp
    ultimately have "captured p' i mode a ds"
      using i False by (intro captured_cong [OF assms(1)]) auto
    then show ?thesis using False by (simp add: run packets_to_def)
  qed
next
  case (delete j)
  have i: "i < length (thread_vec p)" using assms(1) by (simp add: captured_def)
  have "j \<noteq> i" using delete(3) assms(1) by (auto simp: captured_def)
  moreover have "j < length (thread_vec p)" using delete(2) proc_invD(1) [OF assms(3)] by simp
  ultimately have "th_arg (thread_vec p ! i) \<noteq> thread_args (odile p) ! j"
    using proc_invD(2,3) [OF assms(3)] i by metis
  then have "captured p' i mode a ds"
    using i delete(4) by (intro captured_cong [OF assms(1)]) (auto simp: delete_arg_def obind_eq_Done)
  then show ?thesis by (simp add: delete packets_to_def)
qed

lemma exited_step:
  assumes "step p e p'" and "th_pc (thread_vec p ! i) = Exited" and "i < length (thread_vec p)" and "proc_inv p"
  shows "th_pc (thread_vec p' ! i) = Exited \<and> i < length (thread_vec p')"
  using assms(1)
proof cases
  case (run j ev)
  then show ?thesis
  proof (cases "j = i")
    case True
    with run assms(2,3) show ?thesis by (simp add: thread_step_def)
  next
    case False
    with run assms show ?thesis by (elim thread_step_local) auto
  qed
qed (use assms in \<open>auto simp: launchAsyncThread_def store_def request_stop_def delete_arg_def obind_eq_Done
  Let_def nth_append\<close>)

lemma exited_exec:
  "exec p es p' \<Longrightarrow> th_pc (thread_vec p ! i) = Exited \<Longrightarrow> i < length (thread_vec p) \<Longrightarrow> proc_inv p \<Longrightarrow>
     th_pc (thread_vec p' ! i) = Exited"
  by (induction rule: exec.induct) (auto dest: exited_step intro: proc_inv_step)

lemma packets_to_Cons: "packets_to b i (e # es) = packets_to b i [e] @ packets_to b i es"
  by (simp add: packets_to_def)

lemma captured_exec:
  assumes "exec p es p'" and "captured p i mode a ds" and "proc_inv p" and "th_pc (thread_vec p' ! i) \<noteq> Exited"
  shows "captured p' i mode a (ds @ packets_to (writable (os p)) i es)"
  using assms
proof (induction arbitrary: ds rule: exec.induct)
  case (Nil p)
  then show ?case by (simp add: packets_to_def)
next
  case (Cons p e p1 es p')
  have inv: "proc_inv p1" using Cons.hyps(1) Cons.prems(2) by (rule proc_inv_step)
  have "i < length (thread_vec p1)"
    using Cons.hyps(1) Cons.prems(1,2)
    by (auto simp: captured_def launchAsyncThread_def store_def request_stop_def delete_arg_def obind_eq_Done Let_def
      elim!: stepE elim: thread_step_local)
  then have "th_pc (thread_vec p1 ! i) \<noteq> Exited" using exited_exec [OF Cons.hyps(2)] inv Cons.prems(3) by blast
  then have "captured p1 i mode a (ds @ packets_to (writable (os p)) i [e])"
    using captured_step [OF Cons.prems(1) Cons.hyps(1) Cons.prems(2)] by blast
  from Cons.IH [OF this inv Cons.prems(3)] show ?case
    using writable_step [OF Cons.hyps(1)] packets_to_Cons [of _ i e es] by simp
qed

lemma captured_open:
  assumes "thread_open i p = Done p'" and "i < length (thread_vec p)"
    and "arg_heap p (th_arg (thread_vec p ! i)) = Some arg"
  shows "captured p' i (output_mode_of (cfitsio p) arg) arg []"
proof -
  obtain r w where r: "udp_server_new (ar_ip_address arg) (ar_port arg) (os p) = (r, w)"
    by (cases "udp_server_new (ar_ip_address arg) (ar_port arg) (os p)")
  with assms show ?thesis
    by (cases r) (auto simp: thread_open_def deref_def store_def captured_def total_words_def fits_header_def fits_calls_def
      fits_image_def next_pixel_def Let_def)
qed


subsection \<open>A text capture can be sent again\<close>

lemma is_digit_zero: "is_digit_of 16 CHR ''0''"
  by (simp add: is_digit_of_def digit_value_def)

lemma hex_padded_digits: "c \<in> set (hex_padded w n) \<Longrightarrow> is_digit_of 16 c"
  by (auto simp: hex_padded_def Let_def is_digit_zero dest: hex_digits_all)

lemma digits_value_zeros: "digits_value 16 (replicate k CHR ''0'' @ ds) = digits_value 16 ds"
proof -
  have "foldl (\<lambda>acc c. 16 * acc + the (digit_value c)) 0 (replicate k CHR ''0'') = (0::nat)"
    by (induction k) (simp_all add: digit_value_def)
  then show ?thesis by (simp add: digits_value_def)
qed

lemma digits_value_hex_padded: "digits_value 16 (hex_padded w n) = n"
  by (simp add: hex_padded_def Let_def digits_value_zeros digits_value_hex_digits)

lemma not_digit_newline: "\<not> is_digit_of 16 newline"
  by (simp add: is_digit_of_def digit_value_def)

lemma hex_extract_line:
  assumes "n < 2 ^ 32"
  shows "hex_extract (hex_padded (Suc w) n @ newline # rest) = Some (word_of_nat n, newline # rest)"
proof -
  have len: "hex_padded (Suc w) n \<noteq> []" by (simp add: hex_padded_def Let_def)
  then obtain c ds where ds: "hex_padded (Suc w) n = c # ds" by (cases "hex_padded (Suc w) n") auto
  have all: "\<forall>c \<in> set (c # ds). is_digit_of 16 c" using hex_padded_digits ds by metis
  then have c: "is_digit_of 16 c" by simp
  have 1: "dropWhile isspace (c # ds @ newline # rest) = c # ds @ newline # rest"
    using c hex_chars_plain by simp
  have 2: "sign_of (c # ds @ newline # rest) = (1, c # ds @ newline # rest)"
    using c by (auto simp: sign_of_def is_digit_of_def digit_value_def)
  have 3: "\<not> hex_prefixed (c # ds @ newline # rest)"
  proof (cases ds)
    case (Cons d ds')
    then have "is_digit_of 16 d" using all by simp
    then have "d \<noteq> CHR ''x'' \<and> d \<noteq> CHR ''X''" by (auto simp: is_digit_of_def digit_value_def)
    with Cons show ?thesis by (auto simp: hex_prefixed_def split: list.splits)
  qed (auto simp: hex_prefixed_def split: list.splits)
  have 4: "takeWhile (is_digit_of 16) (c # ds @ newline # rest) = c # ds"
    using all not_digit_newline takeWhile_append2 [of "c # ds" "is_digit_of 16" "newline # rest"] by simp
  have "digits_value 16 (c # ds) = n" using digits_value_hex_padded [of "Suc w" n] ds by simp
  with assms show ?thesis
    unfolding hex_extract_def ds append_Cons 1 2 by (simp add: 3 4 del: takeWhile.simps)
qed

lemma hex_extract_newline: "hex_extract (newline # s) = hex_extract s"
  by (simp add: hex_extract_def)

lemma read_hex_words_newline: "read_hex_words (newline # s) = read_hex_words s"
  by (subst (1 2) read_hex_words.simps) (simp add: hex_extract_newline)

lemma read_text_lines: "read_hex_words (concat (map text_line ws) @ s) = ws @ read_hex_words s"
proof (induction ws)
  case (Cons x ws)
  have "unat (bswap_32 x) < 2 ^ 32" using unat_u32 [of "bswap_32 x"] by simp
  then have "hex_extract (text_line x @ concat (map text_line ws) @ s) =
      Some (bswap_32 x, newline # concat (map text_line ws) @ s)"
    using hex_extract_line [of "unat (bswap_32 x)" 7] by (simp add: text_line_def)
  then show ?case
    by (simp add: read_hex_words.simps [of "text_line x @ concat (map text_line ws) @ s"] read_hex_words_newline Cons)
qed simp

text \<open>
  Round trip through a text file: if a thread captured the packets \<open>ds\<close> in text mode and its output
  is passed to \<open>sendData\<close>, the words of these packets are sent, in the byte order they came in.
\<close>

theorem text_capture_roundtrip:
  assumes "fs f = Some (concat (map (packet_text Text) ds))"
  shows "sendData_file fs srv f port = sendData srv (concat (map words_of_bytes ds)) port"
proof -
  have nil: "read_hex_words [] = []" by (simp add: read_hex_words.simps hex_extract_def sign_of_def hex_prefixed_def)
  have "concat (map (packet_text Text) ds) = concat (map text_line (concat (map words_of_bytes ds)))"
    by (induction ds) simp_all
  then show ?thesis
    using assms read_text_lines [of _ "[]"] by (simp add: sendData_file_def nil)
qed

theorem text_capture_roundtrip_witness:
  "packet_text Text [0x12, 0x34, 0x56, 0x78] = ''12345678'' @ [newline] \<and>
   sendData_file [''f'' \<mapsto> ''12345678'' @ [newline]] demo_server ''f'' 0x2000 = sendData demo_server [0x78563412] 0x2000"
proof -
  have "packet_text Text [0x12, 0x34, 0x56, 0x78] = ''12345678'' @ [newline]"
    by (simp add: text_line_def bswap_32_def hex_padded_def hex_digits.simps hex_digit_def char_of_def bit_0)
  then show ?thesis
    using text_capture_roundtrip [of "[''f'' \<mapsto> ''12345678'' @ [newline]]" "''f''" "[[0x12, 0x34, 0x56, 0x78]]" demo_server "0x2000"]
    by simp
qed

subsection \<open>A process for demonstrations\<close>

definition idle_process :: process where
  "idle_process = \<lparr>cfitsio = False, arg_heap = (\<lambda>_. None), fresh_ptr = 1, odile = demo_server, thread_vec = [],
     os = quiet_net\<rparr>"

definition launched_process :: process where
  "launched_process = snd (launchAsyncThread ''a.txt'' ''0.0.0.0'' 0x1000 (-1) (-1) idle_process)"

lemma reachable_launched: "reachable launched_process"
proof -
  have "reachable idle_process"
    by (rule reachable.start) (simp_all add: idle_process_def demo_server_def Let_def)
  then show ?thesis unfolding launched_process_def by (rule reachable.step) (rule step.launch)
qed

lemma launched_simps:
  "thread_vec launched_process = [new_thread 1]" "os launched_process = quiet_net"
  "thread_args (odile launched_process) = [1]" "cfitsio launched_process = False"
  "arg_heap launched_process = (\<lambda>_. None)(1 \<mapsto> \<lparr>ar_stop = False, ar_port = 0x1000, ar_thread_id = 0,
     ar_ip_address = ''0.0.0.0'', ar_outfname = ''a.txt'', ar_finished = False, ar_nrows = -1, ar_ncols = -1,
     ar_nread = None\<rparr>)"
  by (simp_all add: launched_process_def launchAsyncThread_def idle_process_def store_def demo_server_def Let_def)

theorem threads_are_safe_witness: "\<exists>p'. thread_step Silent 0 launched_process = Done p'"
proof -
  have "thread_step Silent 0 launched_process \<noteq> Throws e" for e
    by (simp add: thread_step_def thread_open_def launched_simps new_thread_def deref_def udp_server_new_def
      open_socket_def quiet_net_def Let_def)
  then show ?thesis using threads_are_safe [OF reachable_launched, of 0 Silent] by (auto simp: launched_simps)
qed

lemma can_open_launched: "can_open (os launched_process)"
  by (simp add: launched_simps can_open_def quiet_net_def)

theorem destructor_closes_all_witness:
  "\<exists>q. ODILEServer_delete launched_process = Done q \<and> arg_heap q 1 = None"
  using destructor_closes_all [OF reachable_launched _ can_open_launched]
  by (auto simp: launched_simps new_thread_def)

theorem close_leaves_dangling_pointer_witness:
  "\<exists>p'. closeAsyncThread 0 launched_process = Done (0, p') \<and> getWordsRead p' 0 = UB ''use after free''"
proof -
  have "\<exists>p'. closeAsyncThread (int 0) launched_process = Done (0, p')"
    using close_one [OF reachable_inv [OF reachable_launched] _ _ can_open_launched, of 0]
    by (auto simp: launched_simps new_thread_def)
  then obtain p' where p': "closeAsyncThread 0 launched_process = Done (0, p')" by auto
  with close_leaves_dangling_pointer [OF p'] show ?thesis by auto
qed


end
