(* ===== verification/Tclap.thy ===== *)
theory Tclap
  imports CLib
begin

text \<open>
  The command line parser the programs use, the bundled header library TCLAP: arguments with
  their flags, names and values, the six argument classes, the handler of mutually exclusive
  arguments, and \<open>CmdLine\<close> with its \<open>parse\<close>. Argument objects are shared between the list of the
  command line and the lists of the exclusion handler, so they are kept in a store and referred
  to by their position in it. Exceptions are values of a sum type.
\<close>

subsection \<open>Exceptions\<close>

text \<open>
  Text and argument id of the three kinds of \<open>ArgException\<close>, and \<open>ExitException\<close>. \<open>NoReturn\<close> is
  not an exception: it stands for a call that loops forever.
\<close>

datatype tclap_exn =
  ArgParseException string string | CmdLineParseException string string |
  SpecificationException string string | ExitException int | NoReturn

definition undefined_id :: string where "undefined_id = ''undefined''"

fun exn_error :: "tclap_exn \<Rightarrow> string" where
  "exn_error (ArgParseException t i) = t"
| "exn_error (CmdLineParseException t i) = t"
| "exn_error (SpecificationException t i) = t"
| "exn_error (ExitException s) = []"
| "exn_error NoReturn = []"

fun exn_id :: "tclap_exn \<Rightarrow> string" where
  "exn_id (ArgParseException t i) = i"
| "exn_id (CmdLineParseException t i) = i"
| "exn_id (SpecificationException t i) = i"
| "exn_id (ExitException s) = []"
| "exn_id NoReturn = []"

definition exn_argId :: "tclap_exn \<Rightarrow> string" where
  "exn_argId e = (if exn_id e = undefined_id then '' '' else ''Argument: '' @ exn_id e)"

definition exn_what :: "tclap_exn \<Rightarrow> string" where
  "exn_what e = exn_id e @ '' -- '' @ exn_error e"

type_synonym 'a res = "tclap_exn + 'a"

fun rbind :: "'a res \<Rightarrow> ('a \<Rightarrow> 'b res) \<Rightarrow> 'b res" where
  "rbind (Inl e) f = Inl e"
| "rbind (Inr a) f = f a"

lemma rbind_eq_Inr: "rbind r f = Inr b \<longleftrightarrow> (\<exists>a. r = Inr a \<and> f a = Inr b)"
  by (cases r) auto

subsection \<open>Values\<close>

text \<open>
  The value types of \<open>StandardTraits.h\<close> but floating point; the programs use \<open>std::string\<close>, \<open>int\<close>, \<open>unsigned int\<close>
  and \<open>short\<close>. A character is a string of length 1, a \<open>bool\<close> is 0 or 1.
\<close>

datatype value_type =
  T_string | T_int | T_uint | T_short | T_long | T_ulong | T_ushort | T_char | T_uchar | T_bool

datatype arg_value = VString string | VNum int

record constraint =
  c_check :: "arg_value \<Rightarrow> bool"
  c_description :: string
  c_shortID :: string

text \<open>
  \<open>is >> std::setbase(0) >> destVal\<close>: white space, sign, base from the prefix, digits. None is a
  failed extraction: no digits, or a number the type cannot hold. An unsigned type takes a sign and
  wraps; its limit applies to the digits. A \<open>bool\<close> is read as a number that must be 0 or 1.
\<close>

definition fits_type :: "value_type \<Rightarrow> int \<Rightarrow> nat \<Rightarrow> bool" where
  "fits_type ty sg n =
     (case ty of T_string \<Rightarrow> True
      | T_int \<Rightarrow> - (2 ^ 31) \<le> sg * int n \<and> sg * int n < 2 ^ 31
      | T_uint \<Rightarrow> n < 2 ^ 32
      | T_short \<Rightarrow> - (2 ^ 15) \<le> sg * int n \<and> sg * int n < 2 ^ 15
      | T_long \<Rightarrow> - (2 ^ 63) \<le> sg * int n \<and> sg * int n < 2 ^ 63
      | T_ulong \<Rightarrow> n < 2 ^ 64
      | T_ushort \<Rightarrow> n < 2 ^ 16
      | T_bool \<Rightarrow> sg * int n = 0 \<or> sg * int n = 1
      | T_char \<Rightarrow> False
      | T_uchar \<Rightarrow> False)"

definition stored_number :: "value_type \<Rightarrow> int \<Rightarrow> int" where
  "stored_number ty i =
     (case ty of T_uint \<Rightarrow> i mod 2 ^ 32 | T_ulong \<Rightarrow> i mod 2 ^ 64 | T_ushort \<Rightarrow> i mod 2 ^ 16 | _ \<Rightarrow> i)"

definition extract_number :: "value_type \<Rightarrow> string \<Rightarrow> (int \<times> string) option" where
  "extract_number ty s =
     (let (sg, s1) = sign_of (dropWhile isspace s);
          (base, s2) = base_of s1;
          ds = takeWhile (is_digit_of base) s2;
          n = digits_value base ds
      in if ds = [] \<or> \<not> fits_type ty sg n then None
         else Some (stored_number ty (sg * int n), drop (length ds) s2))"

text \<open>A character is read as the next one that is not white space.\<close>

definition extract_one :: "value_type \<Rightarrow> string \<Rightarrow> (arg_value \<times> string) option" where
  "extract_one ty s =
     (if ty = T_char \<or> ty = T_uchar
      then case dropWhile isspace s of [] \<Rightarrow> None | c # cs \<Rightarrow> Some (VString [c], cs)
      else case extract_number ty s of None \<Rightarrow> None | Some (n, rest) \<Rightarrow> Some (VNum n, rest))"

lemma extract_number_shorter:
  assumes "extract_number ty s = Some (v, rest)"
  shows "length rest < length s"
proof -
  let ?s1 = "snd (sign_of (dropWhile isspace s))"
  let ?s2 = "snd (base_of ?s1)"
  let ?ds = "takeWhile (is_digit_of (fst (base_of ?s1))) ?s2"
  have r: "rest = drop (length ?ds) ?s2" "?ds \<noteq> []"
    using assms by (auto simp: extract_number_def Let_def split_beta split: if_splits)
  have "length (snd (sign_of t)) \<le> length t" for t
    by (auto simp: sign_of_def split: list.splits)
  then have "length ?s1 \<le> length s" using length_dropWhile_le [of isspace s] le_trans by blast
  moreover have "length ?s2 \<le> length ?s1" by (simp add: base_of_def)
  moreover have "length rest < length ?s2"
    using r length_takeWhile_le [of "is_digit_of (fst (base_of ?s1))" ?s2] by (cases ?s2) auto
  ultimately show ?thesis by simp
qed

lemma extract_one_shorter: "extract_one ty s = Some (v, rest) \<Longrightarrow> length rest < length s"
  using length_dropWhile_le [of isspace s] extract_number_shorter [of ty s]
  by (fastforce simp: extract_one_def split: if_splits list.splits option.splits)

text \<open>The loop of \<open>ExtractValue\<close>: None is a failed stream, otherwise the values read, in order.\<close>

function extract_values :: "value_type \<Rightarrow> string \<Rightarrow> arg_value list option" where
  "extract_values ty s =
     (if s = [] then Some []
      else case extract_one ty s of None \<Rightarrow> None
           | Some (v, rest) \<Rightarrow> map_option (\<lambda>vs. v # vs) (extract_values ty rest))"
  by pat_completeness auto
termination
  by (relation "measure (\<lambda>(ty, s). length s)") (auto simp: extract_one_shorter)

declare extract_values.simps [simp del]

text \<open>
  The stream reads the C string \<open>strVal.c_str()\<close>, up to the first NUL. An empty string reads no value
  and leaves the variable as it was.
\<close>

definition ExtractValue :: "value_type \<Rightarrow> arg_value \<Rightarrow> string \<Rightarrow> arg_value res" where
  "ExtractValue ty old strVal =
     (if ty = T_string then Inr (VString strVal)
      else case extract_values ty (c_str strVal) of
             None \<Rightarrow> Inl (ArgParseException (''Couldn'' @ [CHR 0x27] @ ''t read argument value from string '' @ [CHR 0x27] @ strVal @ [CHR 0x27]) undefined_id)
           | Some [] \<Rightarrow> Inr old
           | Some [v] \<Rightarrow> Inr v
           | Some _ \<Rightarrow> Inl (ArgParseException (''More than one valid value parsed from string '' @ [CHR 0x27] @ strVal @ [CHR 0x27]) undefined_id))"

subsection \<open>Constraints\<close>

text \<open>\<open>ValuesConstraint\<close>: the allowed values; its description lists them with bars in between.\<close>

fun show_value :: "arg_value \<Rightarrow> string" where
  "show_value (VString s) = s"
| "show_value (VNum n) = dec_int n"

definition allowed_text :: "arg_value list \<Rightarrow> string" where
  "allowed_text allowed =
     concat (map (\<lambda>i. (if 0 < i then ''|'' else []) @ show_value (allowed ! i)) [0..<length allowed])"

definition ValuesConstraint :: "arg_value list \<Rightarrow> constraint" where
  "ValuesConstraint allowed =
     \<lparr>c_check = (\<lambda>v. v \<in> set allowed), c_description = allowed_text allowed, c_shortID = allowed_text allowed\<rparr>"

subsection \<open>Arguments\<close>

datatype visitor = NoVisitor | HelpVisitor | VersionVisitor | IgnoreRestVisitor

text \<open>
  What the subclasses of \<open>Arg\<close> add: value and default of a switch; count and default of a
  multi-switch; type, value, default, type description and constraint of a value argument; type,
  values, type description, constraint and \<open>_allowMore\<close> of a multi-argument.
\<close>

datatype arg_kind =
  Switch bool bool
| MultiSwitch int int
| Value value_type arg_value arg_value string "constraint option"
| Multi value_type "arg_value list" string "constraint option" bool
| UnlabeledValue value_type arg_value arg_value string "constraint option"
| UnlabeledMulti value_type "arg_value list" string "constraint option" bool

record tclap_arg =
  a_flag :: string
  a_name :: string
  a_description :: string
  a_required :: bool
  a_requireLabel :: string
  a_valueRequired :: bool
  a_alreadySet :: bool
  a_visitor :: visitor
  a_ignoreable :: bool
  a_xorSet :: bool
  a_multiple :: bool
  a_kind :: arg_kind

definition flagStartString :: string where "flagStartString = ''-''"
definition nameStartString :: string where "nameStartString = ''--''"
definition ignoreNameString :: string where "ignoreNameString = ''ignore_rest''"
definition blankChar :: char where "blankChar = CHR 0x07"

definition Arg_toString :: "tclap_arg \<Rightarrow> string" where
  "Arg_toString a =
     (if a_flag a \<noteq> [] then flagStartString @ a_flag a @ '' '' else []) @
     ''('' @ nameStartString @ a_name a @ '')''"

definition Arg_new :: "string \<Rightarrow> string \<Rightarrow> string \<Rightarrow> bool \<Rightarrow> bool \<Rightarrow> visitor \<Rightarrow> arg_kind \<Rightarrow> tclap_arg res" where
  "Arg_new flag nm desc req valreq v kind =
     (let a = \<lparr>a_flag = flag, a_name = nm, a_description = desc, a_required = req, a_requireLabel = ''required'',
               a_valueRequired = valreq, a_alreadySet = False, a_visitor = v, a_ignoreable = True,
               a_xorSet = False, a_multiple = False, a_kind = kind\<rparr>
      in if 1 < length flag
         then Inl (SpecificationException ''Argument flag can only be one character long'' (Arg_toString a))
         else if nm \<noteq> ignoreNameString \<and> (flag = flagStartString \<or> flag = nameStartString \<or> flag = '' '')
         then Inl (SpecificationException (''Argument flag cannot be either '' @ [CHR 0x27] @ flagStartString @ [CHR 0x27] @
                '' or '' @ [CHR 0x27] @ nameStartString @ [CHR 0x27] @ '' or a space.'') (Arg_toString a))
         else if take 1 nm = flagStartString \<or> take 2 nm = nameStartString \<or> CHR '' '' \<in> set nm
         then Inl (SpecificationException (''Argument name begin with either '' @ [CHR 0x27] @ flagStartString @ [CHR 0x27] @
                '' or '' @ [CHR 0x27] @ nameStartString @ [CHR 0x27] @ '' or space.'') (Arg_toString a))
         else Inr a)"

text \<open>\<open>Arg::shortID\<close>, \<open>Arg::longID\<close> with the delimiter of the command line.\<close>

definition Arg_shortID :: "char \<Rightarrow> tclap_arg \<Rightarrow> string \<Rightarrow> string" where
  "Arg_shortID delim a valueId =
     (let id0 = (if a_flag a \<noteq> [] then flagStartString @ a_flag a else nameStartString @ a_name a);
          id1 = (if a_valueRequired a then id0 @ [delim] @ ''<'' @ valueId @ ''>'' else id0)
      in if \<not> a_required a then ''['' @ id1 @ '']'' else id1)"

definition Arg_longID :: "char \<Rightarrow> tclap_arg \<Rightarrow> string \<Rightarrow> string" where
  "Arg_longID delim a valueId =
     (let val = (if a_valueRequired a then [delim] @ ''<'' @ valueId @ ''>'' else [])
      in (if a_flag a \<noteq> [] then flagStartString @ a_flag a @ val @ '',  '' else []) @
         nameStartString @ a_name a @ val)"

definition getDescription :: "tclap_arg \<Rightarrow> string" where
  "getDescription a = (if a_required a then ''('' @ a_requireLabel a @ '')  '' else []) @ a_description a"

text \<open>
  \<open>operator==\<close>, \<open>isRequired\<close>, \<open>shortID\<close>, \<open>longID\<close>, \<open>addToList\<close>, \<open>allowMore\<close> and \<open>reset\<close> are virtual: one definition per
  class that has its own, and the dispatch on the class.
\<close>

fun kind_typeDesc :: "arg_kind \<Rightarrow> string" where
  "kind_typeDesc (Value ty v d td con) = td"
| "kind_typeDesc (Multi ty vs td con am) = td"
| "kind_typeDesc (UnlabeledValue ty v d td con) = td"
| "kind_typeDesc (UnlabeledMulti ty vs td con am) = td"
| "kind_typeDesc _ = []"

definition Arg_base_eq :: "tclap_arg \<Rightarrow> tclap_arg \<Rightarrow> bool" where
  "Arg_base_eq a b \<longleftrightarrow> (a_flag a \<noteq> [] \<and> a_flag a = a_flag b) \<or> a_name a = a_name b"

definition UnlabeledValueArg_eq :: "tclap_arg \<Rightarrow> tclap_arg \<Rightarrow> bool" where
  "UnlabeledValueArg_eq a b \<longleftrightarrow> a_name a = a_name b \<or> a_description a = getDescription b"

definition UnlabeledMultiArg_eq :: "tclap_arg \<Rightarrow> tclap_arg \<Rightarrow> bool" where
  "UnlabeledMultiArg_eq a b \<longleftrightarrow> a_name a = a_name b \<or> a_description a = getDescription b"

definition Arg_eq :: "tclap_arg \<Rightarrow> tclap_arg \<Rightarrow> bool" where
  Arg_eq_dispatch: "Arg_eq a b =
     (case a_kind a of
        UnlabeledValue _ _ _ _ _ \<Rightarrow> UnlabeledValueArg_eq a b
      | UnlabeledMulti _ _ _ _ _ \<Rightarrow> UnlabeledMultiArg_eq a b
      | _ \<Rightarrow> Arg_base_eq a b)"

definition Arg_isRequired :: "tclap_arg \<Rightarrow> bool" where
  "Arg_isRequired a = a_required a"

fun values_of :: "arg_kind \<Rightarrow> arg_value list" where
  "values_of (Multi ty vs td con am) = vs"
| "values_of (UnlabeledMulti ty vs td con am) = vs"
| "values_of _ = []"

definition MultiArg_isRequired :: "tclap_arg \<Rightarrow> bool" where
  "MultiArg_isRequired a =
     (if a_required a then if 1 < length (values_of (a_kind a)) then False else True else False)"

definition isRequired :: "tclap_arg \<Rightarrow> bool" where
  isRequired_dispatch: "isRequired a =
     (case a_kind a of
        Multi _ _ _ _ _ \<Rightarrow> MultiArg_isRequired a
      | UnlabeledMulti _ _ _ _ _ \<Rightarrow> MultiArg_isRequired a
      | _ \<Rightarrow> Arg_isRequired a)"

definition MultiSwitchArg_shortID :: "char \<Rightarrow> tclap_arg \<Rightarrow> string \<Rightarrow> string" where
  "MultiSwitchArg_shortID delim a val = Arg_shortID delim a val @ '' ... ''"

definition ValueArg_shortID :: "char \<Rightarrow> tclap_arg \<Rightarrow> string" where
  "ValueArg_shortID delim a = Arg_shortID delim a (kind_typeDesc (a_kind a))"

definition MultiArg_shortID :: "char \<Rightarrow> tclap_arg \<Rightarrow> string" where
  "MultiArg_shortID delim a = Arg_shortID delim a (kind_typeDesc (a_kind a)) @ '' ... ''"

definition UnlabeledValueArg_shortID :: "tclap_arg \<Rightarrow> string" where
  "UnlabeledValueArg_shortID a = ''<'' @ kind_typeDesc (a_kind a) @ ''>''"

definition UnlabeledMultiArg_shortID :: "tclap_arg \<Rightarrow> string" where
  "UnlabeledMultiArg_shortID a = ''<'' @ kind_typeDesc (a_kind a) @ ''> ...''"

definition shortID :: "char \<Rightarrow> tclap_arg \<Rightarrow> string" where
  shortID_dispatch: "shortID delim a =
     (case a_kind a of
        Switch _ _ \<Rightarrow> Arg_shortID delim a ''val''
      | MultiSwitch _ _ \<Rightarrow> MultiSwitchArg_shortID delim a ''val''
      | Value _ _ _ _ _ \<Rightarrow> ValueArg_shortID delim a
      | Multi _ _ _ _ _ \<Rightarrow> MultiArg_shortID delim a
      | UnlabeledValue _ _ _ _ _ \<Rightarrow> UnlabeledValueArg_shortID a
      | UnlabeledMulti _ _ _ _ _ \<Rightarrow> UnlabeledMultiArg_shortID a)"

definition MultiSwitchArg_longID :: "char \<Rightarrow> tclap_arg \<Rightarrow> string \<Rightarrow> string" where
  "MultiSwitchArg_longID delim a val = Arg_longID delim a val @ ''  (accepted multiple times)''"

definition ValueArg_longID :: "char \<Rightarrow> tclap_arg \<Rightarrow> string" where
  "ValueArg_longID delim a = Arg_longID delim a (kind_typeDesc (a_kind a))"

definition MultiArg_longID :: "char \<Rightarrow> tclap_arg \<Rightarrow> string" where
  "MultiArg_longID delim a = Arg_longID delim a (kind_typeDesc (a_kind a)) @ ''  (accepted multiple times)''"

definition UnlabeledValueArg_longID :: "tclap_arg \<Rightarrow> string" where
  "UnlabeledValueArg_longID a = ''<'' @ kind_typeDesc (a_kind a) @ ''>''"

definition UnlabeledMultiArg_longID :: "tclap_arg \<Rightarrow> string" where
  "UnlabeledMultiArg_longID a = ''<'' @ kind_typeDesc (a_kind a) @ ''>  (accepted multiple times)''"

definition longID :: "char \<Rightarrow> tclap_arg \<Rightarrow> string" where
  longID_dispatch: "longID delim a =
     (case a_kind a of
        Switch _ _ \<Rightarrow> Arg_longID delim a ''val''
      | MultiSwitch _ _ \<Rightarrow> MultiSwitchArg_longID delim a ''val''
      | Value _ _ _ _ _ \<Rightarrow> ValueArg_longID delim a
      | Multi _ _ _ _ _ \<Rightarrow> MultiArg_longID delim a
      | UnlabeledValue _ _ _ _ _ \<Rightarrow> UnlabeledValueArg_longID a
      | UnlabeledMulti _ _ _ _ _ \<Rightarrow> UnlabeledMultiArg_longID a)"

definition isSet :: "tclap_arg \<Rightarrow> bool" where
  "isSet a \<longleftrightarrow> a_alreadySet a \<and> \<not> a_xorSet a"

definition argMatches :: "tclap_arg \<Rightarrow> string \<Rightarrow> bool" where
  "argMatches a argFlag \<longleftrightarrow>
     (argFlag = flagStartString @ a_flag a \<and> a_flag a \<noteq> []) \<or> argFlag = nameStartString @ a_name a"

definition trimFlag :: "char \<Rightarrow> string \<Rightarrow> string \<times> string" where
  "trimFlag delim flag =
     (let stop = (case find_first (\<lambda>c. c = delim) flag of Some i \<Rightarrow> i | None \<Rightarrow> 0)
      in if 1 < stop then (take stop flag, drop (stop + 1) flag) else (flag, []))"

definition hasBlanks :: "string \<Rightarrow> bool" where
  "hasBlanks s \<longleftrightarrow> blankChar \<in> set (tl s)"

definition forceRequired :: "tclap_arg \<Rightarrow> tclap_arg" where
  "forceRequired a = a\<lparr>a_required := True\<rparr>"

definition setRequireLabel :: "string \<Rightarrow> tclap_arg \<Rightarrow> tclap_arg" where
  "setRequireLabel l a = a\<lparr>a_requireLabel := l\<rparr>"

definition xorSet :: "tclap_arg \<Rightarrow> tclap_arg" where
  "xorSet a = a\<lparr>a_alreadySet := True, a_xorSet := True\<rparr>"

definition Arg_addToList :: "'i \<Rightarrow> 'i list \<Rightarrow> 'i list" where
  [simp]: "Arg_addToList x argList = x # argList"

definition UnlabeledValueArg_addToList :: "'i \<Rightarrow> 'i list \<Rightarrow> 'i list" where
  [simp]: "UnlabeledValueArg_addToList x argList = argList @ [x]"

definition UnlabeledMultiArg_addToList :: "'i \<Rightarrow> 'i list \<Rightarrow> 'i list" where
  [simp]: "UnlabeledMultiArg_addToList x argList = argList @ [x]"

fun addToList :: "tclap_arg \<Rightarrow> 'i \<Rightarrow> 'i list \<Rightarrow> 'i list" where
  "addToList a x argList =
     (case a_kind a of
        UnlabeledValue _ _ _ _ _ \<Rightarrow> UnlabeledValueArg_addToList x argList
      | UnlabeledMulti _ _ _ _ _ \<Rightarrow> UnlabeledMultiArg_addToList x argList
      | _ \<Rightarrow> Arg_addToList x argList)"

definition Arg_allowMore :: bool where
  "Arg_allowMore = False"

fun more_allowed :: "arg_kind \<Rightarrow> bool" where
  "more_allowed (Multi ty vs td con am) = am"
| "more_allowed (UnlabeledMulti ty vs td con am) = am"
| "more_allowed _ = False"

fun allow_more :: "arg_kind \<Rightarrow> arg_kind" where
  "allow_more (Multi ty vs td con am) = Multi ty vs td con True"
| "allow_more (UnlabeledMulti ty vs td con am) = UnlabeledMulti ty vs td con True"
| "allow_more k = k"

definition MultiArg_allowMore :: "tclap_arg \<Rightarrow> bool \<times> tclap_arg" where
  "MultiArg_allowMore a = (more_allowed (a_kind a), a\<lparr>a_kind := allow_more (a_kind a)\<rparr>)"

definition allowMore :: "tclap_arg \<Rightarrow> bool \<times> tclap_arg" where
  allowMore_dispatch: "allowMore a =
     (case a_kind a of
        Multi _ _ _ _ _ \<Rightarrow> MultiArg_allowMore a
      | UnlabeledMulti _ _ _ _ _ \<Rightarrow> MultiArg_allowMore a
      | _ \<Rightarrow> (Arg_allowMore, a))"

definition Arg_reset :: "tclap_arg \<Rightarrow> tclap_arg" where
  "Arg_reset a = a\<lparr>a_xorSet := False, a_alreadySet := False\<rparr>"

text \<open>\<open>_value = _default\<close>, \<open>_values.clear()\<close>. The \<open>reset\<close> of a multi-switch does not call that of \<open>Arg\<close>.\<close>

fun default_kind :: "arg_kind \<Rightarrow> arg_kind" where
  "default_kind (Switch v d) = Switch d d"
| "default_kind (MultiSwitch v d) = MultiSwitch d d"
| "default_kind (Value ty v d td con) = Value ty d d td con"
| "default_kind (UnlabeledValue ty v d td con) = UnlabeledValue ty d d td con"
| "default_kind (Multi ty vs td con am) = Multi ty [] td con am"
| "default_kind (UnlabeledMulti ty vs td con am) = UnlabeledMulti ty [] td con am"

definition SwitchArg_reset :: "tclap_arg \<Rightarrow> tclap_arg" where
  "SwitchArg_reset a = (Arg_reset a)\<lparr>a_kind := default_kind (a_kind a)\<rparr>"

definition MultiSwitchArg_reset :: "tclap_arg \<Rightarrow> tclap_arg" where
  "MultiSwitchArg_reset a = a\<lparr>a_kind := default_kind (a_kind a)\<rparr>"

definition ValueArg_reset :: "tclap_arg \<Rightarrow> tclap_arg" where
  "ValueArg_reset a = (Arg_reset a)\<lparr>a_kind := default_kind (a_kind a)\<rparr>"

definition MultiArg_reset :: "tclap_arg \<Rightarrow> tclap_arg" where
  "MultiArg_reset a = (Arg_reset a)\<lparr>a_kind := default_kind (a_kind a)\<rparr>"

definition arg_reset :: "tclap_arg \<Rightarrow> tclap_arg" where
  arg_reset_dispatch: "arg_reset a =
     (case a_kind a of
        Switch _ _ \<Rightarrow> SwitchArg_reset a
      | MultiSwitch _ _ \<Rightarrow> MultiSwitchArg_reset a
      | Value _ _ _ _ _ \<Rightarrow> ValueArg_reset a
      | Multi _ _ _ _ _ \<Rightarrow> MultiArg_reset a
      | UnlabeledValue _ _ _ _ _ \<Rightarrow> ValueArg_reset a
      | UnlabeledMulti _ _ _ _ _ \<Rightarrow> MultiArg_reset a)"

subsection \<open>Constructors\<close>

definition SwitchArg_new :: "string \<Rightarrow> string \<Rightarrow> string \<Rightarrow> bool \<Rightarrow> visitor \<Rightarrow> tclap_arg res" where
  "SwitchArg_new flag nm desc default_val v = Arg_new flag nm desc False False v (Switch default_val default_val)"

definition MultiSwitchArg_new :: "string \<Rightarrow> string \<Rightarrow> string \<Rightarrow> int \<Rightarrow> visitor \<Rightarrow> tclap_arg res" where
  "MultiSwitchArg_new flag nm desc init v = Arg_new flag nm desc False False v (MultiSwitch init init)"

definition ValueArg_new ::
    "string \<Rightarrow> string \<Rightarrow> string \<Rightarrow> bool \<Rightarrow> value_type \<Rightarrow> arg_value \<Rightarrow> string \<Rightarrow> visitor \<Rightarrow> tclap_arg res" where
  "ValueArg_new flag nm desc req ty val typeDesc v = Arg_new flag nm desc req True v (Value ty val val typeDesc None)"

definition ValueArg_new_constrained ::
    "string \<Rightarrow> string \<Rightarrow> string \<Rightarrow> bool \<Rightarrow> value_type \<Rightarrow> arg_value \<Rightarrow> constraint \<Rightarrow> visitor \<Rightarrow> tclap_arg res" where
  "ValueArg_new_constrained flag nm desc req ty val con v =
     Arg_new flag nm desc req True v (Value ty val val (c_shortID con) (Some con))"

text \<open>The constructors with a constraint take the type description from it.\<close>

definition type_desc :: "string \<Rightarrow> constraint option \<Rightarrow> string" where
  "type_desc typeDesc con = (case con of None \<Rightarrow> typeDesc | Some c \<Rightarrow> c_shortID c)"

definition MultiArg_new ::
    "string \<Rightarrow> string \<Rightarrow> string \<Rightarrow> bool \<Rightarrow> value_type \<Rightarrow> string \<Rightarrow> constraint option \<Rightarrow> visitor \<Rightarrow> tclap_arg res" where
  "MultiArg_new flag nm desc req ty typeDesc con v =
     rbind (Arg_new flag nm desc req True v (Multi ty [] (type_desc typeDesc con) con False)) (\<lambda>a. Inr (a\<lparr>a_multiple := True\<rparr>))"

text \<open>\<open>OptionalUnlabeledTracker::check\<close>: the static flag, passed and returned.\<close>

definition tracker_check :: "bool \<Rightarrow> string \<Rightarrow> bool \<Rightarrow> bool res" where
  "tracker_check req argName alreadyOptional =
     (if alreadyOptional
      then Inl (SpecificationException (''You can'' @ [CHR 0x27] @
             ''t specify ANY Unlabeled Arg following an optional Unlabeled Arg'') argName)
      else Inr (\<not> req))"

definition UnlabeledValueArg_new ::
    "string \<Rightarrow> string \<Rightarrow> bool \<Rightarrow> value_type \<Rightarrow> arg_value \<Rightarrow> string \<Rightarrow> constraint option \<Rightarrow> bool \<Rightarrow> visitor \<Rightarrow> bool \<Rightarrow>
       (tclap_arg \<times> bool) res" where
  "UnlabeledValueArg_new nm desc req ty val typeDesc con ignoreable v alreadyOptional =
     rbind (Arg_new [] nm desc req True v (UnlabeledValue ty val val (type_desc typeDesc con) con)) (\<lambda>a.
       rbind (tracker_check req (Arg_toString a) alreadyOptional) (\<lambda>ao.
         Inr (a\<lparr>a_ignoreable := ignoreable\<rparr>, ao)))"

definition UnlabeledMultiArg_new ::
    "string \<Rightarrow> string \<Rightarrow> bool \<Rightarrow> value_type \<Rightarrow> string \<Rightarrow> constraint option \<Rightarrow> bool \<Rightarrow> visitor \<Rightarrow> bool \<Rightarrow>
       (tclap_arg \<times> bool) res" where
  "UnlabeledMultiArg_new nm desc req ty typeDesc con ignoreable v alreadyOptional =
     rbind (Arg_new [] nm desc req True v (UnlabeledMulti ty [] (type_desc typeDesc con) con False)) (\<lambda>a.
       rbind (tracker_check True (Arg_toString a) alreadyOptional) (\<lambda>ao.
         Inr (a\<lparr>a_ignoreable := ignoreable, a_multiple := True\<rparr>, ao)))"

subsection \<open>The virtual calls by class\<close>

lemmas virtual_defs =
  Arg_eq_dispatch UnlabeledValueArg_eq_def UnlabeledMultiArg_eq_def Arg_base_eq_def
  isRequired_dispatch MultiArg_isRequired_def Arg_isRequired_def
  shortID_dispatch MultiSwitchArg_shortID_def ValueArg_shortID_def MultiArg_shortID_def UnlabeledValueArg_shortID_def
  UnlabeledMultiArg_shortID_def
  longID_dispatch MultiSwitchArg_longID_def ValueArg_longID_def MultiArg_longID_def UnlabeledValueArg_longID_def
  UnlabeledMultiArg_longID_def
  allowMore_dispatch MultiArg_allowMore_def Arg_allowMore_def
  arg_reset_dispatch SwitchArg_reset_def MultiSwitchArg_reset_def ValueArg_reset_def MultiArg_reset_def

lemma Arg_eq_def:
  "Arg_eq a b =
     (case a_kind a of
        UnlabeledValue _ _ _ _ _ \<Rightarrow> a_name a = a_name b \<or> a_description a = getDescription b
      | UnlabeledMulti _ _ _ _ _ \<Rightarrow> a_name a = a_name b \<or> a_description a = getDescription b
      | _ \<Rightarrow> (a_flag a \<noteq> [] \<and> a_flag a = a_flag b) \<or> a_name a = a_name b)"
  by (cases "a_kind a") (simp_all add: virtual_defs)

lemma isRequired_def:
  "isRequired a =
     (case a_kind a of
        Multi _ vs _ _ _ \<Rightarrow> a_required a \<and> \<not> 1 < length vs
      | UnlabeledMulti _ vs _ _ _ \<Rightarrow> a_required a \<and> \<not> 1 < length vs
      | _ \<Rightarrow> a_required a)"
  by (cases "a_kind a") (simp_all add: virtual_defs)

lemma shortID_def:
  "shortID delim a =
     (case a_kind a of
        Switch _ _ \<Rightarrow> Arg_shortID delim a ''val''
      | MultiSwitch _ _ \<Rightarrow> Arg_shortID delim a ''val'' @ '' ... ''
      | Value _ _ _ td _ \<Rightarrow> Arg_shortID delim a td
      | Multi _ _ td _ _ \<Rightarrow> Arg_shortID delim a td @ '' ... ''
      | UnlabeledValue _ _ _ td _ \<Rightarrow> ''<'' @ td @ ''>''
      | UnlabeledMulti _ _ td _ _ \<Rightarrow> ''<'' @ td @ ''> ...'')"
  by (cases "a_kind a") (simp_all add: virtual_defs)

lemma longID_def:
  "longID delim a =
     (case a_kind a of
        Switch _ _ \<Rightarrow> Arg_longID delim a ''val''
      | MultiSwitch _ _ \<Rightarrow> Arg_longID delim a ''val'' @ ''  (accepted multiple times)''
      | Value _ _ _ td _ \<Rightarrow> Arg_longID delim a td
      | Multi _ _ td _ _ \<Rightarrow> Arg_longID delim a td @ ''  (accepted multiple times)''
      | UnlabeledValue _ _ _ td _ \<Rightarrow> ''<'' @ td @ ''>''
      | UnlabeledMulti _ _ td _ _ \<Rightarrow> ''<'' @ td @ ''>  (accepted multiple times)'')"
  by (cases "a_kind a") (simp_all add: virtual_defs)

lemma allowMore_def:
  "allowMore a =
     (case a_kind a of
        Multi ty vs td con am \<Rightarrow> (am, a\<lparr>a_kind := Multi ty vs td con True\<rparr>)
      | UnlabeledMulti ty vs td con am \<Rightarrow> (am, a\<lparr>a_kind := UnlabeledMulti ty vs td con True\<rparr>)
      | _ \<Rightarrow> (False, a))"
  by (cases "a_kind a") (simp_all add: virtual_defs)

lemma arg_reset_def:
  "arg_reset a =
     (case a_kind a of
        Switch v d \<Rightarrow> (Arg_reset a)\<lparr>a_kind := Switch d d\<rparr>
      | MultiSwitch v d \<Rightarrow> a\<lparr>a_kind := MultiSwitch d d\<rparr>
      | Value ty v d td con \<Rightarrow> (Arg_reset a)\<lparr>a_kind := Value ty d d td con\<rparr>
      | Multi ty vs td con am \<Rightarrow> (Arg_reset a)\<lparr>a_kind := Multi ty [] td con am\<rparr>
      | UnlabeledValue ty v d td con \<Rightarrow> (Arg_reset a)\<lparr>a_kind := UnlabeledValue ty d d td con\<rparr>
      | UnlabeledMulti ty vs td con am \<Rightarrow> (Arg_reset a)\<lparr>a_kind := UnlabeledMulti ty [] td con am\<rparr>)"
  by (cases "a_kind a") (simp_all add: virtual_defs)

end
