(* ===== verification/TclapParse.thy ===== *)
theory TclapParse
  imports Tclap
begin

text \<open>
  Parsing: \<open>processArg\<close> of the argument classes (\<open>SwitchArg.h\<close>, \<open>MultiSwitchArg.h\<close>, \<open>ValueArg.h\<close>,
  \<open>MultiArg.h\<close>, \<open>UnlabeledValueArg.h\<close>, \<open>UnlabeledMultiArg.h\<close>), \<open>XorHandler.h\<close> and \<open>CmdLine.h\<close>.
  The contract every class keeps is the locale \<open>arg_class\<close>; the loop over the words of the command
  line terminates because of it.
\<close>

subsection \<open>State of a parse\<close>

text \<open>
  The loop variable \<open>i\<close> and the mutable \<open>args\<close> of \<open>CmdLine::parse\<close>, the two statics of \<open>Arg\<close>, and
  the indeterminate value an uninitialised local variable holds.
\<close>

record parse_state =
  ps_i :: nat
  ps_args :: "string list"
  ps_ignoreRest :: bool
  ps_delimiter :: char
  ps_uninit :: arg_value

definition current :: "parse_state \<Rightarrow> string" where
  "current s = ps_args s ! ps_i s"

text \<open>\<open>visit()\<close> of the visitors: help and version print and throw, the third sets the static flag.\<close>

definition Visitor_visit :: "parse_state \<Rightarrow> parse_state res" where
  "Visitor_visit s = Inr s"

definition HelpVisitor_visit :: "parse_state \<Rightarrow> parse_state res" where
  "HelpVisitor_visit s = Inl (ExitException 0)"

definition VersionVisitor_visit :: "parse_state \<Rightarrow> parse_state res" where
  "VersionVisitor_visit s = Inl (ExitException 0)"

definition IgnoreRestVisitor_visit :: "parse_state \<Rightarrow> parse_state res" where
  "IgnoreRestVisitor_visit s = Inr (s\<lparr>ps_ignoreRest := True\<rparr>)"

definition checkWithVisitor :: "tclap_arg \<Rightarrow> parse_state \<Rightarrow> parse_state res" where
  checkWithVisitor_dispatch: "checkWithVisitor a s =
     (case a_visitor a of
        NoVisitor \<Rightarrow> Visitor_visit s
      | HelpVisitor \<Rightarrow> HelpVisitor_visit s
      | VersionVisitor \<Rightarrow> VersionVisitor_visit s
      | IgnoreRestVisitor \<Rightarrow> IgnoreRestVisitor_visit s)"

lemma checkWithVisitor_def:
  "checkWithVisitor a s =
     (case a_visitor a of
        NoVisitor \<Rightarrow> Inr s
      | HelpVisitor \<Rightarrow> Inl (ExitException 0)
      | VersionVisitor \<Rightarrow> Inl (ExitException 0)
      | IgnoreRestVisitor \<Rightarrow> Inr (s\<lparr>ps_ignoreRest := True\<rparr>))"
  by (simp add: checkWithVisitor_dispatch Visitor_visit_def HelpVisitor_visit_def VersionVisitor_visit_def
      IgnoreRestVisitor_visit_def split: visitor.split)

subsection \<open>Switches\<close>

definition lastCombined :: "string \<Rightarrow> bool" where
  "lastCombined combined \<longleftrightarrow> (\<forall>c \<in> set (tl combined). c = blankChar)"

text \<open>The string is a reference parameter: the matching flag is overwritten with the blank character.\<close>

definition combinedSwitchesMatch :: "tclap_arg \<Rightarrow> char \<Rightarrow> string \<Rightarrow> bool \<times> string" where
  "combinedSwitchesMatch a delim combined =
     (if 0 < length combined \<and> hd combined \<noteq> hd flagStartString then (False, combined)
      else if take (length nameStartString) combined = nameStartString then (False, combined)
      else if delim \<in> set combined then (False, combined)
      else case find_first (\<lambda>c. 0 < length (a_flag a) \<and> c = hd (a_flag a) \<and> hd (a_flag a) \<noteq> hd flagStartString) (tl combined) of
             Some i \<Rightarrow> (True, combined[i + 1 := blankChar])
           | None \<Rightarrow> (False, combined))"

definition already_set :: "tclap_arg \<Rightarrow> tclap_exn" where
  "already_set a = CmdLineParseException ''Argument already set!'' (Arg_toString a)"

definition mutually_exclusive :: "tclap_arg \<Rightarrow> tclap_exn" where
  "mutually_exclusive a = CmdLineParseException ''Mutually exclusive argument already set!'' (Arg_toString a)"

fun flip_switch :: "arg_kind \<Rightarrow> arg_kind" where
  "flip_switch (Switch v d) = Switch (\<not> v) d"
| "flip_switch k = k"

definition commonProcessing :: "tclap_arg \<Rightarrow> parse_state \<Rightarrow> (tclap_arg \<times> parse_state) res" where
  "commonProcessing a s =
     (if a_xorSet a then Inl (mutually_exclusive a)
      else if a_alreadySet a then Inl (already_set a)
      else let a' = a\<lparr>a_alreadySet := True, a_kind := flip_switch (a_kind a)\<rparr>
           in rbind (checkWithVisitor a' s) (\<lambda>s'. Inr (a', s')))"

definition SwitchArg_processArg :: "tclap_arg \<Rightarrow> parse_state \<Rightarrow> (bool \<times> tclap_arg \<times> parse_state) res" where
  "SwitchArg_processArg a s =
     (if a_ignoreable a \<and> ps_ignoreRest s then Inr (False, a, s)
      else if argMatches a (current s)
      then rbind (commonProcessing a s) (\<lambda>(a', s'). Inr (True, a', s'))
      else case combinedSwitchesMatch a (ps_delimiter s) (current s) of
             (False, w) \<Rightarrow> Inr (False, a, s)
           | (True, w) \<Rightarrow>
               if fst (combinedSwitchesMatch a (ps_delimiter s) w) then Inl (already_set a)
               else rbind (commonProcessing a (s\<lparr>ps_args := (ps_args s)[ps_i s := w]\<rparr>))
                      (\<lambda>(a', s'). Inr (lastCombined w, a', s')))"

text \<open>
  \<open>while (combinedSwitchesMatch(args[*i])) ++_value;\<close> one character is blanked per round, so the
  length of the word bounds the rounds, unless the flag is the blank character itself: then the
  loop does not end.
\<close>

fun count_combined :: "nat \<Rightarrow> tclap_arg \<Rightarrow> char \<Rightarrow> string \<Rightarrow> int \<Rightarrow> (int \<times> string) res" where
  "count_combined n a delim w v =
     (case combinedSwitchesMatch a delim w of
        (False, w') \<Rightarrow> Inr (v, w')
      | (True, w') \<Rightarrow> (case n of 0 \<Rightarrow> Inl NoReturn | Suc m \<Rightarrow> count_combined m a delim w' (v + 1)))"

declare count_combined.simps [simp del]

fun switch_count :: "arg_kind \<Rightarrow> int" where
  "switch_count (MultiSwitch v d) = v"
| "switch_count _ = 0"

fun set_count :: "int \<Rightarrow> arg_kind \<Rightarrow> arg_kind" where
  "set_count n (MultiSwitch v d) = MultiSwitch n d"
| "set_count n k = k"

definition MultiSwitchArg_processArg :: "tclap_arg \<Rightarrow> parse_state \<Rightarrow> (bool \<times> tclap_arg \<times> parse_state) res" where
  "MultiSwitchArg_processArg a s =
     (let set_to = (\<lambda>n. a\<lparr>a_alreadySet := True, a_kind := set_count n (a_kind a)\<rparr>); v = switch_count (a_kind a)
      in if a_ignoreable a \<and> ps_ignoreRest s then Inr (False, a, s)
         else if argMatches a (current s)
         then rbind (checkWithVisitor a s) (\<lambda>s'. Inr (True, set_to (v + 1), s'))
         else case combinedSwitchesMatch a (ps_delimiter s) (current s) of
                (False, w) \<Rightarrow> Inr (False, a, s)
              | (True, w) \<Rightarrow>
                  rbind (count_combined (length w) a (ps_delimiter s) w (v + 1)) (\<lambda>(n, w').
                    rbind (checkWithVisitor a (s\<lparr>ps_args := (ps_args s)[ps_i s := w']\<rparr>))
                      (\<lambda>s'. Inr (False, set_to n, s'))))"

subsection \<open>Arguments with values\<close>

text \<open>
  The common part of the two \<open>_extractValue\<close>: extraction, with the argument named in the
  exception, and the constraint. \<open>old\<close> is what the variable holds before.
\<close>

definition checked_value :: "tclap_arg \<Rightarrow> value_type \<Rightarrow> constraint option \<Rightarrow> arg_value \<Rightarrow> string \<Rightarrow> arg_value res" where
  "checked_value a ty con old val =
     (case ExtractValue ty old val of
        Inl e \<Rightarrow> Inl (ArgParseException (exn_error e) (Arg_toString a))
      | Inr v \<Rightarrow>
          (case con of
             None \<Rightarrow> Inr v
           | Some c \<Rightarrow>
               if c_check c v then Inr v
               else Inl (CmdLineParseException (''Value '' @ [CHR 0x27] @ val @ [CHR 0x27] @
                      '' does not meet constraint: '' @ c_description c) (Arg_toString a))))"

definition ValueArg_extractValue :: "tclap_arg \<Rightarrow> string \<Rightarrow> tclap_arg res" where
  "ValueArg_extractValue a val =
     (case a_kind a of
        Value ty v d td con \<Rightarrow>
          rbind (checked_value a ty con v val) (\<lambda>w. Inr (a\<lparr>a_kind := Value ty w d td con\<rparr>))
      | UnlabeledValue ty v d td con \<Rightarrow>
          rbind (checked_value a ty con v val) (\<lambda>w. Inr (a\<lparr>a_kind := UnlabeledValue ty w d td con\<rparr>))
      | _ \<Rightarrow> Inr a)"

text \<open>The values go into an uninitialised temporary first.\<close>

definition MultiArg_extractValue :: "arg_value \<Rightarrow> tclap_arg \<Rightarrow> string \<Rightarrow> tclap_arg res" where
  "MultiArg_extractValue tmp a val =
     (case a_kind a of
        Multi ty vs td con am \<Rightarrow>
          rbind (checked_value a ty con tmp val) (\<lambda>w. Inr (a\<lparr>a_kind := Multi ty (vs @ [w]) td con am\<rparr>))
      | UnlabeledMulti ty vs td con am \<Rightarrow>
          rbind (checked_value a ty con tmp val) (\<lambda>w. Inr (a\<lparr>a_kind := UnlabeledMulti ty (vs @ [w]) td con am\<rparr>))
      | _ \<Rightarrow> Inr a)"

definition no_delimiter :: "tclap_arg \<Rightarrow> tclap_exn" where
  "no_delimiter a = ArgParseException (''Couldn'' @ [CHR 0x27] @ ''t find delimiter for this argument!'') (Arg_toString a)"

definition missing_value :: "tclap_arg \<Rightarrow> tclap_exn" where
  "missing_value a = ArgParseException ''Missing a value for this argument!'' (Arg_toString a)"

text \<open>The value is what follows the delimiter in the word, or the next word.\<close>

definition take_value ::
    "(string \<Rightarrow> tclap_arg res) \<Rightarrow> tclap_arg \<Rightarrow> string \<Rightarrow> parse_state \<Rightarrow> (bool \<times> tclap_arg \<times> parse_state) res" where
  "take_value extract a val s =
     (if ps_delimiter s \<noteq> CHR '' '' \<and> val = [] then Inl (no_delimiter a)
      else let s1 = (if val = [] then s\<lparr>ps_i := ps_i s + 1\<rparr> else s)
           in if val = [] \<and> \<not> ps_i s1 < length (ps_args s1) then Inl (missing_value a)
              else rbind (extract (if val = [] then current s1 else val)) (\<lambda>a1.
                     let a2 = a1\<lparr>a_alreadySet := True\<rparr>
                     in rbind (checkWithVisitor a2 s1) (\<lambda>s2. Inr (True, a2, s2))))"

definition ValueArg_processArg :: "tclap_arg \<Rightarrow> parse_state \<Rightarrow> (bool \<times> tclap_arg \<times> parse_state) res" where
  "ValueArg_processArg a s =
     (if a_ignoreable a \<and> ps_ignoreRest s then Inr (False, a, s)
      else if hasBlanks (current s) then Inr (False, a, s)
      else let (flag, val) = trimFlag (ps_delimiter s) (current s)
           in if argMatches a flag
              then if a_alreadySet a then Inl (if a_xorSet a then mutually_exclusive a else already_set a)
                   else take_value (ValueArg_extractValue a) a val s
              else Inr (False, a, s))"

definition MultiArg_processArg :: "tclap_arg \<Rightarrow> parse_state \<Rightarrow> (bool \<times> tclap_arg \<times> parse_state) res" where
  "MultiArg_processArg a s =
     (if a_ignoreable a \<and> ps_ignoreRest s then Inr (False, a, s)
      else if hasBlanks (current s) then Inr (False, a, s)
      else let (flag, val) = trimFlag (ps_delimiter s) (current s)
           in if argMatches a flag then take_value (MultiArg_extractValue (ps_uninit s) a) a val s
              else Inr (False, a, s))"

definition UnlabeledValueArg_processArg :: "tclap_arg \<Rightarrow> parse_state \<Rightarrow> (bool \<times> tclap_arg \<times> parse_state) res" where
  "UnlabeledValueArg_processArg a s =
     (if a_alreadySet a then Inr (False, a, s)
      else if hasBlanks (current s) then Inr (False, a, s)
      else rbind (ValueArg_extractValue a (current s)) (\<lambda>a'. Inr (True, a'\<lparr>a_alreadySet := True\<rparr>, s)))"

definition UnlabeledMultiArg_processArg :: "tclap_arg \<Rightarrow> parse_state \<Rightarrow> (bool \<times> tclap_arg \<times> parse_state) res" where
  "UnlabeledMultiArg_processArg a s =
     (if hasBlanks (current s) then Inr (False, a, s)
      else rbind (MultiArg_extractValue (ps_uninit s) a (current s)) (\<lambda>a'. Inr (True, a'\<lparr>a_alreadySet := True\<rparr>, s)))"

text \<open>The four \<open>getValue\<close>.\<close>

definition SwitchArg_getValue :: "tclap_arg \<Rightarrow> bool" where
  "SwitchArg_getValue a = (case a_kind a of Switch v d \<Rightarrow> v | _ \<Rightarrow> False)"

definition MultiSwitchArg_getValue :: "tclap_arg \<Rightarrow> int" where
  "MultiSwitchArg_getValue a = switch_count (a_kind a)"

definition ValueArg_getValue :: "tclap_arg \<Rightarrow> arg_value" where
  "ValueArg_getValue a =
     (case a_kind a of Value ty v d td con \<Rightarrow> v | UnlabeledValue ty v d td con \<Rightarrow> v | _ \<Rightarrow> VString [])"

definition MultiArg_getValue :: "tclap_arg \<Rightarrow> arg_value list" where
  "MultiArg_getValue a =
     (case a_kind a of Multi ty vs td con am \<Rightarrow> vs | UnlabeledMulti ty vs td con am \<Rightarrow> vs | _ \<Rightarrow> [])"

text \<open>The virtual call.\<close>

definition processArg :: "tclap_arg \<Rightarrow> parse_state \<Rightarrow> (bool \<times> tclap_arg \<times> parse_state) res" where
  "processArg a =
     (case a_kind a of
        Switch _ _ \<Rightarrow> SwitchArg_processArg a
      | MultiSwitch _ _ \<Rightarrow> MultiSwitchArg_processArg a
      | Value _ _ _ _ _ \<Rightarrow> ValueArg_processArg a
      | Multi _ _ _ _ _ \<Rightarrow> MultiArg_processArg a
      | UnlabeledValue _ _ _ _ _ \<Rightarrow> UnlabeledValueArg_processArg a
      | UnlabeledMulti _ _ _ _ _ \<Rightarrow> UnlabeledMultiArg_processArg a)"

subsection \<open>Mutually exclusive arguments\<close>

text \<open>
  Argument objects are referred to by their position in a store. \<open>check\<close> returns how many
  required arguments the match settles.
\<close>

type_synonym ref = nat

definition XorHandler_contains :: "ref list list \<Rightarrow> ref \<Rightarrow> bool" where
  "XorHandler_contains orList a \<longleftrightarrow> (\<exists>ors \<in> set orList. a \<in> set ors)"

definition xor_others :: "ref \<Rightarrow> ref list \<Rightarrow> tclap_arg list \<Rightarrow> tclap_arg list" where
  "xor_others a ors objs = fold (\<lambda>r os. if r \<noteq> a then os[r := xorSet (os ! r)] else os) ors objs"

definition XorHandler_check :: "ref list list \<Rightarrow> ref \<Rightarrow> tclap_arg list \<Rightarrow> (int \<times> tclap_arg list) res" where
  "XorHandler_check orList a objs =
     (case find (\<lambda>ors. a \<in> set ors) orList of
        None \<Rightarrow> Inr (if isRequired (objs ! a) then 1 else 0, objs)
      | Some ors \<Rightarrow>
          (case find (\<lambda>r. r \<noteq> a \<and> isSet (objs ! r)) ors of
             Some r \<Rightarrow> Inl (mutually_exclusive (objs ! r))
           | None \<Rightarrow>
               let objs1 = xor_others a ors objs; (am, a') = allowMore (objs1 ! a)
               in Inr (if am then 0 else int (length ors), objs1[a := a'])))"

subsection \<open>The command line\<close>

text \<open>
  The members of \<open>CmdLine\<close> that parsing uses, with the store of the argument objects. The output
  object is the default one; the lists of objects to delete are memory management only.
\<close>

record CmdLine =
  cl_objs :: "tclap_arg list"
  cl_argList :: "ref list"
  cl_progName :: string
  cl_message :: string
  cl_version :: string
  cl_numRequired :: int
  cl_delimiter :: char
  cl_orList :: "ref list list"
  cl_handleExceptions :: bool
  cl_helpAndVersion :: bool

definition CmdLine_add :: "ref \<Rightarrow> CmdLine \<Rightarrow> CmdLine res" where
  "CmdLine_add a c =
     (let arg = cl_objs c ! a
      in if (\<exists>r \<in> set (cl_argList c). Arg_eq arg (cl_objs c ! r))
         then Inl (SpecificationException ''Argument with same flag/name already exists!'' (longID (cl_delimiter c) arg))
         else Inr (c\<lparr>cl_argList := addToList arg a (cl_argList c),
                     cl_numRequired := cl_numRequired c + (if isRequired arg then 1 else 0)\<rparr>))"

text \<open>Construction of an argument object, and its constructor's \<open>parser.add(this)\<close>.\<close>

definition new_object :: "tclap_arg \<Rightarrow> CmdLine \<Rightarrow> ref \<times> CmdLine" where
  "new_object a c = (length (cl_objs c), c\<lparr>cl_objs := cl_objs c @ [a]\<rparr>)"

definition construct :: "tclap_arg res \<Rightarrow> CmdLine \<Rightarrow> CmdLine res" where
  "construct new c = rbind new (\<lambda>a. case new_object a c of (r, c') \<Rightarrow> CmdLine_add r c')"

definition xorAdd :: "ref list \<Rightarrow> CmdLine \<Rightarrow> CmdLine res" where
  "xorAdd ors c =
     fold (\<lambda>r res. rbind res (\<lambda>c'.
              CmdLine_add r (c'\<lparr>cl_objs := (cl_objs c')[r := setRequireLabel ''OR required'' (forceRequired (cl_objs c' ! r))]\<rparr>)))
       ors (Inr (c\<lparr>cl_orList := cl_orList c @ [ors]\<rparr>))"

definition CmdLine_constructor :: "CmdLine \<Rightarrow> CmdLine res" where
  "CmdLine_constructor c =
     rbind
       (if cl_helpAndVersion c
        then rbind (construct (SwitchArg_new ''h'' ''help'' ''Displays usage information and exits.'' False HelpVisitor) c)
               (construct (SwitchArg_new [] ''version'' ''Displays version information and exits.'' False VersionVisitor))
        else Inr c)
       (construct (SwitchArg_new flagStartString ignoreNameString
          ''Ignores the rest of the labeled arguments following this flag.'' False IgnoreRestVisitor))"

definition CmdLine_new :: "string \<Rightarrow> char \<Rightarrow> string \<Rightarrow> bool \<Rightarrow> CmdLine res" where
  "CmdLine_new m delim v help =
     CmdLine_constructor
       \<lparr>cl_objs = [], cl_argList = [], cl_progName = ''not_set_yet'', cl_message = m, cl_version = v, cl_numRequired = 0,
        cl_delimiter = delim, cl_orList = [], cl_handleExceptions = True, cl_helpAndVersion = help\<rparr>"

definition setExceptionHandling :: "bool \<Rightarrow> CmdLine \<Rightarrow> CmdLine" where
  "setExceptionHandling state c = c\<lparr>cl_handleExceptions := state\<rparr>"

definition CmdLine_reset :: "CmdLine \<Rightarrow> CmdLine" where
  "CmdLine_reset c =
     c\<lparr>cl_objs := fold (\<lambda>r os. os[r := arg_reset (os ! r)]) (cl_argList c) (cl_objs c), cl_progName := []\<rparr>"

definition emptyCombined :: "string \<Rightarrow> bool" where
  "emptyCombined s \<longleftrightarrow> \<not> (0 < length s \<and> hd s \<noteq> hd flagStartString) \<and> (\<forall>c \<in> set (tl s). c = blankChar)"

definition missing_args :: "CmdLine \<Rightarrow> tclap_arg list" where
  "missing_args c = filter (\<lambda>a. isRequired a \<and> \<not> isSet a) (map ((!) (cl_objs c)) (cl_argList c))"

definition missingArgsException :: "CmdLine \<Rightarrow> tclap_exn" where
  "missingArgsException c =
     (let missing = concat (map (\<lambda>a. a_name a @ '', '') (missing_args c))
      in CmdLineParseException
           ((if 1 < length (missing_args c) then ''Required arguments missing: '' else ''Required argument missing: '') @
            take (length missing - 2) missing) undefined_id)"

text \<open>The inner loop of \<open>parse\<close>: the first argument of the list that takes the word.\<close>

fun first_match ::
    "(tclap_arg \<Rightarrow> parse_state \<Rightarrow> (bool \<times> tclap_arg \<times> parse_state) res) \<Rightarrow> ref list \<Rightarrow> tclap_arg list \<Rightarrow> parse_state \<Rightarrow>
       (ref option \<times> tclap_arg list \<times> parse_state) res" where
  "first_match proc [] objs s = Inr (None, objs, s)"
| "first_match proc (r # rs) objs s =
     (case proc (objs ! r) s of
        Inl e \<Rightarrow> Inl e
      | Inr (hit, a, s') \<Rightarrow>
          if hit then Inr (Some r, objs[r := a], s') else first_match proc rs (objs[r := a]) s')"

text \<open>One word: what it adds to \<open>requiredCount\<close>, or the exception.\<close>

definition parse_word ::
    "ref list \<Rightarrow> ref list list \<Rightarrow> tclap_arg list \<Rightarrow> parse_state \<Rightarrow> (int \<times> tclap_arg list \<times> parse_state) res" where
  "parse_word argList orList objs s =
     rbind (first_match processArg argList objs s) (\<lambda>(hit, objs1, s1).
       case hit of
         Some r \<Rightarrow> rbind (XorHandler_check orList r objs1) (\<lambda>(n, objs2). Inr (n, objs2, s1))
       | None \<Rightarrow>
           if \<not> emptyCombined (current s1) \<and> \<not> ps_ignoreRest s1
           then Inl (CmdLineParseException (''Couldn'' @ [CHR 0x27] @ ''t find match for argument'') (current s1))
           else Inr (0, objs1, s1))"

subsection \<open>The contract of the argument classes\<close>

text \<open>The declaration of an argument: what is left when everything parsing changes is reset.\<close>

definition arg_decl :: "tclap_arg \<Rightarrow> tclap_arg" where
  "arg_decl a = arg_reset (Arg_reset a)"

text \<open>What one call may do to the state of the parse.\<close>

definition later :: "parse_state \<Rightarrow> parse_state \<Rightarrow> bool" where
  "later s s' \<longleftrightarrow>
     ps_i s \<le> ps_i s' \<and> ps_i s' < length (ps_args s') \<and> length (ps_args s') = length (ps_args s) \<and>
     ps_delimiter s' = ps_delimiter s \<and> ps_uninit s' = ps_uninit s \<and> (ps_ignoreRest s \<longrightarrow> ps_ignoreRest s')"

lemma later_refl [simp]: "later s s \<longleftrightarrow> ps_i s < length (ps_args s)"
  by (auto simp: later_def)

fun has_type :: "value_type \<Rightarrow> arg_value \<Rightarrow> bool" where
  "has_type T_string v = (\<exists>t. v = VString t)"
| "has_type T_char v = (\<exists>c. v = VString [c])"
| "has_type T_uchar v = (\<exists>c. v = VString [c])"
| "has_type ty (VString t) = False"
| "has_type T_int (VNum n) = (- (2 ^ 31) \<le> n \<and> n < 2 ^ 31)"
| "has_type T_uint (VNum n) = (0 \<le> n \<and> n < 2 ^ 32)"
| "has_type T_short (VNum n) = (- (2 ^ 15) \<le> n \<and> n < 2 ^ 15)"
| "has_type T_long (VNum n) = (- (2 ^ 63) \<le> n \<and> n < 2 ^ 63)"
| "has_type T_ulong (VNum n) = (0 \<le> n \<and> n < 2 ^ 64)"
| "has_type T_ushort (VNum n) = (0 \<le> n \<and> n < 2 ^ 16)"
| "has_type T_bool (VNum n) = (n = 0 \<or> n = 1)"

definition meets :: "constraint option \<Rightarrow> arg_value \<Rightarrow> bool" where
  "meets con v \<longleftrightarrow> (case con of None \<Rightarrow> True | Some c \<Rightarrow> c_check c v)"

text \<open>
  The value of an argument fits its state: the default while it is not set; once set, a switch has
  flipped, a count has grown, and a value has the declared type and meets the constraint.
\<close>

definition value_state :: "value_type \<Rightarrow> arg_value \<Rightarrow> arg_value \<Rightarrow> constraint option \<Rightarrow> bool \<Rightarrow> bool" where
  "value_state ty v d con was_set \<longleftrightarrow>
     (if was_set then (v = d \<or> has_type ty v) \<and> meets con v else v = d)"

definition arg_inv :: "tclap_arg \<Rightarrow> bool" where
  "arg_inv a \<longleftrightarrow>
     (a_xorSet a \<longrightarrow> a_alreadySet a) \<and>
     (case a_kind a of
        Switch v d \<Rightarrow> v = (if isSet a then \<not> d else d)
      | MultiSwitch v d \<Rightarrow> d \<le> v \<and> (a_alreadySet a \<or> v = d)
      | Value ty v d td con \<Rightarrow> value_state ty v d con (isSet a)
      | UnlabeledValue ty v d td con \<Rightarrow> value_state ty v d con (isSet a)
      | Multi ty vs td con am \<Rightarrow> (\<forall>v \<in> set vs. meets con v) \<and> (a_alreadySet a \<or> vs = [])
      | UnlabeledMulti ty vs td con am \<Rightarrow> (\<forall>v \<in> set vs. meets con v) \<and> (a_alreadySet a \<or> vs = []))"

text \<open>What one call may do to an argument: nothing, or set it; the declaration and the invariant stay.\<close>

definition evolved :: "tclap_arg \<Rightarrow> tclap_arg \<Rightarrow> bool" where
  "evolved a b \<longleftrightarrow>
     arg_decl b = arg_decl a \<and> a_xorSet b = a_xorSet a \<and> (a_alreadySet b \<or> b = a) \<and> (arg_inv a \<longrightarrow> arg_inv b)"

lemma evolved_refl [simp]: "evolved a a"
  by (simp add: evolved_def)

lemma evolved_trans: "evolved a b \<Longrightarrow> evolved b c \<Longrightarrow> evolved a c"
  by (auto simp: evolved_def)

lemma a_flag_arg_decl: "a_flag (arg_decl a) = a_flag a"
  by (auto simp: arg_decl_def arg_reset_def Arg_reset_def split: arg_kind.split)

lemma evolved_flag: "evolved a b \<Longrightarrow> a_flag b = a_flag a"
  by (metis evolved_def a_flag_arg_decl)

lemma evolved_update:
  "evolved (objs ! r) a \<Longrightarrow> list_all2 evolved objs (objs[r := a])"
  by (cases "r < length objs") (auto simp: list_all2_conv_all_nth nth_list_update list_all2_refl)

text \<open>Failures: an exception, never a loop, and an exit only of the help and version switches, with status 0.\<close>

fun proper :: "tclap_exn \<Rightarrow> bool" where
  "proper NoReturn = False"
| "proper (ExitException n) = (n = 0)"
| "proper _ = True"

locale arg_class =
  fixes proc :: "tclap_arg \<Rightarrow> parse_state \<Rightarrow> (bool \<times> tclap_arg \<times> parse_state) res"
    and of_class :: "tclap_arg \<Rightarrow> bool"
  assumes later: "of_class a \<Longrightarrow> ps_i s < length (ps_args s) \<Longrightarrow> proc a s = Inr (hit, a', s') \<Longrightarrow> later s s'"
    and miss: "of_class a \<Longrightarrow> proc a s = Inr (False, a', s') \<Longrightarrow> ps_i s' = ps_i s"
    and evolves: "of_class a \<Longrightarrow> proc a s = Inr (hit, a', s') \<Longrightarrow> evolved a a' \<and> (hit \<longrightarrow> a_alreadySet a')"
    and fails: "of_class a \<Longrightarrow> take 1 (a_flag a) \<noteq> [blankChar] \<Longrightarrow> proc a s = Inl e \<Longrightarrow> proper e"
begin

text \<open>The loop over the argument list keeps what every call keeps.\<close>

lemma first_match_later:
  "first_match proc rs objs s = Inr (hit, objs', s') \<Longrightarrow> (\<And>a. of_class a) \<Longrightarrow> ps_i s < length (ps_args s) \<Longrightarrow> later s s'"
proof (induction rs arbitrary: objs s)
  case Nil
  then show ?case by (simp add: later_def)
next
  case (Cons r rs)
  obtain h a s1 where p: "proc (objs ! r) s = Inr (h, a, s1)"
    using Cons.prems(1) by (cases "proc (objs ! r) s") auto
  have l: "later s s1" using later [OF Cons.prems(2,3) p] .
  show ?case
  proof (cases h)
    case True
    then show ?thesis using Cons.prems(1) p l by simp
  next
    case False
    then have "later s1 s'" using Cons.IH [of "objs[r := a]" s1] Cons.prems p l by (simp add: later_def)
    then show ?thesis using l by (auto simp: later_def)
  qed
qed

lemma first_match_miss:
  "first_match proc rs objs s = Inr (None, objs', s') \<Longrightarrow> (\<And>a. of_class a) \<Longrightarrow> ps_i s' = ps_i s"
proof (induction rs arbitrary: objs s)
  case (Cons r rs)
  obtain h a s1 where p: "proc (objs ! r) s = Inr (h, a, s1)"
    using Cons.prems(1) by (cases "proc (objs ! r) s") auto
  moreover have "\<not> h" using Cons.prems(1) p by auto
  ultimately show ?case using Cons.IH [of "objs[r := a]" s1] miss [OF Cons.prems(2)] Cons.prems by auto
qed simp

lemma first_match_evolves:
  "first_match proc rs objs s = Inr (hit, objs', s') \<Longrightarrow> (\<And>a. of_class a) \<Longrightarrow> set rs \<subseteq> {..<length objs} \<Longrightarrow>
     list_all2 evolved objs objs' \<and> (\<forall>r. hit = Some r \<longrightarrow> r \<in> set rs \<and> a_alreadySet (objs' ! r))"
proof (induction rs arbitrary: objs s)
  case Nil
  then show ?case by (simp add: list_all2_refl)
next
  case (Cons r rs)
  obtain h a s1 where p: "proc (objs ! r) s = Inr (h, a, s1)"
    using Cons.prems(1) by (cases "proc (objs ! r) s") auto
  have e: "evolved (objs ! r) a" "h \<longrightarrow> a_alreadySet a" using evolves [OF Cons.prems(2) p] by auto
  have u: "list_all2 evolved objs (objs[r := a])" using evolved_update [OF e(1)] .
  show ?case
  proof (cases h)
    case True
    then show ?thesis using Cons.prems p e u by auto
  next
    case False
    then have "list_all2 evolved (objs[r := a]) objs' \<and> (\<forall>r. hit = Some r \<longrightarrow> r \<in> set rs \<and> a_alreadySet (objs' ! r))"
      using Cons.IH [of "objs[r := a]" s1] Cons.prems p by simp
    then show ?thesis using list_all2_trans [OF evolved_trans u] by auto
  qed
qed

lemma first_match_fails:
  "first_match proc rs objs s = Inl e \<Longrightarrow> (\<And>a. of_class a) \<Longrightarrow> set rs \<subseteq> {..<length objs} \<Longrightarrow>
     (\<And>k. k < length objs \<Longrightarrow> take 1 (a_flag (objs ! k)) \<noteq> [blankChar]) \<Longrightarrow> proper e"
proof (induction rs arbitrary: objs s)
  case (Cons r rs)
  show ?case
  proof (cases "proc (objs ! r) s")
    case (Inl e')
    then show ?thesis using Cons.prems fails [OF Cons.prems(2) _ Inl] by simp
  next
    case (Inr x)
    obtain h a s1 where x: "x = (h, a, s1)" by (cases x)
    have "a_flag a = a_flag (objs ! r)"
      using evolves [OF Cons.prems(2) Inr [unfolded x]] by (simp add: evolved_flag)
    then show ?thesis
      using Cons.IH [of "objs[r := a]" s1] Cons.prems Inr x by (auto simp: nth_list_update split: if_splits)
  qed
qed simp

end

subsection \<open>The classes keep the contract\<close>

lemma checkWithVisitor_Inr:
  "checkWithVisitor a s = Inr s' \<Longrightarrow>
     ps_i s' = ps_i s \<and> ps_args s' = ps_args s \<and> ps_delimiter s' = ps_delimiter s \<and> ps_uninit s' = ps_uninit s \<and>
     (ps_ignoreRest s \<longrightarrow> ps_ignoreRest s')"
  by (auto simp: checkWithVisitor_def split: visitor.splits)

lemma checkWithVisitor_fails: "checkWithVisitor a s = Inl e \<Longrightarrow> proper e"
  by (auto simp: checkWithVisitor_def split: visitor.splits)

lemma rbind_Inl: "rbind r f = Inl e \<longleftrightarrow> r = Inl e \<or> (\<exists>a. r = Inr a \<and> f a = Inl e)"
  by (cases r) auto

lemma checked_value_Inr: "checked_value a ty con old val = Inr v \<Longrightarrow> ExtractValue ty old val = Inr v \<and> meets con v"
  by (auto simp: checked_value_def meets_def split: sum.splits option.splits if_splits)

lemma checked_value_fails: "checked_value a ty con old val = Inl e \<Longrightarrow> proper e"
  by (auto simp: checked_value_def split: sum.splits option.splits if_splits)

lemma extract_one_typed: "extract_one ty s = Some (v, t) \<Longrightarrow> ty \<noteq> T_string \<Longrightarrow> has_type ty v"
  by (cases ty) (auto simp: extract_one_def extract_number_def fits_type_def stored_number_def Let_def split_beta
      split: if_splits option.splits list.splits)

lemma extract_values_typed:
  "extract_values ty s = Some vs \<Longrightarrow> ty \<noteq> T_string \<Longrightarrow> v \<in> set vs \<Longrightarrow> has_type ty v"
proof (induction ty s arbitrary: vs rule: extract_values.induct)
  case (1 ty s)
  have e: "(if s = [] then Some []
      else case extract_one ty s of None \<Rightarrow> None
           | Some (v, rest) \<Rightarrow> map_option (\<lambda>vs. v # vs) (extract_values ty rest)) = Some vs"
    using "1.prems"(1) by (subst (asm) extract_values.simps)
  show ?case
  proof (cases "s = []")
    case False
    then obtain w t ws where "extract_one ty s = Some (w, t)" "extract_values ty t = Some ws" "vs = w # ws"
      using e by (auto split: option.splits)
    then show ?thesis using "1.IH" [OF False _ refl] "1.prems" extract_one_typed by auto
  qed (use e "1.prems" in simp)
qed

lemma ExtractValue_typed: "ExtractValue ty old val = Inr v \<Longrightarrow> v = old \<or> has_type ty v"
  using extract_values_typed [of ty "c_str val"]
  by (cases ty) (auto simp: ExtractValue_def split: option.splits list.splits if_splits)

lemmas kind_defs = evolved_def arg_decl_def arg_reset_def Arg_reset_def arg_inv_def isSet_def

lemma commonProcessing_Inr:
  assumes "commonProcessing a s = Inr (a', s')" "a_kind a = Switch v d"
  shows "evolved a a' \<and> a_alreadySet a'" "checkWithVisitor a' s = Inr s'"
  using assms by (auto simp: commonProcessing_def Let_def rbind_eq_Inr kind_defs split: if_splits)

lemma commonProcessing_fails: "commonProcessing a s = Inl e \<Longrightarrow> proper e"
  by (auto simp: commonProcessing_def Let_def rbind_Inl mutually_exclusive_def already_set_def
      split: if_splits dest: checkWithVisitor_fails)

definition is_switch :: "tclap_arg \<Rightarrow> bool" where "is_switch a \<longleftrightarrow> (\<exists>v d. a_kind a = Switch v d)"

interpretation switch_class: arg_class SwitchArg_processArg is_switch
proof (unfold_locales, goal_cases)
  case (1 a s hit a' s')
  then show ?case
    by (auto simp: SwitchArg_processArg_def is_switch_def rbind_eq_Inr later_def
        split: if_splits prod.splits bool.splits dest!: commonProcessing_Inr(2) checkWithVisitor_Inr)
next
  case (2 a s a' s')
  then show ?case
    by (auto simp: SwitchArg_processArg_def is_switch_def rbind_eq_Inr
        split: if_splits prod.splits bool.splits dest!: commonProcessing_Inr(2) checkWithVisitor_Inr)
next
  case (3 a s hit a' s')
  then show ?case
    by (auto simp: SwitchArg_processArg_def is_switch_def rbind_eq_Inr
        split: if_splits prod.splits bool.splits dest: commonProcessing_Inr(1))
next
  case (4 a s e)
  then show ?case
    by (auto simp: SwitchArg_processArg_def rbind_Inl already_set_def split: if_splits prod.splits bool.splits
        dest: commonProcessing_fails)
qed

lemma filter_update_less:
  "i < length xs \<Longrightarrow> xs ! i = f \<Longrightarrow> b \<noteq> f \<Longrightarrow>
     length (filter (\<lambda>c. c = f) (xs[i := b])) < length (filter (\<lambda>c. c = f) xs)"
proof (induction xs arbitrary: i)
  case (Cons x xs)
  then show ?case by (cases i) auto
qed simp

text \<open>A matching flag is blanked, so the number of flags left in the word falls.\<close>

lemma combinedSwitchesMatch_True:
  assumes "combinedSwitchesMatch a delim w = (True, w')"
  shows "\<exists>f. take 1 (a_flag a) = [f] \<and> length w' = length w \<and>
           (f \<noteq> blankChar \<longrightarrow> length (filter (\<lambda>c. c = f) (tl w')) < length (filter (\<lambda>c. c = f) (tl w)))"
proof -
  let ?p = "\<lambda>c. 0 < length (a_flag a) \<and> c = hd (a_flag a) \<and> hd (a_flag a) \<noteq> hd flagStartString"
  obtain i where i: "find_first ?p (tl w) = Some i" "w' = w[i + 1 := blankChar]"
    using assms by (auto simp: combinedSwitchesMatch_def split: if_splits option.splits)
  have n: "i < length (tl w)" "?p (tl w ! i)" using i(1) by (auto simp: find_first_Some)
  obtain f fs where f: "a_flag a = f # fs" using n(2) by (cases "a_flag a") auto
  have t: "tl w' = (tl w)[i := blankChar]" using i(2) by (cases w) auto
  have "length (filter (\<lambda>c. c = f) ((tl w)[i := blankChar])) < length (filter (\<lambda>c. c = f) (tl w))" if "f \<noteq> blankChar"
    using that n f by (intro filter_update_less) auto
  then show ?thesis using f i(2) t by auto
qed

lemma count_combined_returns:
  "take 1 (a_flag a) = [f] \<Longrightarrow> f \<noteq> blankChar \<Longrightarrow> length (filter (\<lambda>c. c = f) (tl w)) \<le> n \<Longrightarrow>
     count_combined n a delim w v \<noteq> Inl e"
proof (induction n arbitrary: w v)
  case (Suc n)
  show ?case
  proof (cases "combinedSwitchesMatch a delim w")
    case (Pair hit w')
    have "length (filter (\<lambda>c. c = f) (tl w')) \<le> n" if hit
      using combinedSwitchesMatch_True [of a delim w w'] Pair that Suc.prems by auto
    then show ?thesis using Suc.IH [OF Suc.prems(1,2), of w'] Pair
      by (auto simp: count_combined.simps [of "Suc n"] split: bool.split)
  qed
qed (auto simp: count_combined.simps [of 0] split: prod.split bool.split dest!: combinedSwitchesMatch_True)

lemma count_combined_grows: "count_combined n a delim w v = Inr (m, w') \<Longrightarrow> v \<le> m"
proof (induction n arbitrary: w v)
  case (Suc n)
  then show ?case by (fastforce simp: count_combined.simps [of "Suc n"] split: prod.splits bool.splits)
qed (auto simp: count_combined.simps [of 0] split: prod.splits bool.splits)

definition is_multi_switch :: "tclap_arg \<Rightarrow> bool" where
  "is_multi_switch a \<longleftrightarrow> (\<exists>v d. a_kind a = MultiSwitch v d)"

interpretation multi_switch_class: arg_class MultiSwitchArg_processArg is_multi_switch
proof (unfold_locales, goal_cases)
  case (1 a s hit a' s')
  then show ?case
    by (auto simp: MultiSwitchArg_processArg_def Let_def rbind_eq_Inr later_def
        split: if_splits prod.splits bool.splits dest!: checkWithVisitor_Inr)
next
  case (2 a s a' s')
  then show ?case
    by (auto simp: MultiSwitchArg_processArg_def Let_def rbind_eq_Inr
        split: if_splits prod.splits bool.splits dest!: checkWithVisitor_Inr)
next
  case (3 a s hit a' s')
  then show ?case
    by (auto simp: MultiSwitchArg_processArg_def is_multi_switch_def Let_def rbind_eq_Inr kind_defs
        split: if_splits prod.splits bool.splits dest!: count_combined_grows)
next
  case (4 a s e)
  have "count_combined (length w) a (ps_delimiter s) w v \<noteq> Inl e'"
    if m: "combinedSwitchesMatch a (ps_delimiter s) u = (True, w)" for u v w e'
  proof -
    obtain f where f: "take 1 (a_flag a) = [f]" using combinedSwitchesMatch_True [OF m] by auto
    have "length (filter (\<lambda>c. c = f) (tl w)) \<le> length w"
      using length_filter_le [of "\<lambda>c. c = f" "tl w"] by simp
    then show ?thesis using count_combined_returns [OF f] 4 f by auto
  qed
  then show ?case using 4(3)
    by (auto simp: MultiSwitchArg_processArg_def Let_def rbind_Inl split: if_splits prod.splits bool.splits
        dest: checkWithVisitor_fails)
qed

text \<open>The classes with values: what a successful extraction does to the argument.\<close>

definition valued :: "tclap_arg \<Rightarrow> bool" where
  "valued a \<longleftrightarrow> (\<exists>ty v d td con. a_kind a = Value ty v d td con \<or> a_kind a = UnlabeledValue ty v d td con)"

definition multi_valued :: "tclap_arg \<Rightarrow> bool" where
  "multi_valued a \<longleftrightarrow> (\<exists>ty vs td con am. a_kind a = Multi ty vs td con am \<or> a_kind a = UnlabeledMulti ty vs td con am)"

lemma ValueArg_extractValue_evolves:
  assumes "ValueArg_extractValue a val = Inr a'" "valued a" "\<not> a_alreadySet a"
  shows "evolved a (a'\<lparr>a_alreadySet := True\<rparr>)"
  using assms
  by (auto simp: ValueArg_extractValue_def valued_def rbind_eq_Inr kind_defs value_state_def
      dest!: checked_value_Inr ExtractValue_typed)

lemma MultiArg_extractValue_evolves:
  assumes "MultiArg_extractValue tmp a val = Inr a'" "multi_valued a"
  shows "evolved a (a'\<lparr>a_alreadySet := True\<rparr>)"
  using assms
  by (auto simp: MultiArg_extractValue_def multi_valued_def rbind_eq_Inr kind_defs dest!: checked_value_Inr)

lemma extract_fails:
  "ValueArg_extractValue a val = Inl e \<Longrightarrow> proper e" "MultiArg_extractValue tmp a val = Inl e \<Longrightarrow> proper e"
  by (auto simp: ValueArg_extractValue_def MultiArg_extractValue_def rbind_Inl split: arg_kind.splits
      dest: checked_value_fails)

lemma take_value_Inr:
  assumes "take_value extract a val s = Inr (hit, a', s')" "ps_i s < length (ps_args s)"
  shows "hit \<and> later s s' \<and> (\<exists>t a1. extract t = Inr a1 \<and> a' = a1\<lparr>a_alreadySet := True\<rparr>)"
  using assms
  by (auto simp: take_value_def Let_def rbind_eq_Inr later_def split: if_splits dest!: checkWithVisitor_Inr)

lemma take_value_fails:
  "take_value extract a val s = Inl e \<Longrightarrow> (\<And>t e. extract t = Inl e \<Longrightarrow> proper e) \<Longrightarrow> proper e"
  by (auto simp: take_value_def Let_def rbind_Inl no_delimiter_def missing_value_def split: if_splits
      dest: checkWithVisitor_fails)

lemma take_value_set:
  "take_value extract a val s = Inr (hit, a', s') \<Longrightarrow> hit \<and> (\<exists>t a1. extract t = Inr a1 \<and> a' = a1\<lparr>a_alreadySet := True\<rparr>)"
  by (auto simp: take_value_def Let_def rbind_eq_Inr split: if_splits)

definition is_value :: "tclap_arg \<Rightarrow> bool" where
  "is_value a \<longleftrightarrow> (\<exists>ty v d td con. a_kind a = Value ty v d td con)"

interpretation value_class: arg_class ValueArg_processArg is_value
proof (unfold_locales, goal_cases)
  case (1 a s hit a' s')
  then show ?case
    by (auto simp: ValueArg_processArg_def split: if_splits prod.splits dest: take_value_Inr)
next
  case (2 a s a' s')
  then show ?case
    by (auto simp: ValueArg_processArg_def split: if_splits prod.splits dest: take_value_set)
next
  case (3 a s hit a' s')
  then have "valued a" by (auto simp: is_value_def valued_def)
  then show ?case using 3
    by (auto simp: ValueArg_processArg_def split: if_splits prod.splits
        dest!: take_value_set intro: ValueArg_extractValue_evolves)
next
  case (4 a s e)
  then show ?case
    by (auto simp: ValueArg_processArg_def already_set_def mutually_exclusive_def split: prod.splits if_splits
        dest: take_value_fails extract_fails)
qed

definition is_multi :: "tclap_arg \<Rightarrow> bool" where
  "is_multi a \<longleftrightarrow> (\<exists>ty vs td con am. a_kind a = Multi ty vs td con am)"

interpretation multi_class: arg_class MultiArg_processArg is_multi
proof (unfold_locales, goal_cases)
  case (1 a s hit a' s')
  then show ?case
    by (auto simp: MultiArg_processArg_def split: if_splits prod.splits dest: take_value_Inr)
next
  case (2 a s a' s')
  then show ?case
    by (auto simp: MultiArg_processArg_def split: if_splits prod.splits dest: take_value_set)
next
  case (3 a s hit a' s')
  then have "multi_valued a" by (auto simp: is_multi_def multi_valued_def)
  then show ?case using 3
    by (auto simp: MultiArg_processArg_def split: if_splits prod.splits
        dest!: take_value_set intro: MultiArg_extractValue_evolves)
next
  case (4 a s e)
  then show ?case by (auto simp: MultiArg_processArg_def split: prod.splits if_splits dest: take_value_fails extract_fails)
qed

definition is_unlabeled_value :: "tclap_arg \<Rightarrow> bool" where
  "is_unlabeled_value a \<longleftrightarrow> (\<exists>ty v d td con. a_kind a = UnlabeledValue ty v d td con)"

interpretation unlabeled_value_class: arg_class UnlabeledValueArg_processArg is_unlabeled_value
proof (unfold_locales, goal_cases)
  case (3 a s hit a' s')
  then have "valued a" by (auto simp: is_unlabeled_value_def valued_def)
  then show ?case using 3
    by (auto simp: UnlabeledValueArg_processArg_def rbind_eq_Inr split: if_splits intro: ValueArg_extractValue_evolves)
qed (auto simp: UnlabeledValueArg_processArg_def later_def rbind_eq_Inr rbind_Inl split: if_splits dest: extract_fails)

definition is_unlabeled_multi :: "tclap_arg \<Rightarrow> bool" where
  "is_unlabeled_multi a \<longleftrightarrow> (\<exists>ty vs td con am. a_kind a = UnlabeledMulti ty vs td con am)"

interpretation unlabeled_multi_class: arg_class UnlabeledMultiArg_processArg is_unlabeled_multi
proof (unfold_locales, goal_cases)
  case (3 a s hit a' s')
  then have "multi_valued a" by (auto simp: is_unlabeled_multi_def multi_valued_def)
  then show ?case using 3
    by (auto simp: UnlabeledMultiArg_processArg_def rbind_eq_Inr split: if_splits intro: MultiArg_extractValue_evolves)
qed (auto simp: UnlabeledMultiArg_processArg_def later_def rbind_eq_Inr rbind_Inl split: if_splits dest: extract_fails)

text \<open>The virtual call keeps the contract because every class does.\<close>

lemma processArg_class:
  obtains (switch) "is_switch a" "processArg a = SwitchArg_processArg a"
    | (multi_switch) "is_multi_switch a" "processArg a = MultiSwitchArg_processArg a"
    | (val) "is_value a" "processArg a = ValueArg_processArg a"
    | (multi) "is_multi a" "processArg a = MultiArg_processArg a"
    | (unlabeled_value) "is_unlabeled_value a" "processArg a = UnlabeledValueArg_processArg a"
    | (unlabeled_multi) "is_unlabeled_multi a" "processArg a = UnlabeledMultiArg_processArg a"
  by (cases "a_kind a")
    (auto simp: processArg_def is_switch_def is_multi_switch_def is_value_def is_multi_def is_unlabeled_value_def
      is_unlabeled_multi_def)

interpretation any_class: arg_class processArg "\<lambda>_. True"
proof (unfold_locales, goal_cases)
  case (1 a s hit a' s')
  then show ?case
    by (cases a rule: processArg_class)
      (auto intro: switch_class.later multi_switch_class.later value_class.later
         multi_class.later unlabeled_value_class.later unlabeled_multi_class.later)
next
  case (2 a s a' s')
  then show ?case
    by (cases a rule: processArg_class)
      (auto intro: switch_class.miss multi_switch_class.miss value_class.miss
         multi_class.miss unlabeled_value_class.miss unlabeled_multi_class.miss)
next
  case (3 a s hit a' s')
  then show ?case
    by (cases a rule: processArg_class)
      (auto dest: switch_class.evolves multi_switch_class.evolves
         value_class.evolves multi_class.evolves unlabeled_value_class.evolves unlabeled_multi_class.evolves)
next
  case (4 a s e)
  then show ?case
    by (cases a rule: processArg_class)
      (auto dest: switch_class.fails multi_switch_class.fails
         value_class.fails multi_class.fails unlabeled_value_class.fails unlabeled_multi_class.fails)
qed

lemma parse_word_later:
  "parse_word argList orList objs s = Inr (n, objs', s') \<Longrightarrow> ps_i s < length (ps_args s) \<Longrightarrow> later s s'"
  by (auto simp: parse_word_def rbind_eq_Inr split: option.splits if_splits dest: any_class.first_match_later)

subsection \<open>\<open>CmdLine::parse\<close>\<close>

text \<open>
  The loop over the words. It terminates: no argument class moves \<open>i\<close> back or changes the number of
  words.
\<close>

function parse_loop ::
    "ref list \<Rightarrow> ref list list \<Rightarrow> int \<Rightarrow> tclap_arg list \<Rightarrow> parse_state \<Rightarrow> (int \<times> tclap_arg list \<times> parse_state) res" where
  "parse_loop argList orList requiredCount objs s =
     (if ps_i s < length (ps_args s)
      then case parse_word argList orList objs s of
             Inl e \<Rightarrow> Inl e
           | Inr (n, objs', s') \<Rightarrow> parse_loop argList orList (requiredCount + n) objs' (s'\<lparr>ps_i := ps_i s' + 1\<rparr>)
      else Inr (requiredCount, objs, s))"
  by pat_completeness auto
termination
proof (relation "measure (\<lambda>(al, ol, n, objs, s). length (ps_args s) - ps_i s)")
  fix al ol objs s x n y objs' s' and m :: int
  assume "ps_i s < length (ps_args s)" "parse_word al ol objs s = Inr x" "(n, y) = x" "(objs', s') = y"
  then have "later s s'" using parse_word_later [of al ol objs s n objs' s'] by simp
  moreover have "ps_i s < length (ps_args s)" by fact
  ultimately show "((al, ol, m + n, objs', s'\<lparr>ps_i := ps_i s' + 1\<rparr>), al, ol, m, objs, s)
      \<in> measure (\<lambda>(al, ol, n, objs, s). length (ps_args s) - ps_i s)"
    by (auto simp: later_def)
qed simp

declare parse_loop.simps [simp del]

text \<open>
  The result of \<open>parse\<close>: it returns with the arguments filled in (and the static \<open>ignoreRest\<close>), ends
  the process with a status, throws, never returns, or is undefined (no program name to take from an
  empty vector). \<open>StdOutput::failure\<close> prints and throws \<open>ExitException(1)\<close>.
\<close>

datatype parse_result = Returns CmdLine bool | Exits int | Raises tclap_exn | Hangs | Undefined

fun exit_status :: "tclap_exn \<Rightarrow> int" where
  "exit_status (ExitException n) = n"
| "exit_status _ = 1"

definition too_many :: tclap_exn where
  "too_many = CmdLineParseException ''Too many arguments!'' undefined_id"

definition parse_body :: "arg_value \<Rightarrow> bool \<Rightarrow> CmdLine \<Rightarrow> string list \<Rightarrow> (CmdLine \<times> bool) res" where
  "parse_body uninit ign c args =
     rbind (parse_loop (cl_argList c) (cl_orList c) 0 (cl_objs c)
              \<lparr>ps_i = 0, ps_args = args, ps_ignoreRest = ign, ps_delimiter = cl_delimiter c, ps_uninit = uninit\<rparr>)
       (\<lambda>(requiredCount, objs, s).
          let c' = c\<lparr>cl_objs := objs\<rparr>
          in if requiredCount < cl_numRequired c' then Inl (missingArgsException c')
             else if requiredCount > cl_numRequired c' then Inl too_many
             else Inr (c', ps_ignoreRest s))"

definition parse :: "arg_value \<Rightarrow> bool \<Rightarrow> CmdLine \<Rightarrow> string list \<Rightarrow> parse_result" where
  "parse uninit ign c args =
     (case args of
        [] \<Rightarrow> Undefined
      | prog # ws \<Rightarrow>
          (case parse_body uninit ign (c\<lparr>cl_progName := prog\<rparr>) ws of
             Inr (c', ign') \<Rightarrow> Returns c' ign'
           | Inl e \<Rightarrow> if e = NoReturn then Hangs
                      else if cl_handleExceptions c then Exits (exit_status e) else Raises e))"

text \<open>\<open>parse(argc, argv)\<close>: the words are the C strings of \<open>argv\<close>.\<close>

definition parse_argv :: "arg_value \<Rightarrow> bool \<Rightarrow> CmdLine \<Rightarrow> string list \<Rightarrow> parse_result" where
  "parse_argv uninit ign c argv = parse uninit ign c (map c_str argv)"

end
