(* ===== verification/TclapSpec.thy ===== *)
theory TclapSpec
  imports TclapParse
begin

text \<open>
  What \<open>CmdLine::parse\<close> guarantees: the invariant of the arguments, that it ends, that a parse that
  returns has every required argument, and that a rendered command line is parsed back.
\<close>

subsection \<open>Invariants of the loop\<close>

lemma parse_loop_induct [consumes 2, case_names step]:
  assumes "parse_loop al ol m objs s = Inr (m', objs', s')" "P m objs s"
    and "\<And>m objs s n objs1 s1. P m objs s \<Longrightarrow> ps_i s < length (ps_args s) \<Longrightarrow> parse_word al ol objs s = Inr (n, objs1, s1) \<Longrightarrow>
           P (m + n) objs1 (s1\<lparr>ps_i := ps_i s1 + 1\<rparr>)"
  shows "P m' objs' s'"
  using assms
proof (induction al ol m objs s rule: parse_loop.induct)
  case (1 al ol m objs s)
  show ?case
  proof (cases "ps_i s < length (ps_args s)")
    case True
    then obtain n objs1 s1 where w: "parse_word al ol objs s = Inr (n, objs1, s1)"
      using "1.prems"(1) by (subst (asm) parse_loop.simps) (auto split: sum.splits)
    have "parse_loop al ol (m + n) objs1 (s1\<lparr>ps_i := ps_i s1 + 1\<rparr>) = Inr (m', objs', s')"
      using "1.prems"(1) True w by (subst (asm) parse_loop.simps) simp
    then show ?thesis
      using "1.IH" [OF True w refl refl _ _ "1.prems"(3)] "1.prems"(3) [OF "1.prems"(2) True w] by simp
  next
    case False
    then show ?thesis using "1.prems" by (subst (asm) parse_loop.simps) simp
  qed
qed

subsection \<open>The exclusion handler\<close>

definition store_inv :: "tclap_arg list \<Rightarrow> bool" where
  "store_inv objs \<longleftrightarrow> (\<forall>a \<in> set objs. arg_inv a)"

lemma store_inv_update: "store_inv objs \<Longrightarrow> arg_inv a \<Longrightarrow> store_inv (objs[r := a])"
  using set_update_subset_insert [of objs r a] by (auto simp: store_inv_def)

lemma store_inv_nth: "store_inv objs \<Longrightarrow> r < length objs \<Longrightarrow> arg_inv (objs ! r)"
  by (simp add: store_inv_def)

lemma arg_inv_xorSet: "arg_inv a \<Longrightarrow> \<not> isSet a \<Longrightarrow> arg_inv (xorSet a)"
  by (auto simp: arg_inv_def isSet_def xorSet_def value_state_def split: arg_kind.splits)

lemma arg_inv_allowMore: "arg_inv a \<Longrightarrow> arg_inv (snd (allowMore a))"
  by (auto simp: arg_inv_def isSet_def allowMore_def split: arg_kind.splits)

lemma a_flag_changes [simp]: "a_flag (xorSet a) = a_flag a" "a_flag (snd (allowMore a)) = a_flag a"
  by (auto simp: xorSet_def allowMore_def split: arg_kind.splits)

lemma not_isSet_xorSet [simp]: "\<not> isSet (xorSet a)"
  by (simp add: isSet_def xorSet_def)

lemma map_flag_update: "r < length objs \<Longrightarrow> a_flag b = a_flag (objs ! r) \<Longrightarrow> map a_flag (objs[r := b]) = map a_flag objs"
  by (simp add: map_update list_update_same_conv)

lemma xor_others_inv:
  "store_inv objs \<Longrightarrow> set ors \<subseteq> {..<length objs} \<Longrightarrow> (\<And>r. r \<in> set ors \<Longrightarrow> r \<noteq> a \<Longrightarrow> \<not> isSet (objs ! r)) \<Longrightarrow>
     store_inv (xor_others a ors objs) \<and> map a_flag (xor_others a ors objs) = map a_flag objs"
proof (induction ors arbitrary: objs)
  case (Cons r ors)
  let ?o = "if r \<noteq> a then objs[r := xorSet (objs ! r)] else objs"
  have r: "r < length objs" using Cons.prems(2) by simp
  have "store_inv ?o"
    using Cons.prems r by (auto intro!: store_inv_update arg_inv_xorSet store_inv_nth)
  moreover have "map a_flag ?o = map a_flag objs"
    using r by (simp add: map_flag_update)
  moreover have "\<not> isSet (?o ! k)" if "k \<in> set ors" "k \<noteq> a" for k
    using that Cons.prems r by (auto simp: nth_list_update)
  ultimately show ?case
    using Cons.IH [of ?o] Cons.prems(2) by (auto simp: xor_others_def split: if_splits)
qed (simp add: xor_others_def)

lemma find_Some_set: "find P xs = Some x \<Longrightarrow> x \<in> set xs \<and> P x"
  by (metis find_Some_iff nth_mem)

lemma find_None_all: "find P xs = None \<Longrightarrow> x \<in> set xs \<Longrightarrow> \<not> P x"
  by (simp add: find_None_iff)

lemma XorHandler_check_inv:
  assumes "XorHandler_check ol r objs = Inr (n, objs')" "store_inv objs" "r < length objs"
    "\<And>ors. ors \<in> set ol \<Longrightarrow> set ors \<subseteq> {..<length objs}"
  shows "store_inv objs' \<and> map a_flag objs' = map a_flag objs"
proof (cases "find (\<lambda>ors. r \<in> set ors) ol")
  case None
  then show ?thesis using assms by (auto simp: XorHandler_check_def)
next
  case (Some ors)
  let ?o = "xor_others r ors objs"
  have none: "find (\<lambda>k. k \<noteq> r \<and> isSet (objs ! k)) ors = None"
    using assms(1) Some by (auto simp: XorHandler_check_def split: option.splits)
  have sub: "set ors \<subseteq> {..<length objs}" using find_Some_set [OF Some] assms(4) by blast
  have o: "store_inv ?o \<and> map a_flag ?o = map a_flag objs"
    using xor_others_inv [OF assms(2) sub, of r] find_None_all [OF none] by auto
  then have "length ?o = length objs" using map_eq_imp_length_eq by blast
  moreover have "objs' = ?o[r := snd (allowMore (?o ! r))]"
    using assms(1) Some none by (auto simp: XorHandler_check_def Let_def split: prod.splits)
  ultimately show ?thesis
    using o assms(3) arg_inv_allowMore [OF store_inv_nth, of ?o r] by (simp add: store_inv_update map_flag_update)
qed

subsection \<open>Every argument keeps its invariant\<close>

definition refs_ok :: "CmdLine \<Rightarrow> bool" where
  "refs_ok c \<longleftrightarrow> set (cl_argList c) \<subseteq> {..<length (cl_objs c)} \<and>
     (\<forall>ors \<in> set (cl_orList c). set ors \<subseteq> {..<length (cl_objs c)})"

lemma evolved_store:
  assumes "list_all2 evolved objs objs'"
  shows "length objs' = length objs" "store_inv objs \<Longrightarrow> store_inv objs'" "map a_flag objs' = map a_flag objs"
proof -
  show l: "length objs' = length objs" using assms by (simp add: list_all2_lengthD)
  show "store_inv objs'" if "store_inv objs"
    using that assms l by (auto simp: store_inv_def list_all2_conv_all_nth evolved_def all_set_conv_all_nth)
  show "map a_flag objs' = map a_flag objs"
    using assms l by (auto simp: list_all2_conv_all_nth evolved_flag intro: nth_equalityI)
qed

lemma parse_word_inv:
  assumes "parse_word al ol objs s = Inr (n, objs', s')" "store_inv objs" "set al \<subseteq> {..<length objs}"
    "\<And>ors. ors \<in> set ol \<Longrightarrow> set ors \<subseteq> {..<length objs}"
  shows "store_inv objs' \<and> map a_flag objs' = map a_flag objs"
proof -
  obtain hit objs1 s1 where f: "first_match processArg al objs s = Inr (hit, objs1, s1)"
    using assms(1) by (auto simp: parse_word_def rbind_eq_Inr)
  have e: "list_all2 evolved objs objs1" "hit = Some r \<Longrightarrow> r \<in> set al" for r
    using any_class.first_match_evolves [OF f _ assms(3)] by auto
  note o = evolved_store [OF e(1)]
  show ?thesis
  proof (cases hit)
    case None
    then show ?thesis using assms f o by (auto simp: parse_word_def split: if_splits)
  next
    case (Some r)
    then have "r < length objs1" using e(2) assms(3) o by auto
    moreover have "XorHandler_check ol r objs1 = Inr (n, objs')"
      using assms(1) f Some by (auto simp: parse_word_def rbind_eq_Inr)
    ultimately show ?thesis using XorHandler_check_inv [of ol r objs1 n objs'] o assms by auto
  qed
qed

lemma parse_loop_inv:
  assumes "parse_loop al ol m objs s = Inr (m', objs', s')" "store_inv objs" "set al \<subseteq> {..<length objs}"
    "\<And>ors. ors \<in> set ol \<Longrightarrow> set ors \<subseteq> {..<length objs}"
  shows "store_inv objs' \<and> map a_flag objs' = map a_flag objs"
proof -
  have "store_inv objs \<and> map a_flag objs = map a_flag objs" using assms(2) by simp
  with assms(1) show ?thesis
  proof (induction rule: parse_loop_induct [where P = "\<lambda>m os s. store_inv os \<and> map a_flag os = map a_flag objs"])
    case (step m os s n os1 s1)
    then have "length os = length objs" using map_eq_imp_length_eq by blast
    then show ?case using parse_word_inv [OF step(3)] step(1) assms(3,4) by auto
  qed
qed

lemma parse_Returns:
  "parse u ign c args = Returns c' ign' \<longleftrightarrow>
     (\<exists>prog ws. args = prog # ws \<and> parse_body u ign (c\<lparr>cl_progName := prog\<rparr>) ws = Inr (c', ign'))"
  by (auto simp: parse_def split: list.splits sum.splits)

lemma parse_body_Inr:
  assumes "parse_body u ign c ws = Inr (c', ign')"
  shows "\<exists>objs s. c' = c\<lparr>cl_objs := objs\<rparr> \<and>
    parse_loop (cl_argList c) (cl_orList c) 0 (cl_objs c)
      \<lparr>ps_i = 0, ps_args = ws, ps_ignoreRest = ign, ps_delimiter = cl_delimiter c, ps_uninit = u\<rparr> = Inr (cl_numRequired c, objs, s)"
  using assms by (auto simp: parse_body_def rbind_eq_Inr Let_def split: if_splits)

lemma parse_Returns_inv:
  assumes "parse u ign c args = Returns c' ign'" "refs_ok c" "store_inv (cl_objs c)"
  shows "store_inv (cl_objs c') \<and> refs_ok c' \<and> map a_flag (cl_objs c') = map a_flag (cl_objs c)"
proof -
  obtain prog ws where p: "parse_body u ign (c\<lparr>cl_progName := prog\<rparr>) ws = Inr (c', ign')"
    using assms(1) by (auto simp: parse_Returns)
  obtain objs s where c': "c' = c\<lparr>cl_objs := objs, cl_progName := prog\<rparr>"
    and l: "parse_loop (cl_argList c) (cl_orList c) 0 (cl_objs c)
      \<lparr>ps_i = 0, ps_args = ws, ps_ignoreRest = ign, ps_delimiter = cl_delimiter c, ps_uninit = u\<rparr> = Inr (cl_numRequired c, objs, s)"
    using parse_body_Inr [OF p] by auto
  have o: "store_inv objs \<and> map a_flag objs = map a_flag (cl_objs c)"
    using parse_loop_inv [OF l assms(3)] assms(2) by (auto simp: refs_ok_def)
  then have "length objs = length (cl_objs c)" using map_eq_imp_length_eq by blast
  then show ?thesis using o c' assms(2) by (auto simp: refs_ok_def)
qed

text \<open>
  The values of a multi-argument are of its type, with one exception: an empty word reads nothing
  into the uninitialised variable \<open>tmp\<close>, whose value \<open>u\<close> is then stored.
\<close>

definition multi_typed :: "arg_value \<Rightarrow> tclap_arg \<Rightarrow> bool" where
  "multi_typed u a \<longleftrightarrow>
     (case a_kind a of
        Multi ty vs td con am \<Rightarrow> \<forall>v \<in> set vs. has_type ty v \<or> v = u
      | UnlabeledMulti ty vs td con am \<Rightarrow> \<forall>v \<in> set vs. has_type ty v \<or> v = u
      | _ \<Rightarrow> True)"

lemma multi_typed_simps [simp]:
  "multi_typed u (a\<lparr>a_alreadySet := b\<rparr>) = multi_typed u a" "multi_typed u (xorSet a) = multi_typed u a"
  "multi_typed u (snd (allowMore a)) = multi_typed u a"
  by (auto simp: multi_typed_def xorSet_def allowMore_def split: arg_kind.splits)

lemma multi_typed_switch: "is_switch a \<or> is_multi_switch a \<or> valued a \<Longrightarrow> multi_typed u a"
  by (auto simp: multi_typed_def is_switch_def is_multi_switch_def valued_def)

lemma extractValue_typed:
  "ValueArg_extractValue a val = Inr a' \<Longrightarrow> multi_typed u a \<Longrightarrow> multi_typed u a'"
  "MultiArg_extractValue u a val = Inr a' \<Longrightarrow> multi_typed u a \<Longrightarrow> multi_typed u a'"
  by (auto simp: ValueArg_extractValue_def MultiArg_extractValue_def multi_typed_def rbind_eq_Inr
      split: arg_kind.splits dest!: checked_value_Inr ExtractValue_typed)

lemma commonProcessing_kind: "commonProcessing a s = Inr (a', s') \<Longrightarrow> is_switch a \<Longrightarrow> is_switch a'"
  by (auto simp: commonProcessing_def Let_def rbind_eq_Inr is_switch_def split: if_splits)

lemma processArg_typed:
  assumes "processArg a s = Inr (hit, a', s')" "multi_typed (ps_uninit s) a"
  shows "multi_typed (ps_uninit s) a'"
proof (cases a rule: processArg_class)
  case switch
  then show ?thesis using assms
    by (auto simp: SwitchArg_processArg_def rbind_eq_Inr split: if_splits prod.splits bool.splits
        dest!: commonProcessing_kind intro: multi_typed_switch)
next
  case multi_switch
  then show ?thesis using assms
    by (auto simp: MultiSwitchArg_processArg_def is_multi_switch_def Let_def rbind_eq_Inr multi_typed_def
        split: if_splits prod.splits bool.splits)
next
  case val
  then show ?thesis using assms
    by (auto simp: ValueArg_processArg_def split: if_splits prod.splits
        dest!: take_value_set dest: extractValue_typed(1))
next
  case multi
  then show ?thesis using assms
    by (auto simp: MultiArg_processArg_def split: if_splits prod.splits
        dest!: take_value_set dest: extractValue_typed(2))
next
  case unlabeled_value
  then show ?thesis using assms
    by (auto simp: UnlabeledValueArg_processArg_def rbind_eq_Inr split: if_splits dest: extractValue_typed(1))
next
  case unlabeled_multi
  then show ?thesis using assms
    by (auto simp: UnlabeledMultiArg_processArg_def rbind_eq_Inr split: if_splits dest: extractValue_typed(2))
qed

definition all_typed :: "arg_value \<Rightarrow> tclap_arg list \<Rightarrow> bool" where
  "all_typed u objs \<longleftrightarrow> (\<forall>a \<in> set objs. multi_typed u a)"

lemma all_typed_update: "all_typed u objs \<Longrightarrow> (r < length objs \<Longrightarrow> multi_typed u a) \<Longrightarrow> all_typed u (objs[r := a])"
  using set_update_subset_insert [of objs r a]
  by (cases "r < length objs") (auto simp: all_typed_def list_update_beyond)

lemma all_typed_nth: "all_typed u objs \<Longrightarrow> r < length objs \<Longrightarrow> multi_typed u (objs ! r)"
  by (simp add: all_typed_def)

lemma first_match_typed:
  "first_match processArg rs objs s = Inr (hit, objs', s') \<Longrightarrow> all_typed (ps_uninit s) objs \<Longrightarrow>
     set rs \<subseteq> {..<length objs} \<Longrightarrow> ps_i s < length (ps_args s) \<Longrightarrow> all_typed (ps_uninit s) objs'"
proof (induction rs arbitrary: objs s)
  case (Cons r rs)
  obtain h a s1 where p: "processArg (objs ! r) s = Inr (h, a, s1)"
    using Cons.prems(1) by (cases "processArg (objs ! r) s") auto
  have l: "later s s1" using any_class.later [OF _ Cons.prems(4) p] by simp
  have t: "all_typed (ps_uninit s) (objs[r := a])"
    using Cons.prems(2,3) p by (intro all_typed_update) (auto intro: processArg_typed all_typed_nth)
  show ?case
  proof (cases h)
    case False
    then show ?thesis using Cons.IH [of "objs[r := a]" s1] Cons.prems p l t by (simp add: later_def)
  qed (use Cons.prems p t in simp)
qed simp

lemma xor_others_typed:
  "all_typed u objs \<Longrightarrow> all_typed u (xor_others r ors objs)"
proof (induction ors arbitrary: objs)
  case (Cons k ors)
  have "all_typed u (objs[k := xorSet (objs ! k)])"
    using Cons.prems by (intro all_typed_update) (auto intro: all_typed_nth)
  then show ?case using Cons.IH Cons.prems by (simp add: xor_others_def)
qed (simp add: xor_others_def)

lemma length_xor_others [simp]: "length (xor_others r ors objs) = length objs"
  by (induction ors arbitrary: objs) (simp_all add: xor_others_def)

lemma XorHandler_check_typed:
  "XorHandler_check ol r objs = Inr (n, objs') \<Longrightarrow> all_typed u objs \<Longrightarrow> all_typed u objs'"
  by (auto simp: XorHandler_check_def Let_def split: option.splits prod.splits
      intro!: all_typed_update xor_others_typed)
    (metis all_typed_nth length_xor_others multi_typed_simps(3) snd_conv xor_others_typed)

lemma parse_word_typed:
  assumes "parse_word al ol objs s = Inr (n, objs', s')" "all_typed (ps_uninit s) objs" "set al \<subseteq> {..<length objs}"
    "ps_i s < length (ps_args s)"
  shows "all_typed (ps_uninit s) objs'"
  using assms(1) first_match_typed [OF _ assms(2-4)]
  by (auto simp: parse_word_def rbind_eq_Inr split: option.splits if_splits dest: XorHandler_check_typed)

lemma parse_loop_typed:
  assumes "parse_loop al ol m objs s = Inr (m', objs', s')" "all_typed (ps_uninit s) objs" "store_inv objs"
    "set al \<subseteq> {..<length objs}" "\<And>ors. ors \<in> set ol \<Longrightarrow> set ors \<subseteq> {..<length objs}"
  shows "all_typed (ps_uninit s) objs'"
proof -
  let ?P = "\<lambda>m os s1. all_typed (ps_uninit s) os \<and> ps_uninit s1 = ps_uninit s \<and> store_inv os \<and> length os = length objs"
  have "?P m objs s" using assms(2,3) by simp
  with assms(1) have "?P m' objs' s'"
  proof (induction rule: parse_loop_induct [where P = ?P])
    case (step m os s0 n os1 s1)
    have "later s0 s1" by (rule parse_word_later [OF step(3,2)])
    moreover have "all_typed (ps_uninit s) os1"
      using parse_word_typed [OF step(3)] step(1,2) assms(4) by simp
    moreover have inv: "store_inv os1 \<and> map a_flag os1 = map a_flag os"
      using parse_word_inv [OF step(3)] step(1) assms(4,5) by simp
    moreover have "length os1 = length os" using inv map_eq_imp_length_eq by blast
    ultimately show ?case using step(1) by (simp add: later_def)
  qed
  then show ?thesis by simp
qed

text \<open>
  C6. A parse that returns keeps the invariant of every argument. What was not on the command line has
  its default; a switch that was has flipped and a counter has not fallen; a value that was given has
  the declared type and meets its constraint, or is the default, which an empty word leaves in place.
  Every value of a multi-argument has the declared type and meets the constraint; only an empty word
  may store the value \<open>u\<close> of an uninitialised variable instead. Of the command line itself the
  list of arguments, the groups and everything else but the program name are as before.
\<close>

theorem parse_keeps_invariant:
  assumes "parse u ign c args = Returns c' ign'" "refs_ok c" "store_inv (cl_objs c)" "all_typed u (cl_objs c)"
  shows "store_inv (cl_objs c') \<and> all_typed u (cl_objs c') \<and> refs_ok c' \<and>
    map a_flag (cl_objs c') = map a_flag (cl_objs c) \<and>
    c' = c\<lparr>cl_objs := cl_objs c', cl_progName := hd args\<rparr>"
proof -
  obtain prog ws where args: "args = prog # ws" and p: "parse_body u ign (c\<lparr>cl_progName := prog\<rparr>) ws = Inr (c', ign')"
    using assms(1) by (auto simp: parse_Returns)
  obtain objs s where c': "c' = c\<lparr>cl_objs := objs, cl_progName := prog\<rparr>"
    and l: "parse_loop (cl_argList c) (cl_orList c) 0 (cl_objs c)
      \<lparr>ps_i = 0, ps_args = ws, ps_ignoreRest = ign, ps_delimiter = cl_delimiter c, ps_uninit = u\<rparr> = Inr (cl_numRequired c, objs, s)"
    using parse_body_Inr [OF p] by auto
  have "all_typed u objs"
    using parse_loop_typed [OF l] assms(2-4) by (simp add: refs_ok_def)
  then show ?thesis
    using parse_Returns_inv [OF assms(1-3)] args c' by simp
qed

subsection \<open>Parsing ends\<close>

lemma XorHandler_check_fails: "XorHandler_check ol r objs = Inl e \<Longrightarrow> proper e"
  by (auto simp: XorHandler_check_def mutually_exclusive_def Let_def split: option.splits prod.splits)

definition no_blank_flags :: "tclap_arg list \<Rightarrow> bool" where
  "no_blank_flags objs \<longleftrightarrow> (\<forall>a \<in> set objs. take 1 (a_flag a) \<noteq> [blankChar])"

lemma no_blank_flags_cong: "map a_flag objs' = map a_flag objs \<Longrightarrow> no_blank_flags objs' \<longleftrightarrow> no_blank_flags objs"
proof -
  have e: "no_blank_flags os \<longleftrightarrow> (\<forall>f \<in> set (map a_flag os). take 1 f \<noteq> [blankChar])" for os
    by (auto simp: no_blank_flags_def)
  assume "map a_flag objs' = map a_flag objs"
  then show ?thesis by (simp only: e)
qed

lemma parse_word_fails:
  assumes "parse_word al ol objs s = Inl e" "set al \<subseteq> {..<length objs}" "no_blank_flags objs"
  shows "proper e"
proof (cases "first_match processArg al objs s")
  case (Inl e')
  then show ?thesis
    using assms any_class.first_match_fails [OF Inl _ assms(2)] by (auto simp: parse_word_def no_blank_flags_def)
next
  case (Inr x)
  then show ?thesis using assms(1)
    by (auto simp: parse_word_def rbind_Inl split: prod.splits option.splits if_splits dest: XorHandler_check_fails)
qed

lemma parse_loop_fails:
  "parse_loop al ol m objs s = Inl e \<Longrightarrow> store_inv objs \<Longrightarrow> set al \<subseteq> {..<length objs} \<Longrightarrow>
     (\<And>ors. ors \<in> set ol \<Longrightarrow> set ors \<subseteq> {..<length objs}) \<Longrightarrow> no_blank_flags objs \<Longrightarrow> proper e"
proof (induction al ol m objs s rule: parse_loop.induct)
  case (1 al ol m objs s)
  have in_range: "ps_i s < length (ps_args s)"
    using "1.prems"(1) by (subst (asm) parse_loop.simps) (auto split: if_splits)
  show ?case
  proof (cases "parse_word al ol objs s")
    case (Inl e')
    then show ?thesis
      using "1.prems" in_range parse_word_fails [OF Inl] by (subst (asm) parse_loop.simps) simp
  next
    case (Inr x)
    obtain n objs1 s1 where x: "x = (n, objs1, s1)" by (cases x)
    have k: "store_inv objs1" "map a_flag objs1 = map a_flag objs"
      using parse_word_inv [OF Inr [unfolded x]] "1.prems" by auto
    then have "length objs1 = length objs" using map_eq_imp_length_eq by blast
    moreover have "parse_loop al ol (m + n) objs1 (s1\<lparr>ps_i := ps_i s1 + 1\<rparr>) = Inl e"
      using "1.prems"(1) in_range Inr x by (subst (asm) parse_loop.simps) simp
    ultimately show ?thesis
      using "1.IH" [OF in_range Inr x [symmetric] refl] "1.prems" k no_blank_flags_cong [OF k(2)] by simp
  qed
qed

lemma parse_body_fails:
  assumes "parse_body u ign c ws = Inl e" "refs_ok c" "store_inv (cl_objs c)" "no_blank_flags (cl_objs c)"
  shows "proper e"
  using assms
  by (auto simp: parse_body_def rbind_Inl refs_ok_def Let_def missingArgsException_def too_many_def
      split: if_splits dest: parse_loop_fails)

lemma proper_exit_status: "proper e \<Longrightarrow> exit_status e = 0 \<or> exit_status e = 1"
  by (cases e) auto

lemma parse_comes_to_end:
  assumes "refs_ok c" "store_inv (cl_objs c)" "no_blank_flags (cl_objs c)" "cl_handleExceptions c" "args \<noteq> []"
  shows "(\<exists>c' ign'. parse u ign c args = Returns c' ign') \<or> parse u ign c args = Exits 0 \<or> parse u ign c args = Exits 1"
proof -
  obtain prog ws where args: "args = prog # ws" using assms(5) by (cases args) auto
  show ?thesis
  proof (cases "parse_body u ign (c\<lparr>cl_progName := prog\<rparr>) ws")
    case (Inl e)
    have "proper e" using parse_body_fails [OF Inl] assms by (simp add: refs_ok_def)
    then show ?thesis using Inl args assms(4) proper_exit_status [of e] by (auto simp: parse_def)
  next
    case (Inr x)
    then show ?thesis using args by (cases x) (simp add: parse_def)
  qed
qed

text \<open>
  C11. Whatever the words are, \<open>parse\<close> with exception handling on comes to an end: it returns, or it ends
  the process with status 0 or 1. Only a flag that is the place holder of combined switches could
  make it loop.
\<close>

theorem parse_ends:
  assumes "refs_ok c" "store_inv (cl_objs c)" "no_blank_flags (cl_objs c)" "cl_handleExceptions c" "args \<noteq> []"
  shows "(\<exists>c' ign'. parse u ign c args = Returns c' ign') \<or> parse u ign c args = Exits 0 \<or> parse u ign c args = Exits 1"
  by (rule parse_comes_to_end [OF assms])

subsection \<open>Required arguments\<close>

text \<open>An argument counts once it is set; without groups each hit that counts raises the count by one.\<close>

definition settled :: "tclap_arg \<Rightarrow> int" where
  "settled a = (if a_required a \<and> a_alreadySet a then 1 else 0)"

definition count_inv :: "tclap_arg \<Rightarrow> bool" where
  "count_inv a \<longleftrightarrow> \<not> a_xorSet a \<and>
     (case a_kind a of
        Switch _ _ \<Rightarrow> \<not> a_required a
      | MultiSwitch _ _ \<Rightarrow> \<not> a_required a
      | Multi _ vs _ _ _ \<Rightarrow> a_alreadySet a \<longleftrightarrow> vs \<noteq> []
      | UnlabeledMulti _ vs _ _ _ \<Rightarrow> a_alreadySet a \<longleftrightarrow> vs \<noteq> []
      | _ \<Rightarrow> True)"

lemma commonProcessing_count:
  "commonProcessing a s = Inr (a', s') \<Longrightarrow> count_inv a \<Longrightarrow> is_switch a \<Longrightarrow> count_inv a' \<and> settled a' = settled a \<and> \<not> isRequired a'"
  by (auto simp: commonProcessing_def Let_def rbind_eq_Inr is_switch_def count_inv_def settled_def isRequired_def
      split: if_splits)

lemma ValueArg_extractValue_count:
  assumes "ValueArg_extractValue a val = Inr a'" "count_inv a" "valued a" "\<not> a_alreadySet a"
  shows "count_inv (a'\<lparr>a_alreadySet := True\<rparr>) \<and>
    settled (a'\<lparr>a_alreadySet := True\<rparr>) = settled a + (if isRequired (a'\<lparr>a_alreadySet := True\<rparr>) then 1 else 0)"
  using assms by (auto simp: ValueArg_extractValue_def valued_def rbind_eq_Inr count_inv_def settled_def isRequired_def)

lemma MultiArg_extractValue_count:
  assumes "MultiArg_extractValue tmp a val = Inr a'" "count_inv a" "multi_valued a"
  shows "count_inv (a'\<lparr>a_alreadySet := True\<rparr>) \<and>
    settled (a'\<lparr>a_alreadySet := True\<rparr>) = settled a + (if isRequired (a'\<lparr>a_alreadySet := True\<rparr>) then 1 else 0)"
  using assms by (auto simp: MultiArg_extractValue_def multi_valued_def rbind_eq_Inr count_inv_def settled_def isRequired_def
      split: if_splits)

lemma processArg_counts:
  assumes "processArg a s = Inr (hit, a', s')" "count_inv a"
  shows "count_inv a' \<and> settled a' = settled a + (if hit \<and> isRequired a' then 1 else 0)"
proof (cases a rule: processArg_class)
  case switch
  then show ?thesis using assms
    by (auto simp: SwitchArg_processArg_def rbind_eq_Inr split: if_splits prod.splits bool.splits
        dest: commonProcessing_count)
next
  case multi_switch
  then show ?thesis using assms
    by (auto simp: MultiSwitchArg_processArg_def is_multi_switch_def Let_def rbind_eq_Inr count_inv_def settled_def
        isRequired_def split: if_splits prod.splits bool.splits)
next
  case val
  then have "valued a" by (auto simp: is_value_def valued_def)
  then show ?thesis using assms val
    by (auto simp: ValueArg_processArg_def split: if_splits prod.splits
        dest!: take_value_set dest: ValueArg_extractValue_count)
next
  case multi
  then have "multi_valued a" by (auto simp: is_multi_def multi_valued_def)
  then show ?thesis using assms multi
    by (auto simp: MultiArg_processArg_def split: if_splits prod.splits
        dest!: take_value_set dest: MultiArg_extractValue_count)
next
  case unlabeled_value
  then have "valued a" by (auto simp: is_unlabeled_value_def valued_def)
  then show ?thesis using assms unlabeled_value
    by (auto simp: UnlabeledValueArg_processArg_def rbind_eq_Inr split: if_splits dest: ValueArg_extractValue_count)
next
  case unlabeled_multi
  then have "multi_valued a" by (auto simp: is_unlabeled_multi_def multi_valued_def)
  then show ?thesis using assms unlabeled_multi
    by (auto simp: UnlabeledMultiArg_processArg_def rbind_eq_Inr split: if_splits dest: MultiArg_extractValue_count)
qed

lemma sum_update:
  fixes f :: "'a \<Rightarrow> int"
  shows "r < length xs \<Longrightarrow> sum_list (map f (xs[r := x])) = sum_list (map f xs) - f (xs ! r) + f x"
proof (induction xs arbitrary: r)
  case (Cons y xs)
  then show ?case by (cases r) auto
qed simp

lemma first_match_counts:
  "first_match processArg rs objs s = Inr (hit, objs', s') \<Longrightarrow> \<forall>a \<in> set objs. count_inv a \<Longrightarrow> set rs \<subseteq> {..<length objs} \<Longrightarrow>
     (\<forall>a \<in> set objs'. count_inv a) \<and>
     sum_list (map settled objs') = sum_list (map settled objs) +
       (case hit of Some r \<Rightarrow> if isRequired (objs' ! r) then 1 else 0 | None \<Rightarrow> 0)"
proof (induction rs arbitrary: objs s)
  case (Cons r rs)
  obtain h a s1 where p: "processArg (objs ! r) s = Inr (h, a, s1)"
    using Cons.prems(1) by (cases "processArg (objs ! r) s") auto
  have r: "r < length objs" using Cons.prems(3) by simp
  have c: "count_inv a" "settled a = settled (objs ! r) + (if h \<and> isRequired a then 1 else 0)"
    using processArg_counts [OF p] Cons.prems(2) r by auto
  have all: "\<forall>b \<in> set (objs[r := a]). count_inv b"
    using set_update_subset_insert [of objs r a] Cons.prems(2) c(1) by blast
  show ?case
  proof (cases h)
    case True
    then show ?thesis using Cons.prems p r c all by (auto simp: sum_update)
  next
    case False
    then have "first_match processArg rs (objs[r := a]) s1 = Inr (hit, objs', s')" using Cons.prems(1) p by simp
    then show ?thesis using Cons.IH [OF _ all] Cons.prems(3) False r c by (simp add: sum_update)
  qed
qed simp

text \<open>A command line as the constructors build it: every object added once, no groups, nothing set yet.\<close>

definition fresh_cmdline :: "CmdLine \<Rightarrow> bool" where
  "fresh_cmdline c \<longleftrightarrow>
     set (cl_argList c) = {..<length (cl_objs c)} \<and> cl_orList c = [] \<and>
     (\<forall>a \<in> set (cl_objs c). arg_inv a \<and> count_inv a \<and> \<not> a_alreadySet a) \<and>
     cl_numRequired c = sum_list (map (\<lambda>a. if a_required a then 1 else 0) (cl_objs c))"

lemma a_required_arg_decl: "a_required (arg_decl a) = a_required a"
  by (auto simp: arg_decl_def arg_reset_def Arg_reset_def split: arg_kind.split)

lemma evolved_required: "list_all2 evolved objs objs' \<Longrightarrow> map a_required objs' = map a_required objs"
  by (auto simp: list_all2_conv_all_nth evolved_def intro!: nth_equalityI) (metis a_required_arg_decl)+

lemma evolved_store_trans: "list_all2 evolved xs ys \<Longrightarrow> list_all2 evolved ys zs \<Longrightarrow> list_all2 evolved xs zs"
  by (rule list_all2_trans [OF evolved_trans])

lemma parse_loop_counts:
  assumes "parse_loop al [] 0 objs s = Inr (m, objs', s')" "set al \<subseteq> {..<length objs}"
    "\<forall>a \<in> set objs. count_inv a \<and> \<not> a_alreadySet a"
  shows "m = sum_list (map settled objs') \<and> list_all2 evolved objs objs' \<and> (\<forall>a \<in> set objs'. count_inv a)"
proof -
  have "sum_list (map settled objs) = 0" using assms(3) by (induction objs) (auto simp: settled_def)
  then have "0 = sum_list (map settled objs) \<and> list_all2 evolved objs objs \<and> (\<forall>a \<in> set objs. count_inv a)"
    using assms(3) by (simp add: list_all2_refl)
  with assms(1) show ?thesis
  proof (induction rule: parse_loop_induct [where
        P = "\<lambda>m os s. m = sum_list (map settled os) \<and> list_all2 evolved objs os \<and> (\<forall>a \<in> set os. count_inv a)"])
    case (step m os s n os1 s1)
    then obtain hit where f: "first_match processArg al os s = Inr (hit, os1, s1)"
      and n: "n = (case hit of Some r \<Rightarrow> if isRequired (os1 ! r) then 1 else 0 | None \<Rightarrow> 0)"
      by (auto simp: parse_word_def rbind_eq_Inr XorHandler_check_def split: option.splits if_splits)
    have al: "set al \<subseteq> {..<length os}" using step(1) assms(2) by (auto simp: list_all2_lengthD)
    have e: "list_all2 evolved os os1" using any_class.first_match_evolves [OF f _ al] by simp
    have "list_all2 evolved objs os1" using evolved_store_trans e step(1) by blast
    then show ?case using first_match_counts [OF f _ al] step(1) n by simp
  qed
qed

lemma all_settled:
  "sum_list (map settled objs) = sum_list (map (\<lambda>a. if a_required a then 1 else (0::int)) objs) \<Longrightarrow>
     \<forall>a \<in> set objs. a_required a \<longrightarrow> a_alreadySet a"
proof (induction objs)
  case (Cons a objs)
  have "sum_list (map settled objs) \<le> sum_list (map (\<lambda>a. if a_required a then 1 else (0::int)) objs)"
    by (intro sum_list_mono) (simp add: settled_def)
  then show ?case using Cons by (auto simp: settled_def [of a] split: if_splits)
qed simp

text \<open>
  C36. On a command line without mutually exclusive groups: when \<open>parse\<close> returns, every required
  argument was on it. (The members of a group are all marked required and only one is given.)
\<close>

theorem parse_sets_required:
  assumes "fresh_cmdline c" "parse u ign c args = Returns c' ign'" "k < length (cl_objs c)" "a_required (cl_objs c ! k)"
  shows "isSet (cl_objs c' ! k)"
proof -
  obtain prog ws where p: "parse_body u ign (c\<lparr>cl_progName := prog\<rparr>) ws = Inr (c', ign')"
    using assms(2) by (auto simp: parse_Returns)
  have fc: "cl_orList c = []" "set (cl_argList c) = {..<length (cl_objs c)}"
    "\<forall>a \<in> set (cl_objs c). count_inv a \<and> \<not> a_alreadySet a"
    "cl_numRequired c = sum_list (map (\<lambda>a. if a_required a then 1 else 0) (cl_objs c))"
    using assms(1) by (auto simp: fresh_cmdline_def)
  obtain objs s where c': "cl_objs c' = objs"
    and l: "parse_loop (cl_argList c) [] 0 (cl_objs c)
      \<lparr>ps_i = 0, ps_args = ws, ps_ignoreRest = ign, ps_delimiter = cl_delimiter c, ps_uninit = u\<rparr> = Inr (cl_numRequired c, objs, s)"
    using parse_body_Inr [OF p] fc(1) by auto
  have r: "cl_numRequired c = sum_list (map settled objs)" "list_all2 evolved (cl_objs c) objs" "\<forall>a \<in> set objs. count_inv a"
    using parse_loop_counts [OF l _ fc(3)] fc(2) by auto
  have req: "map a_required objs = map a_required (cl_objs c)" using evolved_required [OF r(2)] .
  have "sum_list (map (\<lambda>a. if a_required a then 1 else (0::int)) objs) = cl_numRequired c"
    using arg_cong [OF req, of "\<lambda>bs. sum_list (map (\<lambda>b. if b then 1 else (0::int)) bs)"] fc(4) by (simp add: comp_def)
  then have "\<forall>a \<in> set objs. a_required a \<longrightarrow> a_alreadySet a" using all_settled [of objs] r(1) by simp
  moreover have "k < length objs" using assms(3) r(2) by (simp add: list_all2_lengthD)
  moreover have "a_required (objs ! k)" using req assms(3,4) \<open>k < length objs\<close> by (metis nth_map)
  ultimately show ?thesis using r(3) c' by (auto simp: isSet_def count_inv_def)
qed

subsection \<open>Reset\<close>

lemma fold_update_all:
  assumes "\<And>x. f (f x) = f x"
  shows "length (fold (\<lambda>r os. os[r := f (os ! r)]) rs xs) = length xs"
    "k < length xs \<Longrightarrow> fold (\<lambda>r os. os[r := f (os ! r)]) rs xs ! k = (if k \<in> set rs then f (xs ! k) else xs ! k)"
proof -
  show l: "length (fold (\<lambda>r os. os[r := f (os ! r)]) rs xs) = length xs" for xs
    by (induction rs arbitrary: xs) auto
  show "k < length xs \<Longrightarrow> fold (\<lambda>r os. os[r := f (os ! r)]) rs xs ! k = (if k \<in> set rs then f (xs ! k) else xs ! k)"
  proof (induction rs arbitrary: xs)
    case (Cons r rs)
    then show ?case using assms by (cases "r < length xs") (auto simp: nth_list_update)
  qed simp
qed

lemma arg_reset_arg_decl: "\<not> is_multi_switch a \<Longrightarrow> arg_reset a = arg_decl a"
  by (auto simp: is_multi_switch_def arg_decl_def arg_reset_def Arg_reset_def split: arg_kind.split)

lemma arg_reset_twice: "arg_reset (arg_reset a) = arg_reset a"
  by (auto simp: arg_reset_def Arg_reset_def split: arg_kind.splits)

lemma Arg_reset_id: "\<not> a_alreadySet a \<Longrightarrow> \<not> a_xorSet a \<Longrightarrow> Arg_reset a = a"
  by (cases a) (simp add: Arg_reset_def)

lemma kind_update_id: "k = a_kind a \<Longrightarrow> a\<lparr>a_kind := k\<rparr> = a"
  by simp

lemma fresh_arg_decl: "arg_inv a \<Longrightarrow> \<not> a_alreadySet a \<Longrightarrow> arg_decl a = a"
  by (cases "a_kind a")
    (auto simp: arg_inv_def isSet_def value_state_def arg_decl_def arg_reset_def Arg_reset_id intro!: kind_update_id)

lemma parse_Returns_evolved:
  assumes "fresh_cmdline c" "parse u ign c args = Returns c' ign'"
  shows "\<exists>prog. c' = c\<lparr>cl_objs := cl_objs c', cl_progName := prog\<rparr>" "list_all2 evolved (cl_objs c) (cl_objs c')"
proof -
  obtain prog ws where p: "parse_body u ign (c\<lparr>cl_progName := prog\<rparr>) ws = Inr (c', ign')"
    using assms(2) by (auto simp: parse_Returns)
  obtain objs s where c': "c' = c\<lparr>cl_objs := objs, cl_progName := prog\<rparr>"
    and l: "parse_loop (cl_argList c) (cl_orList c) 0 (cl_objs c)
      \<lparr>ps_i = 0, ps_args = ws, ps_ignoreRest = ign, ps_delimiter = cl_delimiter c, ps_uninit = u\<rparr> = Inr (cl_numRequired c, objs, s)"
    using parse_body_Inr [OF p] by auto
  show "\<exists>prog. c' = c\<lparr>cl_objs := cl_objs c', cl_progName := prog\<rparr>" using c' by auto
  show "list_all2 evolved (cl_objs c) (cl_objs c')"
    using parse_loop_counts [of "cl_argList c" "cl_objs c"] l assms(1) c' by (auto simp: fresh_cmdline_def)
qed

lemma parse_ignoreRest:
  assumes "parse u ign c args = Returns c' ign'"
  shows "ign \<longrightarrow> ign'"
proof -
  obtain prog ws where p: "parse_body u ign (c\<lparr>cl_progName := prog\<rparr>) ws = Inr (c', ign')"
    using assms by (auto simp: parse_Returns)
  then obtain m objs s where ign': "ign' = ps_ignoreRest s" and
    l: "parse_loop (cl_argList c) (cl_orList c) 0 (cl_objs c)
      \<lparr>ps_i = 0, ps_args = ws, ps_ignoreRest = ign, ps_delimiter = cl_delimiter c, ps_uninit = u\<rparr> = Inr (m, objs, s)"
    by (auto simp: parse_body_def rbind_eq_Inr Let_def split: if_splits)
  have "ign \<longrightarrow> ps_ignoreRest \<lparr>ps_i = 0, ps_args = ws, ps_ignoreRest = ign, ps_delimiter = cl_delimiter c, ps_uninit = u\<rparr>"
    by simp
  with l have "ign \<longrightarrow> ps_ignoreRest s"
  proof (induction rule: parse_loop_induct [where P = "\<lambda>m os s. ign \<longrightarrow> ps_ignoreRest s"])
    case (step m os s n os1 s1)
    then show ?case using parse_word_later [OF step(3,2)] by (auto simp: later_def)
  qed
  then show ?thesis by (simp add: ign')
qed

text \<open>
  C38. On a command line without multi-switches and without mutually exclusive groups, \<open>reset\<close> takes
  back what a parse did: the arguments, and all of \<open>CmdLine\<close> but the program name, which is cleared,
  are as before it. The static flag \<open>ignoreRest\<close> belongs to none of them and is not taken back: a
  flag that was set before the parse is set after it.
\<close>

theorem reset_undoes_parse:
  assumes "fresh_cmdline c" "\<forall>a \<in> set (cl_objs c). \<not> is_multi_switch a" "parse u ign c args = Returns c' ign'"
  shows "CmdLine_reset c' = c\<lparr>cl_progName := []\<rparr> \<and> (ign \<longrightarrow> ign')"
proof -
  obtain prog where c': "c' = c\<lparr>cl_objs := cl_objs c', cl_progName := prog\<rparr>"
    using parse_Returns_evolved(1) [OF assms(1,3)] by blast
  define objs where "objs = cl_objs c'"
  have e: "list_all2 evolved (cl_objs c) objs"
    using parse_Returns_evolved(2) [OF assms(1,3)] by (simp add: objs_def)
  have "arg_reset (objs ! k) = cl_objs c ! k" if "k < length (cl_objs c)" for k
  proof -
    have ev: "arg_decl (objs ! k) = arg_decl (cl_objs c ! k)"
      using e that by (simp add: list_all2_conv_all_nth evolved_def)
    moreover have "is_multi_switch (arg_decl a) = is_multi_switch a" for a
      by (auto simp: is_multi_switch_def arg_decl_def arg_reset_def Arg_reset_def split: arg_kind.splits)
    ultimately have "\<not> is_multi_switch (objs ! k)" using assms(2) that by (metis nth_mem)
    then show ?thesis
      using ev arg_reset_arg_decl fresh_arg_decl [of "cl_objs c ! k"] assms(1) that by (simp add: fresh_cmdline_def)
  qed
  then have "fold (\<lambda>r os. os[r := arg_reset (os ! r)]) (cl_argList c) objs = cl_objs c"
    using assms(1) list_all2_lengthD [OF e] by (intro nth_equalityI) (auto simp: fold_update_all arg_reset_twice fresh_cmdline_def)
  then show ?thesis
    using arg_cong [OF c', of CmdLine_reset] parse_ignoreRest [OF assms(3)] by (simp add: CmdLine_reset_def objs_def)
qed

text \<open>
  So \<open>reset\<close> does not make a command line reusable, as its comment says, once the words \<open>--\<close> or
  \<open>--ignore_rest\<close> were on it: a later parse takes no labeled argument any more. It returns with
  nothing set, whatever the words are.
\<close>

definition ignored :: "tclap_arg \<Rightarrow> bool" where
  "ignored a \<longleftrightarrow> a_ignoreable a \<and> (is_switch a \<or> is_multi_switch a \<or> is_value a \<or> is_multi a)"

lemma processArg_ignored: "ignored a \<Longrightarrow> ps_ignoreRest s \<Longrightarrow> processArg a s = Inr (False, a, s)"
  by (auto simp: ignored_def is_switch_def is_multi_switch_def is_value_def is_multi_def processArg_def
      SwitchArg_processArg_def MultiSwitchArg_processArg_def ValueArg_processArg_def MultiArg_processArg_def Let_def)

lemma first_match_ignored:
  "\<forall>a \<in> set objs. ignored a \<Longrightarrow> ps_ignoreRest s \<Longrightarrow> set rs \<subseteq> {..<length objs} \<Longrightarrow>
     first_match processArg rs objs s = Inr (None, objs, s)"
  by (induction rs) (simp_all add: processArg_ignored)

lemma parse_loop_ignored:
  "\<forall>a \<in> set objs. ignored a \<Longrightarrow> ps_ignoreRest s \<Longrightarrow> set al \<subseteq> {..<length objs} \<Longrightarrow>
     \<exists>s'. parse_loop al ol m objs s = Inr (m, objs, s') \<and> ps_ignoreRest s'"
proof (induction "length (ps_args s) - ps_i s" arbitrary: s)
  case 0
  then show ?case by (subst parse_loop.simps) simp
next
  case (Suc n)
  have "\<exists>s'. parse_loop al ol m objs (s\<lparr>ps_i := ps_i s + 1\<rparr>) = Inr (m, objs, s') \<and> ps_ignoreRest s'"
    using Suc.hyps Suc.prems by simp
  moreover have "ps_i s < length (ps_args s)" using Suc.hyps(2) by simp
  ultimately show ?case
    using Suc.prems by (subst parse_loop.simps) (simp add: parse_word_def first_match_ignored)
qed

theorem ignore_rest_survives_reset:
  assumes "\<forall>a \<in> set (cl_objs c). ignored a" and "refs_ok c" and "cl_numRequired c = 0"
  shows "parse u True c (prog # ws) = Returns (c\<lparr>cl_progName := prog\<rparr>) True"
  using parse_loop_ignored [of "cl_objs c" "\<lparr>ps_i = 0, ps_args = ws, ps_ignoreRest = True, ps_delimiter = cl_delimiter c,
    ps_uninit = u\<rparr>" "cl_argList c" "cl_orList c" 0] assms
  by (auto simp: parse_def parse_body_def refs_ok_def)

text \<open>
  A multi-switch is not: \<open>MultiSwitchArg::reset\<close> restores the count and leaves the mark that the
  argument was given.
\<close>

theorem multi_switch_stays_set:
  "arg_reset (\<lparr>a_flag = f, a_name = n, a_description = d, a_required = False, a_requireLabel = q, a_valueRequired = False,
      a_alreadySet = True, a_visitor = v, a_ignoreable = True, a_xorSet = False, a_multiple = False, a_kind = MultiSwitch 3 0\<rparr>) =
   \<lparr>a_flag = f, a_name = n, a_description = d, a_required = False, a_requireLabel = q, a_valueRequired = False,
      a_alreadySet = True, a_visitor = v, a_ignoreable = True, a_xorSet = False, a_multiple = False, a_kind = MultiSwitch 0 0\<rparr>"
  by (simp add: arg_reset_def)

end
