(* ===== verification/TclapRoundtrip.thy ===== *)
theory TclapRoundtrip
  imports TclapSpec
begin

text \<open>
  A command line that is written out from a choice of options, with short flags or long names, is
  parsed back to exactly that choice.
\<close>

subsection \<open>Rendered options\<close>

text \<open>\<open>Opt\<close> is an option with its value, \<open>Flg\<close> a switch; the boolean selects the long name.\<close>

datatype cmd_item = Opt ref bool string | Flg ref bool

fun item_ref :: "cmd_item \<Rightarrow> ref" where
  "item_ref (Opt r l t) = r"
| "item_ref (Flg r l) = r"

definition spell :: "bool \<Rightarrow> tclap_arg \<Rightarrow> string" where
  "spell l a = (if l then nameStartString @ a_name a else flagStartString @ a_flag a)"

fun item_words :: "tclap_arg list \<Rightarrow> cmd_item \<Rightarrow> string list" where
  "item_words objs (Opt r l t) = [spell l (objs ! r), t]"
| "item_words objs (Flg r l) = [spell l (objs ! r)]"

definition render :: "tclap_arg list \<Rightarrow> cmd_item list \<Rightarrow> string list" where
  "render objs items = concat (map (item_words objs) items)"

text \<open>Declarations with usable names: what \<open>Arg\<close>'s constructor and \<open>add\<close> ensure, and no place holder in a name.\<close>

definition labeled :: "tclap_arg \<Rightarrow> bool" where
  "labeled a \<longleftrightarrow> is_switch a \<or> is_multi_switch a \<or> is_value a \<or> is_multi a"

definition name_ok :: "tclap_arg \<Rightarrow> bool" where
  "name_ok a \<longleftrightarrow>
     length (a_flag a) \<le> 1 \<and> a_flag a \<noteq> '' '' \<and> a_flag a \<noteq> [blankChar] \<and>
     a_name a \<noteq> [] \<and> CHR '' '' \<notin> set (a_name a) \<and> blankChar \<notin> set (a_name a)"

definition names_ok :: "tclap_arg list \<Rightarrow> bool" where
  "names_ok objs \<longleftrightarrow>
     (\<forall>a \<in> set objs. labeled a \<and> name_ok a) \<and> distinct (map a_name objs) \<and>
     distinct (filter (\<lambda>f. f \<noteq> []) (map a_flag objs))"

text \<open>The text of the option can be read, and the value meets the constraint.\<close>

fun item_ok :: "tclap_arg list \<Rightarrow> cmd_item \<Rightarrow> bool" where
  "item_ok objs (Opt r l t) \<longleftrightarrow>
     r < length objs \<and> is_value (objs ! r) \<and> a_visitor (objs ! r) = NoVisitor \<and> \<not> a_alreadySet (objs ! r) \<and>
     (l \<or> a_flag (objs ! r) \<noteq> [] \<and> a_flag (objs ! r) \<noteq> flagStartString) \<and>
     (\<exists>a. ValueArg_extractValue (objs ! r) t = Inr a)"
| "item_ok objs (Flg r l) \<longleftrightarrow>
     r < length objs \<and> is_switch (objs ! r) \<and> a_visitor (objs ! r) = NoVisitor \<and> \<not> a_alreadySet (objs ! r) \<and>
     \<not> a_xorSet (objs ! r) \<and>
     (l \<or> a_flag (objs ! r) \<noteq> [] \<and> a_flag (objs ! r) \<noteq> flagStartString)"

text \<open>What an option does to its argument.\<close>

fun item_effect :: "tclap_arg \<Rightarrow> cmd_item \<Rightarrow> tclap_arg" where
  "item_effect a (Opt r l t) = (case ValueArg_extractValue a t of Inr b \<Rightarrow> b\<lparr>a_alreadySet := True\<rparr> | Inl e \<Rightarrow> a)"
| "item_effect a (Flg r l) = a\<lparr>a_alreadySet := True, a_kind := flip_switch (a_kind a)\<rparr>"

definition apply_item :: "cmd_item \<Rightarrow> tclap_arg list \<Rightarrow> tclap_arg list" where
  "apply_item it objs = objs[item_ref it := item_effect (objs ! item_ref it) it]"

subsection \<open>A spelled option names one argument\<close>

lemma names_differ:
  assumes "names_ok objs" "j < length objs" "k < length objs" "j \<noteq> k"
  shows "a_name (objs ! j) \<noteq> a_name (objs ! k)" "a_flag (objs ! j) \<noteq> [] \<Longrightarrow> a_flag (objs ! j) \<noteq> a_flag (objs ! k)"
proof -
  show "a_name (objs ! j) \<noteq> a_name (objs ! k)"
    using assms by (auto simp: names_ok_def distinct_conv_nth)
  have d: "distinct (filter (\<lambda>f. f \<noteq> []) (map a_flag xs)) \<Longrightarrow> j < length xs \<Longrightarrow> k < length xs \<Longrightarrow> j < k \<Longrightarrow>
      a_flag (xs ! j) \<noteq> [] \<Longrightarrow> a_flag (xs ! j) \<noteq> a_flag (xs ! k)" for xs and j k
  proof (induction xs arbitrary: j k)
    case (Cons x xs)
    then show ?case by (cases j; cases k) (auto split: if_splits)
  qed simp
  assume "a_flag (objs ! j) \<noteq> []"
  then show "a_flag (objs ! j) \<noteq> a_flag (objs ! k)"
    using d [of objs j k] d [of objs k j] assms by (metis names_ok_def nat_neq_iff)
qed

lemma name_ok_nth: "names_ok objs \<Longrightarrow> k < length objs \<Longrightarrow> name_ok (objs ! k) \<and> labeled (objs ! k)"
  by (simp add: names_ok_def)

lemma spell_matches:
  assumes "l \<or> a_flag a \<noteq> []"
  shows "argMatches a (spell l a)"
  using assms by (auto simp: argMatches_def spell_def)

lemma spell_matches_one:
  assumes "names_ok objs" "j < length objs" "k < length objs" "j \<noteq> k"
    "l \<or> a_flag (objs ! k) \<noteq> [] \<and> a_flag (objs ! k) \<noteq> flagStartString"
  shows "\<not> argMatches (objs ! j) (spell l (objs ! k))"
  using names_differ [OF assms(1-4)] name_ok_nth [OF assms(1,2)] name_ok_nth [OF assms(1,3)] assms(5)
  by (cases "a_flag (objs ! k)"; cases "a_flag (objs ! j)")
    (auto simp: argMatches_def spell_def flagStartString_def nameStartString_def name_ok_def)

lemma spell_not_combined:
  assumes "names_ok objs" "j < length objs" "k < length objs" "j \<noteq> k"
    "l \<or> a_flag (objs ! k) \<noteq> [] \<and> a_flag (objs ! k) \<noteq> flagStartString"
  shows "combinedSwitchesMatch (objs ! j) delim (spell l (objs ! k)) = (False, spell l (objs ! k))"
  using names_differ [OF assms(1-4)] name_ok_nth [OF assms(1,2)] name_ok_nth [OF assms(1,3)] assms(5)
  by (cases "a_flag (objs ! k)"; cases "a_flag (objs ! j)")
    (auto simp: combinedSwitchesMatch_def spell_def flagStartString_def nameStartString_def name_ok_def
      split: option.split simp: find_first_Some)

lemma spell_plain:
  assumes "name_ok a" "l \<or> a_flag a \<noteq> []"
  shows "\<not> hasBlanks (spell l a)" "trimFlag (CHR '' '') (spell l a) = (spell l a, [])"
  using assms
  by (cases "a_flag a";
      auto simp: hasBlanks_def trimFlag_def spell_def flagStartString_def nameStartString_def name_ok_def blankChar_def Let_def
        find_first_Some nth_Cons split: option.split nat.splits dest: nth_mem)+

subsection \<open>One option\<close>

lemma processArg_other:
  assumes "labeled a" "\<not> ps_ignoreRest s" "\<not> argMatches a (current s)" "\<not> hasBlanks (current s)"
    "combinedSwitchesMatch a (ps_delimiter s) (current s) = (False, w)" "trimFlag (ps_delimiter s) (current s) = (current s, [])"
  shows "processArg a s = Inr (False, a, s)"
  using assms
  by (cases a rule: processArg_class)
    (auto simp: SwitchArg_processArg_def MultiSwitchArg_processArg_def ValueArg_processArg_def MultiArg_processArg_def
      labeled_def is_switch_def is_multi_switch_def is_value_def is_multi_def is_unlabeled_value_def is_unlabeled_multi_def)

lemma first_match_one:
  assumes "r \<in> set rs" "\<And>k. k \<in> set rs \<Longrightarrow> k \<noteq> r \<Longrightarrow> processArg (objs ! k) s = Inr (False, objs ! k, s)"
    "processArg (objs ! r) s = Inr (True, a, s')"
  shows "first_match processArg rs objs s = Inr (Some r, objs[r := a], s')"
  using assms(1,2)
proof (induction rs)
  case (Cons k rs)
  then show ?case using assms(3) by (cases "k = r") auto
qed simp

lemma spelled_first_match:
  assumes "names_ok objs" "set rs = {..<length objs}" "r < length objs" "\<not> ps_ignoreRest s" "ps_delimiter s = CHR '' ''"
    "current s = spell l (objs ! r)" "l \<or> a_flag (objs ! r) \<noteq> [] \<and> a_flag (objs ! r) \<noteq> flagStartString"
    "processArg (objs ! r) s = Inr (True, a, s')"
  shows "first_match processArg rs objs s = Inr (Some r, objs[r := a], s')"
proof (rule first_match_one [OF _ _ assms(8)])
  fix k assume "k \<in> set rs" "k \<noteq> r"
  then have k: "k < length objs" using assms(2) by simp
  have "name_ok (objs ! r)" using name_ok_nth [OF assms(1,3)] by simp
  then show "processArg (objs ! k) s = Inr (False, objs ! k, s)"
    using processArg_other [of "objs ! k" s] name_ok_nth [OF assms(1) k] spell_plain [of "objs ! r" l]
      spell_matches_one [OF assms(1) k assms(3) \<open>k \<noteq> r\<close> assms(7)]
      spell_not_combined [OF assms(1) k assms(3) \<open>k \<noteq> r\<close> assms(7)] assms(4-7) by auto
qed (use assms in simp)

lemma current_nth: "ps_i s = length xs \<Longrightarrow> ps_args s = xs @ y # ys \<Longrightarrow> current s = y"
  by (simp add: current_def)

lemma processArg_option:
  assumes "item_ok objs (Opt r l t)" "names_ok objs" "\<not> ps_ignoreRest s" "ps_delimiter s = CHR '' ''"
    "ps_i s = length xs" "ps_args s = xs @ spell l (objs ! r) # t # ys"
  shows "processArg (objs ! r) s = Inr (True, item_effect (objs ! r) (Opt r l t), s\<lparr>ps_i := ps_i s + 1\<rparr>)"
proof -
  let ?a = "objs ! r"
  obtain b where b: "ValueArg_extractValue ?a t = Inr b" using assms(1) by auto
  have w: "current s = spell l ?a" using current_nth [OF assms(5,6)] .
  have n: "current (s\<lparr>ps_i := ps_i s + 1\<rparr>) = t" using assms(5,6) by (simp add: current_def nth_append)
  have "name_ok ?a" using assms(1,2) name_ok_nth by auto
  then have p: "\<not> hasBlanks (current s)" "trimFlag (ps_delimiter s) (current s) = (current s, [])" "argMatches ?a (current s)"
    using spell_plain [of ?a l] spell_matches [of l ?a] assms(1,4) w by auto
  have "a_visitor b = a_visitor ?a" using b
    by (auto simp: ValueArg_extractValue_def rbind_eq_Inr split: arg_kind.splits)
  moreover have "processArg ?a = ValueArg_processArg ?a" using assms(1) by (auto simp: processArg_def is_value_def)
  ultimately show ?thesis using assms b p n
    by (auto simp: ValueArg_processArg_def take_value_def checkWithVisitor_def)
qed

lemma processArg_flag:
  assumes "item_ok objs (Flg r l)" "names_ok objs" "\<not> ps_ignoreRest s" "current s = spell l (objs ! r)"
  shows "processArg (objs ! r) s = Inr (True, item_effect (objs ! r) (Flg r l), s)"
proof -
  have "processArg (objs ! r) = SwitchArg_processArg (objs ! r)" using assms(1) by (auto simp: processArg_def is_switch_def)
  moreover have "argMatches (objs ! r) (current s)" using spell_matches [of l "objs ! r"] assms(1,4) by auto
  ultimately show ?thesis using assms
    by (auto simp: SwitchArg_processArg_def commonProcessing_def checkWithVisitor_def)
qed

definition counts_once :: "tclap_arg \<Rightarrow> int" where
  "counts_once a = (if a_required a then 1 else 0)"

lemma isRequired_item_effect:
  "item_ok objs it \<Longrightarrow> (\<forall>a \<in> set objs. count_inv a) \<Longrightarrow> r = item_ref it \<Longrightarrow>
     (if isRequired (item_effect (objs ! r) it) then 1 else 0) = counts_once (objs ! r)"
  by (cases it)
    (auto simp: isRequired_def counts_once_def is_value_def is_switch_def ValueArg_extractValue_def rbind_eq_Inr
      split: arg_kind.splits)

lemma parse_word_item:
  assumes "item_ok objs it" "names_ok objs" "\<forall>a \<in> set objs. count_inv a" "set al = {..<length objs}"
    "\<not> ps_ignoreRest s" "ps_delimiter s = CHR '' ''" "ps_i s = length xs" "ps_args s = xs @ item_words objs it @ ys"
  shows "parse_word al [] objs s =
    Inr (counts_once (objs ! item_ref it), apply_item it objs, s\<lparr>ps_i := ps_i s + length (item_words objs it) - 1\<rparr>)"
proof -
  let ?r = "item_ref it"
  have r: "?r < length objs" using assms(1) by (cases it) auto
  obtain l where l: "current s = spell l (objs ! ?r)" "l \<or> a_flag (objs ! ?r) \<noteq> [] \<and> a_flag (objs ! ?r) \<noteq> flagStartString"
    using assms(1,7,8) by (cases it) (auto simp: current_def)
  have "processArg (objs ! ?r) s =
      Inr (True, item_effect (objs ! ?r) it, s\<lparr>ps_i := ps_i s + length (item_words objs it) - 1\<rparr>)"
  proof (cases it)
    case (Opt r' l' t)
    then show ?thesis using processArg_option [of objs r' l' t s xs ys] assms by simp
  next
    case (Flg r' l')
    then show ?thesis using processArg_flag [of objs r' l' s] assms by (simp add: current_def)
  qed
  then have "first_match processArg al objs s =
      Inr (Some ?r, apply_item it objs, s\<lparr>ps_i := ps_i s + length (item_words objs it) - 1\<rparr>)"
    using spelled_first_match [OF assms(2,4) r assms(5,6) l] by (simp add: apply_item_def)
  then show ?thesis
    using isRequired_item_effect [OF assms(1,3) refl] r by (simp add: parse_word_def XorHandler_check_def apply_item_def)
qed

subsection \<open>All options\<close>

lemma item_effect_simps:
  "a_flag (item_effect a it) = a_flag a" "a_name (item_effect a it) = a_name a"
  "a_required (item_effect a it) = a_required a"
  by (cases it;
      auto simp: ValueArg_extractValue_def rbind_eq_Inr split: arg_kind.splits sum.splits)+

lemma labeled_item_effect: "labeled a \<Longrightarrow> labeled (item_effect a it)"
  by (cases it)
    (auto simp: labeled_def is_switch_def is_multi_switch_def is_value_def is_multi_def ValueArg_extractValue_def
      rbind_eq_Inr split: sum.splits)

lemma count_inv_item_effect: "item_ok objs it \<Longrightarrow> count_inv (objs ! item_ref it) \<Longrightarrow> count_inv (item_effect (objs ! item_ref it) it)"
  by (cases it)
    (auto simp: count_inv_def is_switch_def is_value_def ValueArg_extractValue_def rbind_eq_Inr split: arg_kind.splits sum.splits)

lemma map_update_same: "r < length xs \<Longrightarrow> f y = f (xs ! r) \<Longrightarrow> map f (xs[r := y]) = map f xs"
  by (simp add: map_update list_update_same_conv)

lemma item_ref_bound: "item_ok objs it \<Longrightarrow> item_ref it < length objs"
  by (cases it) auto

lemma apply_item_frame:
  assumes "item_ok objs it"
  shows "map a_name (apply_item it objs) = map a_name objs" "map a_flag (apply_item it objs) = map a_flag objs"
    "map a_required (apply_item it objs) = map a_required objs" "length (apply_item it objs) = length objs"
    "k \<noteq> item_ref it \<Longrightarrow> apply_item it objs ! k = objs ! k"
    "names_ok objs \<Longrightarrow> names_ok (apply_item it objs)"
    "\<forall>a \<in> set objs. count_inv a \<Longrightarrow> \<forall>a \<in> set (apply_item it objs). count_inv a"
proof -
  have r: "item_ref it < length objs" using item_ref_bound [OF assms] .
  show n: "map a_name (apply_item it objs) = map a_name objs" and f: "map a_flag (apply_item it objs) = map a_flag objs"
    and "map a_required (apply_item it objs) = map a_required objs"
    using r by (simp_all add: apply_item_def map_update_same item_effect_simps)
  show "length (apply_item it objs) = length objs" by (simp add: apply_item_def)
  show "apply_item it objs ! k = objs ! k" if "k \<noteq> item_ref it" using that by (simp add: apply_item_def)
  have sub: "set (apply_item it objs) \<subseteq> insert (item_effect (objs ! item_ref it) it) (set objs)"
    by (simp add: apply_item_def set_update_subset_insert)
  show "\<forall>a \<in> set (apply_item it objs). count_inv a" if "\<forall>a \<in> set objs. count_inv a"
    using sub that count_inv_item_effect [OF assms] r by auto
  show "names_ok (apply_item it objs)" if "names_ok objs"
  proof -
    have "name_ok (item_effect (objs ! item_ref it) it) \<and> labeled (item_effect (objs ! item_ref it) it)"
      using name_ok_nth [OF that r] by (simp add: name_ok_def item_effect_simps labeled_item_effect)
    then have "\<forall>a \<in> set (apply_item it objs). labeled a \<and> name_ok a" using that sub by (auto simp: names_ok_def)
    then show ?thesis using that n f by (simp add: names_ok_def)
  qed
qed

lemma spell_apply_item:
  assumes "item_ok objs it" "k < length objs"
  shows "spell l (apply_item it objs ! k) = spell l (objs ! k)"
    "counts_once (apply_item it objs ! k) = counts_once (objs ! k)"
  using apply_item_frame(1-4) [OF assms(1)] assms(2) by (metis nth_map spell_def counts_once_def)+

lemma render_apply_item:
  "item_ok objs it \<Longrightarrow> (\<And>i. i \<in> set items \<Longrightarrow> item_ref i < length objs) \<Longrightarrow> render (apply_item it objs) items = render objs items"
proof (induction items)
  case (Cons i items)
  have "item_words (apply_item it objs) i = item_words objs i"
    using Cons.prems(2) [of i] spell_apply_item(1) [OF Cons.prems(1)] by (cases i) auto
  then show ?case using Cons by (simp add: render_def)
qed (simp add: render_def)

lemma item_ok_apply_item:
  assumes "item_ok objs it" "item_ok objs i" "item_ref i \<noteq> item_ref it"
  shows "item_ok (apply_item it objs) i"
  using assms apply_item_frame(4,5) [OF assms(1)] by (cases i) simp_all

lemma items_ok_apply_item:
  "\<forall>i \<in> set (it # items). item_ok objs i \<Longrightarrow> distinct (map item_ref (it # items)) \<Longrightarrow>
     \<forall>i \<in> set items. item_ok (apply_item it objs) i"
  by (metis item_ok_apply_item distinct.simps(2) image_eqI list.set_intros list.set_map list.simps(9))

lemma parse_loop_items:
  "\<forall>it \<in> set items. item_ok objs it \<Longrightarrow> distinct (map item_ref items) \<Longrightarrow> names_ok objs \<Longrightarrow> \<forall>a \<in> set objs. count_inv a \<Longrightarrow>
   set al = {..<length objs} \<Longrightarrow> \<not> ps_ignoreRest s \<Longrightarrow> ps_delimiter s = CHR '' '' \<Longrightarrow>
   ps_i s = length xs \<Longrightarrow> ps_args s = xs @ render objs items \<Longrightarrow>
     parse_loop al [] m objs s =
       Inr (m + sum_list (map (\<lambda>it. counts_once (objs ! item_ref it)) items), fold apply_item items objs, s\<lparr>ps_i := length (ps_args s)\<rparr>)"
proof (induction items arbitrary: objs s xs m)
  case Nil
  then show ?case by (subst parse_loop.simps) (simp add: render_def)
next
  case (Cons it items)
  let ?o = "apply_item it objs"
  let ?w = "item_words objs it"
  let ?s1 = "s\<lparr>ps_i := ps_i s + length ?w - 1\<rparr>"
  have ok: "item_ok objs it" using Cons.prems(1) by simp
  have w0: "0 < length ?w" by (cases it) simp_all
  have args: "ps_args s = xs @ ?w @ render objs items" using Cons.prems(9) by (simp add: render_def)
  have step: "parse_word al [] objs s = Inr (counts_once (objs ! item_ref it), ?o, ?s1)"
    using parse_word_item [OF ok Cons.prems(3-8) args] .
  have "parse_loop al [] m objs s = parse_loop al [] (m + counts_once (objs ! item_ref it)) ?o (?s1\<lparr>ps_i := ps_i ?s1 + 1\<rparr>)"
    using step args Cons.prems(8) w0 by (subst parse_loop.simps) simp
  also have "?s1\<lparr>ps_i := ps_i ?s1 + 1\<rparr> = s\<lparr>ps_i := length (xs @ ?w)\<rparr>" using Cons.prems(8) w0 by simp
  also have "parse_loop al [] (m + counts_once (objs ! item_ref it)) ?o (s\<lparr>ps_i := length (xs @ ?w)\<rparr>) =
      Inr (m + counts_once (objs ! item_ref it) + sum_list (map (\<lambda>it. counts_once (?o ! item_ref it)) items),
           fold apply_item items ?o, s\<lparr>ps_i := length (ps_args s)\<rparr>)"
  proof -
    have "\<forall>i \<in> set items. item_ok ?o i" using items_ok_apply_item Cons.prems(1,2) by blast
    moreover have "render ?o items = render objs items"
      using render_apply_item [OF ok] Cons.prems(1) item_ref_bound by simp
    ultimately show ?thesis
      using Cons.IH [of ?o "s\<lparr>ps_i := length (xs @ ?w)\<rparr>" "xs @ ?w"] Cons.prems apply_item_frame [OF ok] args by (simp add: render_def)
  qed
  also have "map (\<lambda>it. counts_once (?o ! item_ref it)) items = map (\<lambda>it. counts_once (objs ! item_ref it)) items"
    using spell_apply_item(2) [OF ok] Cons.prems(1) item_ref_bound by simp
  finally show ?case by (simp add: add.assoc)
qed

lemma fold_apply_items:
  "\<forall>it \<in> set items. item_ok objs it \<Longrightarrow> distinct (map item_ref items) \<Longrightarrow>
     (\<forall>it \<in> set items. fold apply_item items objs ! item_ref it = item_effect (objs ! item_ref it) it) \<and>
     (\<forall>k. k \<notin> item_ref ` set items \<longrightarrow> fold apply_item items objs ! k = objs ! k)"
proof (induction items arbitrary: objs)
  case (Cons it items)
  let ?o = "apply_item it objs"
  have ok: "item_ok objs it" using Cons.prems(1) by simp
  have "\<forall>i \<in> set items. item_ok ?o i" using items_ok_apply_item Cons.prems by blast
  then have IH: "\<forall>i \<in> set items. fold apply_item items ?o ! item_ref i = item_effect (?o ! item_ref i) i"
    "\<forall>k. k \<notin> item_ref ` set items \<longrightarrow> fold apply_item items ?o ! k = ?o ! k"
    using Cons.IH [of ?o] Cons.prems(2) by auto
  have "item_ref it \<notin> item_ref ` set items" using Cons.prems(2) by simp
  then have first: "fold apply_item items ?o ! item_ref it = item_effect (objs ! item_ref it) it"
    using IH(2) item_ref_bound [OF ok] by (simp add: apply_item_def)
  have "fold apply_item items ?o ! item_ref i = item_effect (objs ! item_ref i) i" if "i \<in> set items" for i
    using IH(1) that apply_item_frame(5) [OF ok, of "item_ref i"] \<open>item_ref it \<notin> item_ref ` set items\<close> by (metis image_eqI)
  then show ?case using first IH(2) apply_item_frame(5) [OF ok] by auto
qed simp

lemma counts_once_sum:
  assumes "distinct (map item_ref items)" "\<And>it. it \<in> set items \<Longrightarrow> item_ref it < length objs"
    "\<And>k. k < length objs \<Longrightarrow> a_required (objs ! k) \<Longrightarrow> k \<in> item_ref ` set items"
  shows "sum_list (map (\<lambda>it. counts_once (objs ! item_ref it)) items) = sum_list (map counts_once objs)"
proof -
  have "sum_list (map (\<lambda>it. counts_once (objs ! item_ref it)) items) = (\<Sum>k \<in> set (map item_ref items). counts_once (objs ! k))"
    using sum_list_distinct_conv_sum_set [OF assms(1), of "\<lambda>k. counts_once (objs ! k)"] by (simp add: comp_def)
  also have "\<dots> = (\<Sum>k \<in> {0..<length objs}. counts_once (objs ! k))"
    using assms(2,3) by (intro sum.mono_neutral_left) (auto simp: counts_once_def)
  also have "\<dots> = sum_list (map counts_once objs)" by (simp add: sum_list_sum_nth)
  finally show ?thesis .
qed

definition value_type_of :: "tclap_arg \<Rightarrow> value_type" where
  "value_type_of a = (case a_kind a of Value ty v d td con \<Rightarrow> ty | _ \<Rightarrow> T_string)"

lemma item_effect_value:
  assumes "item_ok objs (Opt r l t)"
  shows "ExtractValue (value_type_of (objs ! r)) (ValueArg_getValue (objs ! r)) t =
      Inr (ValueArg_getValue (item_effect (objs ! r) (Opt r l t)))"
proof -
  obtain ty v d td con where k: "a_kind (objs ! r) = Value ty v d td con" using assms by (auto simp: is_value_def)
  then obtain w where w: "checked_value (objs ! r) ty con v t = Inr w"
    using assms by (auto simp: ValueArg_extractValue_def rbind_eq_Inr)
  then show ?thesis
    using k checked_value_Inr [OF w] by (simp add: value_type_of_def ValueArg_getValue_def ValueArg_extractValue_def)
qed

lemma item_effect_switch:
  "item_ok objs (Flg r l) \<Longrightarrow> SwitchArg_getValue (item_effect (objs ! r) (Flg r l)) = (\<not> SwitchArg_getValue (objs ! r))"
  by (auto simp: is_switch_def SwitchArg_getValue_def)

lemma parse_rendered:
  assumes "fresh_cmdline c" "names_ok (cl_objs c)" "cl_delimiter c = CHR '' ''"
    "\<forall>it \<in> set items. item_ok (cl_objs c) it" "distinct (map item_ref items)"
    "\<And>k. k < length (cl_objs c) \<Longrightarrow> a_required (cl_objs c ! k) \<Longrightarrow> k \<in> item_ref ` set items"
  shows "\<exists>c'. parse u False c (prog # render (cl_objs c) items) = Returns c' False \<and>
    (\<forall>r l t. Opt r l t \<in> set items \<longrightarrow>
       ExtractValue (value_type_of (cl_objs c ! r)) (ValueArg_getValue (cl_objs c ! r)) t = Inr (ValueArg_getValue (cl_objs c' ! r))) \<and>
    (\<forall>r l. Flg r l \<in> set items \<longrightarrow> SwitchArg_getValue (cl_objs c' ! r) = (\<not> SwitchArg_getValue (cl_objs c ! r))) \<and>
    (\<forall>k. k \<notin> item_ref ` set items \<longrightarrow> cl_objs c' ! k = cl_objs c ! k)"
proof -
  let ?o = "fold apply_item items (cl_objs c)"
  let ?s = "\<lparr>ps_i = 0, ps_args = render (cl_objs c) items, ps_ignoreRest = False, ps_delimiter = cl_delimiter c, ps_uninit = u\<rparr>"
  let ?c = "c\<lparr>cl_objs := ?o, cl_progName := prog\<rparr>"
  have fc: "set (cl_argList c) = {..<length (cl_objs c)}" "cl_orList c = []" "\<forall>a \<in> set (cl_objs c). count_inv a"
    "cl_numRequired c = sum_list (map counts_once (cl_objs c))"
    using assms(1) by (auto simp: fresh_cmdline_def counts_once_def [abs_def])
  have "parse_loop (cl_argList c) [] 0 (cl_objs c) ?s = Inr (cl_numRequired c, ?o, ?s\<lparr>ps_i := length (render (cl_objs c) items)\<rparr>)"
    using parse_loop_items [OF assms(4,5,2) fc(3,1), of ?s "[]" 0] counts_once_sum [OF assms(5) _ assms(6)]
      assms(3,4) item_ref_bound fc(4) by simp
  then have "parse u False c (prog # render (cl_objs c) items) = Returns ?c False"
    using fc(2) by (simp add: parse_def parse_body_def)
  moreover have "?o ! item_ref it = item_effect (cl_objs c ! item_ref it) it" if "it \<in> set items" for it
    using fold_apply_items [OF assms(4,5)] that by blast
  ultimately show ?thesis
    using fold_apply_items [OF assms(4,5)] item_effect_value [of "cl_objs c"] item_effect_switch [of "cl_objs c"] assms(4)
    by (intro exI [of _ ?c]) fastforce
qed

text \<open>
  C12. Rendering and parsing: for any choice of distinct options and switches that contains the required
  ones, in any order and spelling, \<open>parse\<close> returns; every chosen option holds the value read from its
  text, every chosen switch has flipped, and all other arguments are as declared.
\<close>

theorem parse_render:
  assumes "fresh_cmdline c" "names_ok (cl_objs c)" "cl_delimiter c = CHR '' ''"
    "\<forall>it \<in> set items. item_ok (cl_objs c) it" "distinct (map item_ref items)"
    "\<And>k. k < length (cl_objs c) \<Longrightarrow> a_required (cl_objs c ! k) \<Longrightarrow> k \<in> item_ref ` set items"
  shows "\<exists>c'. parse u False c (prog # render (cl_objs c) items) = Returns c' False \<and>
    (\<forall>r l t. Opt r l t \<in> set items \<longrightarrow>
       ExtractValue (value_type_of (cl_objs c ! r)) (ValueArg_getValue (cl_objs c ! r)) t = Inr (ValueArg_getValue (cl_objs c' ! r))) \<and>
    (\<forall>r l. Flg r l \<in> set items \<longrightarrow> SwitchArg_getValue (cl_objs c' ! r) = (\<not> SwitchArg_getValue (cl_objs c ! r))) \<and>
    (\<forall>k. k \<notin> item_ref ` set items \<longrightarrow> cl_objs c' ! k = cl_objs c ! k)"
  by (rule parse_rendered [OF assms])

subsection \<open>Numbers on the command line\<close>

lemma is_digit_plain: "is_digit_of b c \<Longrightarrow> \<not> isspace c \<and> c \<noteq> CHR ''-'' \<and> c \<noteq> CHR ''+''"
  by (auto simp: is_digit_of_def digit_value_def isspace_def Let_def split: if_splits)

lemma sign_of_digits: "s \<noteq> [] \<Longrightarrow> is_digit_of b (hd s) \<Longrightarrow> sign_of (dropWhile isspace s) = (1, s)"
  using is_digit_plain [of b "hd s"] by (cases s) (auto simp: sign_of_def)

lemma not_hex_prefixed: "\<forall>c \<in> set s. is_digit_of 10 c \<Longrightarrow> \<not> hex_prefixed s"
  by (auto simp: hex_prefixed_def is_digit_of_def digit_value_def split: list.splits)

lemma base_of_dec_digits: "0 < n \<Longrightarrow> base_of (dec_digits n) = (10, dec_digits n)"
  using not_hex_prefixed [of "dec_digits n"] dec_digits_all hd_dec_digits by (auto simp: base_of_def)

lemma extract_number_dec:
  assumes "n \<noteq> 0" and "fits_type ty (sgn n) (nat \<bar>n\<bar>)" and "stored_number ty n = n"
  shows "extract_number ty (dec_int n) = Some (n, [])"
proof -
  have d: "is_digit_of 10 (hd (dec_digits m))" for m by (rule dec_digits_all [of _ m]) simp
  have "sign_of (dropWhile isspace (dec_int n)) = (sgn n, dec_digits (nat \<bar>n\<bar>))"
    using assms(1) sign_of_digits [OF _ d] by (auto simp: dec_int_def sign_of_def isspace_def)
  then show ?thesis
    using assms base_of_dec_digits [of "nat \<bar>n\<bar>"]
    by (auto simp: extract_number_def takeWhile_dec_digits digits_value_dec_digits sgn_if)
qed

lemma extract_values_one:
  assumes "s \<noteq> []" and "extract_number ty s = Some (v, [])" and "ty \<noteq> T_char" "ty \<noteq> T_uchar"
  shows "extract_values ty s = Some [VNum v]"
  using assms by (simp add: extract_values.simps [of ty s] extract_values.simps [of ty "[]"] extract_one_def)

lemma digit_not_nul: "is_digit_of b c \<Longrightarrow> c \<noteq> nul"
  by (auto simp: is_digit_of_def digit_value_def)

lemma nul_notin_digits [simp]: "nul \<notin> set (dec_int n)" "nul \<notin> set (hex_digits m)"
  by (auto simp: dec_int_def dest: dec_digits_all hex_digits_all digit_not_nul)

text \<open>
  Numbers round trip through the command line: every \<open>int\<close> written in decimal and every 32-bit word
  written in hexadecimal with its prefix is read back as it is.
\<close>

theorem ExtractValue_numbers:
  assumes "- (2 ^ 31) \<le> n" and "n < 2 ^ 31"
  shows "ExtractValue T_int old (dec_int n) = Inr (VNum n) \<and>
    ExtractValue T_uint old (showbase_hex (unat (w :: 32 word))) = Inr (VNum (uint w))"
proof
  show "ExtractValue T_int old (dec_int n) = Inr (VNum n)"
  proof (cases "n = 0")
    case True
    have "ExtractValue T_int old ''0'' = Inr (VNum 0)" by code_simp
    moreover have "dec_int 0 = ''0''" by code_simp
    ultimately show ?thesis using True by simp
  next
    case False
    then have "extract_number T_int (dec_int n) = Some (n, [])"
      using assms by (intro extract_number_dec) (auto simp: fits_type_def stored_number_def sgn_if)
    moreover have "dec_int n \<noteq> []" by (simp add: dec_int_def)
    ultimately show ?thesis by (simp add: ExtractValue_def extract_values_one)
  qed
next
  let ?m = "unat w"
  show "ExtractValue T_uint old (showbase_hex ?m) = Inr (VNum (uint w))"
  proof (cases "?m = 0")
    case True
    then have w: "w = 0" by (simp add: unat_eq_0)
    have "extract_number T_uint ''0'' = Some (0, [])"
      by (simp add: extract_number_def sign_of_def isspace_def base_of_def hex_prefixed_def is_digit_of_def digit_value_def
          digits_value_def fits_type_def stored_number_def)
    then show ?thesis unfolding w by (simp add: ExtractValue_def showbase_hex_def extract_values_one)
  next
    case False
    have t: "takeWhile (is_digit_of 16) (hex_digits ?m) = hex_digits ?m"
      by (simp add: takeWhile_eq_all_conv hex_digits_all)
    have h: "hex_prefixed (CHR ''0'' # CHR ''x'' # hex_digits ?m)" using hex_prefixed_hex [of ?m "[]"] by simp
    have "uint w mod 2 ^ 32 = uint w" using unsigned_less [of w, where ?'a = int] by simp
    moreover have "?m < 2 ^ 32" using unsigned_less [of w, where ?'a = nat] by simp
    ultimately have "extract_number T_uint (''0x'' @ hex_digits ?m) = Some (uint w, [])"
      by (simp add: extract_number_def sign_of_def isspace_def base_of_def h t digits_value_hex_digits fits_type_def stored_number_def)
    then show ?thesis using False extract_values_one [of "''0x'' @ hex_digits ?m" T_uint]
      by (simp add: ExtractValue_def showbase_hex_def)
  qed
qed

theorem ExtractValue_numbers_witness:
  "ExtractValue T_int (VNum 0) (dec_int (- 12)) = Inr (VNum (- 12)) \<and>
   ExtractValue T_uint (VNum 0) (showbase_hex (unat (0xFFFF0000 :: 32 word))) = Inr (VNum (uint (0xFFFF0000 :: 32 word)))"
  by (rule ExtractValue_numbers) simp_all

text \<open>
  Every value of every type, shown the way \<open>ValuesConstraint\<close> lists it, is read back as it is. A white
  space character is the exception, because reading skips it, and NUL, because the C string ends at it.
\<close>

lemma extract_number_shown:
  assumes "fits_type ty (sgn n) (nat \<bar>n\<bar>)" and "stored_number ty n = n"
  shows "extract_number ty (dec_int n) = Some (n, [])"
proof (cases "n = 0")
  case True
  moreover have "dec_int 0 = ''0''" by code_simp
  moreover have "fits_type ty 1 0" using assms(1) True by (cases ty) (simp_all add: fits_type_def)
  ultimately show ?thesis using assms(2)
    by (simp add: extract_number_def sign_of_def isspace_def base_of_def hex_prefixed_def is_digit_of_def digit_value_def
        digits_value_def)
qed (rule extract_number_dec [OF _ assms])

theorem ExtractValue_shown:
  assumes "has_type ty v" and "\<And>c. ty = T_char \<or> ty = T_uchar \<Longrightarrow> v = VString [c] \<Longrightarrow> \<not> isspace c \<and> c \<noteq> nul"
  shows "ExtractValue ty old (show_value v) = Inr v"
proof -
  have number: "ExtractValue ty old (dec_int n) = Inr (VNum n)"
    if "ty \<noteq> T_string" "ty \<noteq> T_char" "ty \<noteq> T_uchar" "fits_type ty (sgn n) (nat \<bar>n\<bar>)" "stored_number ty n = n" for n
  proof -
    have "dec_int n \<noteq> []" by (simp add: dec_int_def)
    then show ?thesis using extract_values_one [OF _ extract_number_shown] that by (simp add: ExtractValue_def)
  qed
  have char: "ExtractValue ty old [c] = Inr (VString [c])" if "ty = T_char \<or> ty = T_uchar" "\<not> isspace c" "c \<noteq> nul" for c
  proof -
    have "c_str [c] = [c]" using that(3) by simp
    moreover have "extract_values ty [c] = Some [VString [c]]"
      using that(1,2) by (auto simp: extract_values.simps [of ty "[c]"] extract_values.simps [of ty "[]"] extract_one_def)
    ultimately show ?thesis using that(1) by (auto simp: ExtractValue_def)
  qed
  show ?thesis
  proof (cases v)
    case (VString s)
    consider "ty = T_string" | c where "ty = T_char \<or> ty = T_uchar" "v = VString [c]"
      using assms(1) VString by (cases ty) auto
    then show ?thesis
    proof cases
      case 1
      then show ?thesis by (simp add: VString ExtractValue_def)
    next
      case (2 c)
      then show ?thesis using assms(2) [OF 2] char by simp
    qed
  next
    case (VNum n)
    then have "fits_type ty (sgn n) (nat \<bar>n\<bar>)" "stored_number ty n = n"
      using assms(1) by (cases ty; force simp: fits_type_def stored_number_def sgn_if)+
    moreover have "ty \<noteq> T_string" "ty \<noteq> T_char" "ty \<noteq> T_uchar" using VNum assms(1) by (cases ty; force)+
    ultimately show ?thesis using VNum by (simp add: number)
  qed
qed

theorem ExtractValue_shown_witness:
  "ExtractValue T_ushort (VNum 7) (show_value (VNum 65535)) = Inr (VNum 65535) \<and>
   ExtractValue T_char (VNum 7) (show_value (VString ''x'')) = Inr (VString ''x'')"
  using ExtractValue_shown [of T_ushort "VNum 65535" "VNum 7"] ExtractValue_shown [of T_char "VString ''x''" "VNum 7"]
  by (simp add: isspace_def)

end
