(* ===== verification/Programs.thy ===== *)
theory Programs
  imports Console AsyncCapture TclapRoundtrip
begin

text \<open>
  The six programs of \<open>src/server/main\<close>. Each \<open>main\<close> declares its command line, parses it, reads the
  values and works on an \<open>ODILEServer\<close>. A program gets the words of \<open>argv\<close>; programs that start a
  receiving thread also get, for every \<open>sleep\<close>, the steps that the threads make meanwhile.
\<close>

subsection \<open>From the command line to the options\<close>

text \<open>
  The \<open>try\<close> block: an \<open>ArgException\<close> out of a constructor or out of \<open>parse\<close> is caught, and the program
  goes on with the initial values; \<open>Stop\<close> is \<open>exit\<close> inside \<open>parse\<close>.
\<close>

datatype 'o main_options = Go 'o | Stop_main int | Loops | Undefined_start

definition options_of :: "CmdLine res \<Rightarrow> arg_value \<Rightarrow> string list \<Rightarrow> 'o \<Rightarrow> (CmdLine \<Rightarrow> 'o) \<Rightarrow> 'o main_options" where
  "options_of cmd uninit argv initial values =
     (case cmd of
        Inl e \<Rightarrow> Go initial
      | Inr c \<Rightarrow>
          (case parse_argv uninit False c argv of
             Returns c' ign \<Rightarrow> Go (values c')
           | Exits n \<Rightarrow> Stop_main n
           | Raises e \<Rightarrow> Go initial
           | Hangs \<Rightarrow> Loops
           | Undefined \<Rightarrow> Undefined_start))"

text \<open>The objects added after the three default switches: the \<open>k\<close>-th argument of a program.\<close>

definition program_arg :: "CmdLine \<Rightarrow> nat \<Rightarrow> tclap_arg" where
  "program_arg c k = cl_objs c ! (k + 3)"

definition string_value :: "CmdLine \<Rightarrow> nat \<Rightarrow> string" where
  "string_value c k = (case ValueArg_getValue (program_arg c k) of VString s \<Rightarrow> s | VNum n \<Rightarrow> [])"

definition int_value :: "CmdLine \<Rightarrow> nat \<Rightarrow> int" where
  "int_value c k = (case ValueArg_getValue (program_arg c k) of VNum n \<Rightarrow> n | VString s \<Rightarrow> 0)"

definition switch_value :: "CmdLine \<Rightarrow> nat \<Rightarrow> bool" where
  "switch_value c k = SwitchArg_getValue (program_arg c k)"

definition string_arg :: "string \<Rightarrow> string \<Rightarrow> string \<Rightarrow> bool \<Rightarrow> string \<Rightarrow> CmdLine \<Rightarrow> CmdLine res" where
  "string_arg flag nm desc req val = construct (ValueArg_new flag nm desc req T_string (VString val) ''string'' NoVisitor)"

definition number_arg :: "value_type \<Rightarrow> string \<Rightarrow> string \<Rightarrow> string \<Rightarrow> int \<Rightarrow> string \<Rightarrow> CmdLine \<Rightarrow> CmdLine res" where
  "number_arg ty flag nm desc val typeDesc = construct (ValueArg_new flag nm desc False ty (VNum val) typeDesc NoVisitor)"

definition switch_arg :: "string \<Rightarrow> string \<Rightarrow> string \<Rightarrow> CmdLine \<Rightarrow> CmdLine res" where
  "switch_arg flag nm desc = construct (SwitchArg_new flag nm desc False NoVisitor)"

definition declare_args :: "CmdLine res \<Rightarrow> (CmdLine \<Rightarrow> CmdLine res) list \<Rightarrow> CmdLine res" where
  "declare_args c ds = foldl rbind c ds"

text \<open>The local server object of a program that starts no thread: the destructor closes the two clients.\<close>

definition server_delete :: "ODILEServer \<Rightarrow> unit io" where
  "server_delete srv = bind_io (udp_client_delete (cmdClient srv)) (\<lambda>_. udp_client_delete (configClient srv))"

definition with_server :: "string \<Rightarrow> (ODILEServer \<Rightarrow> 'a io) \<Rightarrow> 'a io" where
  "with_server addr body = with_object (ODILEServer_new addr) server_delete body"

text \<open>What a program does: \<open>body\<close> with its options, or nothing at all.\<close>

definition run_main :: "'o main_options \<Rightarrow> 'a \<Rightarrow> ('o \<Rightarrow> (int \<times> 'a) io) \<Rightarrow> (int \<times> 'a) io" where
  "run_main opts nothing body =
     (case opts of
        Go opt \<Rightarrow> body opt
      | Stop_main n \<Rightarrow> ret_io (n, nothing)
      | Loops \<Rightarrow> (\<lambda>w. (Blocks, w))
      | Undefined_start \<Rightarrow> (\<lambda>w. (UB ''args.front() of an empty vector'', w)))"

subsection \<open>\<open>write_config\<close>\<close>

definition PageConstraint :: constraint where
  "PageConstraint =
     \<lparr>c_check = (\<lambda>v. case v of VNum n \<Rightarrow> 0 \<le> n \<and> n \<le> 9 | VString s \<Rightarrow> False),
      c_description = ''Page value must be in range [0,9]'', c_shortID = ''int''\<rparr>"

record write_config_options =
  wc_ipAddress :: string
  wc_configFname :: string
  wc_enableDebug :: bool
  wc_writeDefault :: bool
  wc_flashConfig :: bool
  wc_configPage :: int

definition write_config_cmdline :: "CmdLine res" where
  "write_config_cmdline =
     declare_args
       (CmdLine_new ''Simple c++ program to write configuration data to an ODILE board over Ethernet'' (CHR '' '') ''0.1'' True)
       [string_arg ''i'' ''ip'' ''IP address to send config data to'' False ''192.168.0.3'',
        string_arg ''c'' ''config'' ''Configuration file to read from'' False ''config.ini'',
        switch_arg ''d'' ''debug'' ''Enable debug output'',
        switch_arg ''w'' ''write'' ''Regenerate default.ini file'',
        switch_arg ''f'' ''flash'' ''Write the configuration to flash'',
        construct (ValueArg_new_constrained ''p'' ''page'' ''Config page'' False T_int (VNum 0) PageConstraint NoVisitor)]"

definition write_config_values :: "CmdLine \<Rightarrow> write_config_options" where
  "write_config_values c =
     \<lparr>wc_ipAddress = string_value c 0, wc_configFname = string_value c 1, wc_enableDebug = switch_value c 2,
      wc_writeDefault = switch_value c 3, wc_flashConfig = switch_value c 4, wc_configPage = int_value c 5\<rparr>"

definition write_config_initial :: write_config_options where
  "write_config_initial =
     \<lparr>wc_ipAddress = ''192.168.0.3'', wc_configFname = ''config.ini'', wc_enableDebug = False, wc_writeDefault = False,
      wc_flashConfig = False, wc_configPage = 0\<rparr>"

definition write_config_opts :: "arg_value \<Rightarrow> string list \<Rightarrow> write_config_options main_options" where
  "write_config_opts uninit argv = options_of write_config_cmdline uninit argv write_config_initial write_config_values"

text \<open>
  The debug output: the messages of block 0, and the first half of the bytes of the messages of block 2
  (the count is in 16-bit values, the messages are 32-bit words).
\<close>

definition debug_text :: "ConfigBlockList \<Rightarrow> string" where
  "debug_text l =
     concat (map (\<lambda>m. printHex 4 (bytes_of_word m) @ [newline]) (config_messages (cb_blocks l ! 0))) @
     printHex (length (config_messages (cb_blocks l ! 2)) * 2) (bytes_of_words (config_messages (cb_blocks l ! 2)))"

text \<open>The files and the debug output afterwards; \<open>wr\<close>: \<open>default.ini\<close> can be written.\<close>

definition write_config_body :: "files \<Rightarrow> bool \<Rightarrow> write_config_options \<Rightarrow> (int \<times> files \<times> string) io" where
  "write_config_body fs wr opt =
     with_server (wc_ipAddress opt) (\<lambda>server.
       bind_io
         (if wc_flashConfig opt then writeFlashConfig_file fs server (wc_configPage opt) (wc_configFname opt)
          else sendConfigData_file fs (wc_configFname opt) server) (\<lambda>(_, server1).
         let (fs1, l) =
               (if wc_writeDefault opt
                then case list_writeINI fs wr ''default.ini'' (configBlocks server1) of (_, fs', l) \<Rightarrow> (fs', l)
                else (fs, configBlocks server1))
         in ret_io (0, fs1, if wc_enableDebug opt then debug_text l else [])))"

definition write_config_main :: "files \<Rightarrow> bool \<Rightarrow> arg_value \<Rightarrow> string list \<Rightarrow> (int \<times> files \<times> string) io" where
  "write_config_main fs wr uninit argv = run_main (write_config_opts uninit argv) (fs, []) (write_config_body fs wr)"

subsection \<open>\<open>write_data\<close>\<close>

record write_data_options =
  wd_ipAddress :: string
  wd_inFname :: string
  wd_port :: int
  wd_enableDebug :: bool

definition write_data_cmdline :: "CmdLine res" where
  "write_data_cmdline =
     declare_args
       (CmdLine_new ''Simple c++ program to write data to an ODILE board over Ethernet'' (CHR '' '') ''0.1'' True)
       [string_arg ''i'' ''ip'' ''IP address to send data to'' False ''192.168.0.3'',
        string_arg ''f'' ''file'' ''Configuration file to read from'' True '''',
        number_arg T_int ''p'' ''port'' ''UDP port to send data to'' 0x2000 ''int'',
        switch_arg ''d'' ''debug'' ''Enable debug output'']"

definition write_data_values :: "CmdLine \<Rightarrow> write_data_options" where
  "write_data_values c =
     \<lparr>wd_ipAddress = string_value c 0, wd_inFname = string_value c 1, wd_port = int_value c 2, wd_enableDebug = switch_value c 3\<rparr>"

definition write_data_initial :: write_data_options where
  "write_data_initial = \<lparr>wd_ipAddress = ''192.168.0.3'', wd_inFname = '''', wd_port = 0x2000, wd_enableDebug = False\<rparr>"

definition write_data_opts :: "arg_value \<Rightarrow> string list \<Rightarrow> write_data_options main_options" where
  "write_data_opts uninit argv = options_of write_data_cmdline uninit argv write_data_initial write_data_values"

definition write_data_body :: "files \<Rightarrow> write_data_options \<Rightarrow> (int \<times> unit) io" where
  "write_data_body fs opt =
     with_server (wd_ipAddress opt) (\<lambda>server.
       bind_io (sendData_file fs server (wd_inFname opt) (wd_port opt)) (\<lambda>_. ret_io (0, ())))"

definition write_data_main :: "files \<Rightarrow> arg_value \<Rightarrow> string list \<Rightarrow> (int \<times> unit) io" where
  "write_data_main fs uninit argv = run_main (write_data_opts uninit argv) () (write_data_body fs)"

subsection \<open>\<open>write_firmware\<close>\<close>

record write_firmware_options =
  wf_ipAddress :: string
  wf_mapFile :: string
  wf_rpdFile :: string
  wf_startAddress :: int
  wf_forceWrite :: bool

definition write_firmware_cmdline :: "CmdLine res" where
  "write_firmware_cmdline =
     declare_args
       (CmdLine_new ''Program to write new firmware to an ODILE flash memory over Ethernet'' (CHR '' '') ''0.1'' True)
       [string_arg ''i'' ''ip'' ''IP address to send config data to'' False ''192.168.0.3'',
        string_arg ''m'' ''map'' ''.map file to read end address from'' False '''',
        string_arg ''f'' ''file'' ''.rpd file containing firmware'' True '''',
        number_arg T_uint ''a'' ''address'' ''Start address (in bytes) to write firmware to'' 0x01000000 ''uint32_t'',
        switch_arg '''' ''force'' ''Force write to address'']"

definition write_firmware_values :: "CmdLine \<Rightarrow> write_firmware_options" where
  "write_firmware_values c =
     \<lparr>wf_ipAddress = string_value c 0, wf_mapFile = string_value c 1, wf_rpdFile = string_value c 2,
      wf_startAddress = int_value c 3, wf_forceWrite = switch_value c 4\<rparr>"

definition write_firmware_initial :: write_firmware_options where
  "write_firmware_initial =
     \<lparr>wf_ipAddress = ''192.168.0.3'', wf_mapFile = '''', wf_rpdFile = '''', wf_startAddress = 0x01000000, wf_forceWrite = False\<rparr>"

definition write_firmware_opts :: "arg_value \<Rightarrow> string list \<Rightarrow> write_firmware_options main_options" where
  "write_firmware_opts uninit argv = options_of write_firmware_cmdline uninit argv write_firmware_initial write_firmware_values"

text \<open>\<open>rpdFile.find(".rpd")\<close>, and the name of the map file with the extension replaced.\<close>

fun find_substring :: "string \<Rightarrow> string \<Rightarrow> nat option" where
  "find_substring pat [] = (if pat = [] then Some 0 else None)"
| "find_substring pat (c # s) =
     (if take (length pat) (c # s) = pat then Some 0 else map_option Suc (find_substring pat s))"

definition map_file_name :: "write_firmware_options \<Rightarrow> string outcome" where
  "map_file_name opt =
     (if wf_mapFile opt \<noteq> [] then Done (wf_mapFile opt)
      else case find_substring ''.rpd'' (wf_rpdFile opt) of
             Some idx \<Rightarrow> Done (take idx (wf_rpdFile opt) @ ''.map'' @ drop (idx + 4) (wf_rpdFile opt))
           | None \<Rightarrow> Throws ''std::out_of_range'')"

text \<open>The check of the address only prints a warning.\<close>

definition address_warning :: "write_firmware_options \<Rightarrow> bool" where
  "address_warning opt \<longleftrightarrow> wf_startAddress opt \<noteq> 0x1000000 \<and> \<not> wf_forceWrite opt"

definition write_firmware_body :: "files \<Rightarrow> write_firmware_options \<Rightarrow> (int \<times> bool) io" where
  "write_firmware_body fs opt =
     bind_io (\<lambda>w. (map_file_name opt, w)) (\<lambda>mapFile.
       with_server (wf_ipAddress opt) (\<lambda>server.
         bind_io (writeFirmware fs (setServerAddress server ''192.168.0.1'') (wf_rpdFile opt) mapFile
                    (word_of_int (wf_startAddress opt)))
           (\<lambda>_. ret_io (0, address_warning opt))))"

definition write_firmware_main :: "files \<Rightarrow> arg_value \<Rightarrow> string list \<Rightarrow> (int \<times> bool) io" where
  "write_firmware_main fs uninit argv = run_main (write_firmware_opts uninit argv) False (write_firmware_body fs)"

subsection \<open>Programs with receiving threads\<close>

text \<open>
  The main thread works on the process of theory \<open>AsyncThreads\<close>. \<open>on_net\<close> runs an operation on the
  network; the events its receive calls meet are an argument. \<open>sleep\<close> lets the threads make the given steps.
\<close>

definition on_net :: "rx_event list \<Rightarrow> 'a io \<Rightarrow> process \<Rightarrow> ('a \<times> process) outcome" where
  "on_net evs m p =
     (case m ((os p)\<lparr>rx := evs\<rparr>) of
        (Done a, w) \<Rightarrow> Done (a, p\<lparr>os := w\<rparr>)
      | (Throws e, w) \<Rightarrow> Throws e
      | (UB e, w) \<Rightarrow> UB e
      | (Blocks, w) \<Rightarrow> Blocks)"

type_synonym schedule = "(nat \<times> rx_event) list"

fun sleep :: "schedule \<Rightarrow> process \<Rightarrow> process outcome" where
  "sleep [] p = Done p"
| "sleep ((i, ev) # sched) p =
     (if i < length (thread_vec p) then obind (thread_step ev i p) (sleep sched) else sleep sched p)"

definition start_server :: "bool \<Rightarrow> string \<Rightarrow> net \<Rightarrow> process outcome" where
  "start_server fits addr w =
     (case ODILEServer_new addr w of
        (Done srv, w1) \<Rightarrow>
          Done \<lparr>cfitsio = fits, arg_heap = (\<lambda>_. None), fresh_ptr = 0, odile = srv, thread_vec = [], os = w1\<rparr>
      | (Throws e, w1) \<Rightarrow> Throws e
      | (UB e, w1) \<Rightarrow> UB e
      | (Blocks, w1) \<Rightarrow> Blocks)"

definition run_main_threads :: "'o main_options \<Rightarrow> 'a \<Rightarrow> ('o \<Rightarrow> (int \<times> 'a \<times> process option) outcome) \<Rightarrow> (int \<times> 'a \<times> process option) outcome" where
  "run_main_threads opts nothing body =
     (case opts of
        Go opt \<Rightarrow> body opt
      | Stop_main n \<Rightarrow> Done (n, nothing, None)
      | Loops \<Rightarrow> Blocks
      | Undefined_start \<Rightarrow> UB ''args.front() of an empty vector'')"

text \<open>The end of \<open>main\<close>: the server object is destroyed.\<close>

definition finish :: "int \<Rightarrow> 'a \<Rightarrow> process \<Rightarrow> (int \<times> 'a \<times> process option) outcome" where
  "finish status a p = obind (ODILEServer_delete p) (\<lambda>p'. Done (status, a, Some p'))"

subsection \<open>\<open>read_data\<close>\<close>

record read_data_options =
  rd_port :: int
  rd_npack :: int
  rd_outFname :: string
  rd_ipAddress :: string
  rd_startAddress :: int
  rd_readEPCQ :: bool

definition read_data_cmdline :: "CmdLine res" where
  "read_data_cmdline =
     declare_args
       (CmdLine_new ''Simple c++ program to read data from an ODILE board over Ethernet. Requires specifying the UDP port to read data from and the file to dump the data to. This program is fairly old and depreciated, should only be used for debugging purposes.'' (CHR '' '') ''0.2'' True)
       [number_arg T_uint ''p'' ''port'' ''Port to recieve data on'' 0x1000 ''integer'',
        number_arg T_uint ''n'' ''number'' ''Number of packets to recieeve'' 100 ''integer'',
        string_arg ''f'' ''file'' ''File to write binary data to'' False ''out_data.bin'',
        string_arg ''i'' ''ip'' ''Ip address to bind to'' False ''192.168.0.1'',
        number_arg T_uint ''a'' ''start'' ''Start address when reading EPCQ device'' 0 ''uint32_t'',
        switch_arg ''e'' ''epcq'' ''Read automatically from EPCQ'']"

definition read_data_values :: "CmdLine \<Rightarrow> read_data_options" where
  "read_data_values c =
     \<lparr>rd_port = int_value c 0, rd_npack = int_value c 1, rd_outFname = string_value c 2, rd_ipAddress = string_value c 3,
      rd_startAddress = int_value c 4, rd_readEPCQ = switch_value c 5\<rparr>"

definition read_data_initial :: read_data_options where
  "read_data_initial =
     \<lparr>rd_port = 0x1000, rd_npack = 100, rd_outFname = ''out_data.bin'', rd_ipAddress = ''192.168.0.1'', rd_startAddress = 0,
      rd_readEPCQ = False\<rparr>"

definition read_data_opts :: "arg_value \<Rightarrow> string list \<Rightarrow> read_data_options main_options" where
  "read_data_opts uninit argv = options_of read_data_cmdline uninit argv read_data_initial read_data_values"

text \<open>\<open>unsigned int\<close> passed as \<open>int\<close>.\<close>

definition as_int :: "int \<Rightarrow> int" where
  "as_int n = sint (word_of_int n :: u32)"

text \<open>The result carries what \<open>readEPCQ\<close> wrote to the output file.\<close>

definition read_data_body ::
    "bool \<Rightarrow> rx_event list \<Rightarrow> schedule \<Rightarrow> net \<Rightarrow> read_data_options \<Rightarrow> (int \<times> byte list \<times> process option) outcome" where
  "read_data_body fits evs sched w opt =
     obind (start_server fits ''192.168.0.3'' w) (\<lambda>p.
       if rd_readEPCQ opt
       then obind (on_net evs (readEPCQ (odile p) (word_of_int (rd_startAddress opt)) (as_int (rd_npack opt))) p)
              (\<lambda>((_, bs), p1). finish 0 bs p1)
       else obind (sleep sched (snd (launchAsyncThread (rd_outFname opt) (rd_ipAddress opt) (as_int (rd_port opt)) 10 100 p)))
              (finish 0 []))"

definition read_data_main ::
    "bool \<Rightarrow> rx_event list \<Rightarrow> schedule \<Rightarrow> arg_value \<Rightarrow> string list \<Rightarrow> net \<Rightarrow> (int \<times> byte list \<times> process option) outcome" where
  "read_data_main fits evs sched uninit argv w =
     run_main_threads (read_data_opts uninit argv) [] (read_data_body fits evs sched w)"

subsection \<open>\<open>send_command\<close>\<close>

record send_command_options =
  sc_ipAddress :: string
  sc_command :: string
  sc_outFname :: string
  sc_enableDebug :: bool
  sc_waitResponse :: bool
  sc_prefix :: int
  sc_secondWord :: int

definition send_command_cmdline :: "CmdLine res" where
  "send_command_cmdline =
     declare_args
       (CmdLine_new ''Standalone C++ program to send commands to an ODILE board over Ethernet'' (CHR '' '') ''0.1'' True)
       [string_arg ''i'' ''ip'' ''IP address of ODILE to send command to'' False ''192.168.0.3'',
        string_arg ''c'' ''command'' ''Command to send to board to board. Should be 3 ASCII characters long (see documentation for list of valid commands).'' False '''',
        string_arg ''f'' ''file'' ''File to dump output to. Used when commands produce length response, such as when dumping configuration registers. '' False '''',
        switch_arg ''d'' ''debug'' ''Enable debug output'',
        switch_arg ''r'' ''response'' (''Wait for response from ODILE. Will print out simple responses to commands such as '' @ [CHR 0x27] @ ''INV'' @ [CHR 0x27] @ '' if the command is invalid.''),
        number_arg T_int ''p'' ''prefix'' ''8-bit command prefix. Allows sending 8-bit prefixes to the 24-bit commands. Used for some commands to pass in additional parameters for the command.'' 0 ''uint8_t'',
        number_arg T_uint ''w'' ''second'' ''second word to send with command. Sends a second 32-bit word after the command, used with some commands to pass in additional parameters.'' 0xFFFFFFFF ''uint32_t'']"

definition send_command_values :: "CmdLine \<Rightarrow> send_command_options" where
  "send_command_values c =
     \<lparr>sc_ipAddress = string_value c 0, sc_command = string_value c 1, sc_outFname = string_value c 2,
      sc_enableDebug = switch_value c 3, sc_waitResponse = switch_value c 4, sc_prefix = int_value c 5,
      sc_secondWord = int_value c 6\<rparr>"

definition send_command_initial :: send_command_options where
  "send_command_initial =
     \<lparr>sc_ipAddress = ''192.168.0.3'', sc_command = '''', sc_outFname = '''', sc_enableDebug = False, sc_waitResponse = False,
      sc_prefix = 0, sc_secondWord = 0xFFFFFFFF\<rparr>"

definition send_command_opts :: "arg_value \<Rightarrow> string list \<Rightarrow> send_command_options main_options" where
  "send_command_opts uninit argv = options_of send_command_cmdline uninit argv send_command_initial send_command_values"

definition servIpAddress :: string where "servIpAddress = ''192.168.0.1''"

definition buffer_commands :: "string list" where
  "buffer_commands = [''RDP'', ''RDT'', ''RDO'', ''RDF'', ''RDR'', ''RDA'', ''RDS'']"

definition is_cabac :: "string \<Rightarrow> bool" where
  "is_cabac command \<longleftrightarrow> command = ''RDC'' \<or> command = ''GCM''"

text \<open>The receiving thread a command needs, and the name of the CABAC file.\<close>

definition send_command_launch :: "send_command_options \<Rightarrow> process \<Rightarrow> string \<times> process" where
  "send_command_launch opt p =
     (let command = sc_command opt; outFname = sc_outFname opt;
          launch = (\<lambda>f port q. snd (launchAsyncThread f servIpAddress port 0 0 q));
          p1 = (if outFname \<noteq> ''''
                then if command \<in> set buffer_commands then launch outFname 0x1999 p
                     else if command = ''RDB'' then launch outFname 0x4268 p else p
                else p)
      in if is_cabac command
         then let f = (if outFname = '''' then ''temp_cabac_delete.txt'' else outFname)
              in (f, launch f (if command = ''RDC'' then 0x2100 else 0x2200) p1)
         else (outFname, p1))"

text \<open>
  What is printed. \<open>std::hex\<close> stays in force once it has been used, so the later numbers are
  hexadecimal too; \<open>asctime_of\<close> is \<open>asctime(localtime(...))\<close>.
\<close>

definition show_num :: "bool \<Rightarrow> u32 \<Rightarrow> string" where
  "show_num in_hex n = (if in_hex then hex_digits (unat n) else dec_digits (unat n))"

definition word_chars :: "u32 \<Rightarrow> string" where
  "word_chars word = map (\<lambda>j. char_of_byte (bytes_of_word word ! j)) [2, 1, 0]"

definition debug_words :: "int \<Rightarrow> u32 list \<Rightarrow> string" where
  "debug_words words_recvd data =
     ''Recieved: '' @ dec_int words_recvd @ '' words. '' @ [newline] @
     concat (map (\<lambda>x. hex_digits (unat (x AND 0x7fffff)) @ '' '') (take (nat words_recvd) data)) @ [newline]"

definition response_text :: "(u32 \<Rightarrow> string) \<Rightarrow> bool \<Rightarrow> string \<Rightarrow> int \<Rightarrow> u32 list \<Rightarrow> string outcome" where
  "response_text asctime_of debug command words_recvd data =
     (let in_hex = debug \<and> 0 < words_recvd;
          second = (\<lambda>f. if 1 < length data then Done (f (data ! 1)) else UB ''data[1] out of range'')
      in if command = ''GCT''
         then second (\<lambda>compiletime. (if debug then show_num in_hex compiletime @ [newline] else []) @
                ''Firmware was compiled at: '' @ asctime_of compiletime @ [newline])
         else if command = ''GUT''
         then second (\<lambda>uptime. ''System has been running for: '' @ show_num in_hex uptime @ '' seconds (roughly)'' @ [newline])
         else if command = ''GEC''
         then second (\<lambda>errcode. ''Error code is: 0x'' @ show_num True errcode @ [newline])
         else if data = [] then UB ''data[0] of an empty vector''
         else if command = ''GCL''
         then Done (''Valid commands are: '' @ concat (map (\<lambda>x. word_chars x @ '','') (butlast (tl data))) @ [newline])
         else Done (''Recieved responses: '' @
                concat (map (\<lambda>x. concat (map (\<lambda>c. [c] @ '' '') (word_chars x)) @ '' '') (take (nat words_recvd) data))))"

text \<open>Copying an empty buffer to a stream sets its fail bit, and nothing more is printed.\<close>

definition cabac_text :: "string \<Rightarrow> string option \<Rightarrow> string" where
  "cabac_text command cabac =
     (if is_cabac command
      then [newline] @ ''Register is: '' @ (case cabac of None \<Rightarrow> [newline] | Some t \<Rightarrow> if t = [] then [] else t @ [newline])
      else [newline])"

text \<open>
  The environment of a run: time conversion, the steps of the threads in the two sleeps, what the
  receive of the response meets, and what the CABAC file holds by then (None if it cannot be opened).
\<close>

record send_env =
  se_asctime :: "u32 \<Rightarrow> string"
  se_before :: schedule
  se_response :: "rx_event list"
  se_cabac :: "string option"
  se_after :: schedule

definition send_command_response :: "send_env \<Rightarrow> send_command_options \<Rightarrow> process \<Rightarrow> (string \<times> process) outcome" where
  "send_command_response env opt p =
     (if sc_waitResponse opt
      then obind (on_net (se_response env) (recieveData (odile p) (Some []) servIpAddress 0x3000 (-1) True) p)
             (\<lambda>((words_recvd, data), p1).
                let ws = (case data of Some d \<Rightarrow> d | None \<Rightarrow> [])
                in obind (response_text (se_asctime env) (sc_enableDebug opt) (sc_command opt) words_recvd ws) (\<lambda>t.
                     Done ((if sc_enableDebug opt then debug_words words_recvd ws else []) @ t @
                           cabac_text (sc_command opt) (se_cabac env), p1)))
      else Done ([], p))"

definition sendCommand_text :: "string \<Rightarrow> string" where
  "sendCommand_text command = (if length command \<noteq> 3 then ''Error, command has invalid length...'' @ [newline] else [])"

definition send_command_body ::
    "bool \<Rightarrow> send_env \<Rightarrow> net \<Rightarrow> send_command_options \<Rightarrow> (int \<times> string \<times> process option) outcome" where
  "send_command_body fits env w opt =
     obind (start_server fits (sc_ipAddress opt) w) (\<lambda>p.
     obind (sleep (se_before env) (snd (send_command_launch opt p))) (\<lambda>p1.
     obind (on_net [] (sendCommand (odile p1) (sc_command opt) (sc_prefix opt) (word_of_int (sc_secondWord opt))) p1) (\<lambda>(_, p2).
     obind (send_command_response env opt p2) (\<lambda>(t, p3).
     obind (sleep (se_after env) p3) (finish 0 (sendCommand_text (sc_command opt) @ t))))))"

definition send_command_main ::
    "bool \<Rightarrow> send_env \<Rightarrow> arg_value \<Rightarrow> string list \<Rightarrow> net \<Rightarrow> (int \<times> string \<times> process option) outcome" where
  "send_command_main fits env uninit argv w =
     run_main_threads (send_command_opts uninit argv) [] (send_command_body fits env w)"

subsection \<open>\<open>take_image\<close>\<close>

text \<open>
  \<open>ODILEServer::writeFitsHeader\<close>: the calls of cfitsio and the status. Floating point numbers are
  passed on only, so their type is a parameter; \<open>now\<close> is \<open>asctime(localtime(time))\<close>.
\<close>

datatype 'd fits_key =
  Fits_open string | Fits_comment string | Key_short string u16 string | Key_double string 'd string
| Key_string string string string | Fits_close

definition writeFitsHeader ::
    "bool \<Rightarrow> ODILEServer \<Rightarrow> string \<Rightarrow> string \<Rightarrow> u16 \<Rightarrow> string \<Rightarrow> 'd \<Rightarrow> 'd \<Rightarrow> string \<Rightarrow> (int \<times> 'd fits_key list) outcome" where
  "writeFitsHeader fits srv now fname ndcms amplifier exp_time read_time compiletime =
     (if fits
      then obind (getBlock (configBlocks srv) ''ADCConfigBlock'') (\<lambda>b. Done (0,
             [Fits_open fname, Fits_comment ''This image was taken using ODILEServer''] @
             map (\<lambda>e. Key_short (entry_name e) (entry_value e) (entry_description e)) (config_entries (cb_blocks (configBlocks srv) ! b)) @
             [Key_short ''NDCMs'' ndcms ''Number of charge measurements'', Key_short ''NPBIN'' 1 ''Vertical bining'',
              Key_short ''NSBIN'' 1 ''Horizontal binning'', Key_string ''AMPL'' amplifier ''Horizontal binning'',
              Key_double ''MREAD'' read_time ''Readout time'', Key_double ''MEXP'' exp_time ''Exposure time'',
              Key_string ''RdEnd'' now ''Readout end time'', Key_string ''FWCTIME'' compiletime ''Firmware compile time'',
              Fits_close]))
      else Done (-1, []))"

definition getCompileTimeStr :: "(u32 \<Rightarrow> string) \<Rightarrow> ODILEServer \<Rightarrow> string io" where
  "getCompileTimeStr asctime_of srv = bind_io (getCompileTime srv) (\<lambda>t. ret_io (asctime_of t))"

record take_image_options =
  ti_ipAddress :: string
  ti_servIpAddress :: string
  ti_imageFname :: string
  ti_configFname :: string
  ti_port :: int
  ti_ncols :: int
  ti_nrows :: int
  ti_nskips :: int
  ti_odileAvgSkips :: bool
  ti_nTrigSamps :: int

text \<open>The initial values of the two size options are those of \<open>port\<close>.\<close>

definition take_image_cmdline :: "CmdLine res" where
  "take_image_cmdline =
     declare_args
       (CmdLine_new ''Standalone program to setup and read data from ODILE board for image acquisition.'' (CHR '' '') ''0.1'' True)
       [string_arg ''i'' ''ip'' ''IP address of ODILE'' False ''192.168.0.3'',
        string_arg ''s'' ''sip'' ''IP address of PC'' False ''192.168.0.1'',
        string_arg ''f'' ''file'' ''Output file to write image data to'' False ''test.fits'',
        string_arg ''c'' ''config'' ''Configuration file to use taking image'' False ''config.ini'',
        number_arg T_int ''p'' ''port'' ''UDP port to read data from'' 0x1202 ''int'',
        number_arg T_int ''n'' ''ncols'' ''Number of columns of the CCD to read (in non-skipper mode, should be cols*NDCMs)'' 0x1202 ''int'',
        number_arg T_int ''r'' ''nrows'' ''Number of rows of the CCD to read'' 0x1202 ''int'',
        number_arg T_short ''k'' ''nskips'' ''Number of NDCMs (only added to header)'' 1 ''short'',
        switch_arg ''a'' ''oaskip'' ''Set ODILE to average over number of skips set by nskips parameter'',
        number_arg T_int ''S'' ''samps'' ''Number of samples per trigger to average over'' (-1) ''uint16_t'']"

definition take_image_values :: "CmdLine \<Rightarrow> take_image_options" where
  "take_image_values c =
     \<lparr>ti_ipAddress = string_value c 0, ti_servIpAddress = string_value c 1, ti_imageFname = string_value c 2,
      ti_configFname = string_value c 3, ti_port = int_value c 4, ti_ncols = int_value c 5, ti_nrows = int_value c 6,
      ti_nskips = int_value c 7, ti_odileAvgSkips = switch_value c 8, ti_nTrigSamps = int_value c 9\<rparr>"

definition take_image_initial :: take_image_options where
  "take_image_initial =
     \<lparr>ti_ipAddress = ''192.168.0.3'', ti_servIpAddress = ''192.168.0.1'', ti_imageFname = ''test.fits'',
      ti_configFname = ''config.ini'', ti_port = 0x1202, ti_ncols = 1100, ti_nrows = 6000, ti_nskips = 1,
      ti_odileAvgSkips = False, ti_nTrigSamps = -1\<rparr>"

definition take_image_opts :: "arg_value \<Rightarrow> string list \<Rightarrow> take_image_options main_options" where
  "take_image_opts uninit argv = options_of take_image_cmdline uninit argv take_image_initial take_image_values"

text \<open>Reading the configuration and applying the options to it; the arguments are converted to 16 bits.\<close>

definition take_image_config :: "files \<Rightarrow> take_image_options \<Rightarrow> ODILEServer \<Rightarrow> ODILEServer outcome" where
  "take_image_config fs opt server =
     (let server1 = snd (readConfigData fs (ti_configFname opt) server)
      in obind (if ti_odileAvgSkips opt then setNSkips (word_of_int (ti_nskips opt)) server1 else Done server1) (\<lambda>server2.
           if 0 < ti_nTrigSamps opt then setNTrigSamples (word_of_int (ti_nTrigSamps opt)) server2 else Done server2))"

text \<open>Division of two \<open>int\<close>.\<close>

definition int_div :: "int \<Rightarrow> int \<Rightarrow> int outcome" where
  "int_div a b =
     (if b = 0 then UB ''division by zero'' else if a = - (2 ^ 31) \<and> b = -1 then UB ''signed overflow'' else Done (div_c a b))"

text \<open>
  \<open>while (npixRead < npix)\<close>, one schedule per \<open>sleep\<close>, with the progress lines printed; \<open>Blocks\<close> when the
  schedules are used up.
\<close>

fun read_pixels :: "schedule list \<Rightarrow> int \<Rightarrow> int \<Rightarrow> int \<Rightarrow> process \<Rightarrow> (int \<times> string \<times> process) outcome" where
  "read_pixels scheds threadID npix npixRead p =
     (if npixRead < npix
      then case scheds of [] \<Rightarrow> Blocks
           | sched # rest \<Rightarrow>
               obind (sleep sched p) (\<lambda>p1.
               obind (getWordsRead p1 threadID) (\<lambda>n.
               obind (print_progress (progress_of n npix) 70) (\<lambda>line.
               obind (read_pixels rest threadID npix n p1) (\<lambda>(m, shown, p2). Done (m, line @ shown, p2)))))
      else Done (npixRead, [], p))"

declare read_pixels.simps [simp del]

record take_env =
  te_asctime :: "u32 \<Rightarrow> string"
  te_now :: string
  te_sleeps :: "schedule list"
  te_compiletime :: "rx_event list"

text \<open>What is printed: before the read, and with the read.\<close>

definition take_image_config_text :: "files \<Rightarrow> take_image_options \<Rightarrow> ODILEServer \<Rightarrow> string" where
  "take_image_config_text fs opt server =
     config_error_text fs (ti_configFname opt) server @
     (if ti_odileAvgSkips opt then ''Averaging over '' @ dec_int (ti_nskips opt) @ '' skips.'' @ [newline] else [])"

definition reading_text :: "int \<Rightarrow> string" where
  "reading_text npix = ''Reading '' @ dec_int npix @ '' samples.'' @ [newline]"

definition total_text :: "bool \<Rightarrow> int \<Rightarrow> string" where
  "total_text fits npixRead =
     (if fits then [] else ''Error, compiled without cfitsio support, doing nothing...'' @ [newline]) @
     [newline] @ ''Read a total of '' @ dec_int npixRead @ '' words.'' @ [newline]"

text \<open>The result: the words read, the calls that write the header and the text printed.\<close>

definition take_image_read ::
    "take_env \<Rightarrow> take_image_options \<Rightarrow> int \<Rightarrow> process \<Rightarrow> (int \<times> (int \<times> int fits_key list \<times> string) \<times> process option) outcome" where
  "take_image_read env opt npix p =
     obind (int_div npix (ti_nrows opt)) (\<lambda>fits_cols.
       let (threadID, p1) = launchAsyncThread (ti_imageFname opt) (ti_servIpAddress opt) (ti_port opt) (ti_nrows opt) fits_cols p
       in obind (read_pixels (te_sleeps env) threadID npix 0 p1) (\<lambda>(npixRead, shown, p2).
          obind (on_net (te_compiletime env) (getCompileTimeStr (te_asctime env) (odile p2)) p2) (\<lambda>(ctime, p3).
          obind (writeFitsHeader (cfitsio p3) (odile p3) (te_now env) (ti_imageFname opt) (word_of_int (ti_nskips opt)) ''L'' 5 100 ctime)
            (\<lambda>(_, header). finish 0 (npixRead, header, reading_text npix @ shown @ total_text (cfitsio p3) npixRead) p3))))"

definition take_image_body ::
    "files \<Rightarrow> bool \<Rightarrow> take_env \<Rightarrow> net \<Rightarrow> take_image_options \<Rightarrow> (int \<times> (int \<times> int fits_key list \<times> string) \<times> process option) outcome" where
  "take_image_body fs fits env w opt =
     (if fs (ti_imageFname opt) \<noteq> None
      then Done (-1, (0, [], ''The specified output file already exist. Please specify a different name for the output.'' @ [newline]), None)
      else obind (start_server fits (ti_ipAddress opt) w) (\<lambda>p.
           obind (take_image_config fs opt (odile p)) (\<lambda>server.
           obind (on_net [] (sendConfigData server) p) (\<lambda>((_, server1), p1).
           obind (getWordsToRead server1 (ti_nrows opt) (ti_ncols opt) (ti_nskips opt)) (\<lambda>npix.
           obind (take_image_read env opt npix (p1\<lparr>odile := server1\<rparr>)) (\<lambda>(status, (n, header, shown), q).
             Done (status, (n, header, take_image_config_text fs opt (odile p) @ shown), q)))))))"

definition take_image_main ::
    "files \<Rightarrow> bool \<Rightarrow> take_env \<Rightarrow> arg_value \<Rightarrow> string list \<Rightarrow> net \<Rightarrow> (int \<times> (int \<times> int fits_key list \<times> string) \<times> process option) outcome" where
  "take_image_main fs fits env uninit argv w =
     run_main_threads (take_image_opts uninit argv) (0, [], []) (take_image_body fs fits env w)"

end
