(* ===== verification/ProgramRuns.thy ===== *)
theory ProgramRuns
  imports ProgramArgs
begin

text \<open>
  What the programs do with their options: the effect of \<open>write_data\<close> and \<open>send_command\<close> on the wire, with
  the receiving threads running beside, and the places where a program does not do what its options say.
\<close>

subsection \<open>Options of particular command lines\<close>

lemma parse_none: "parse u ign (cmdline_of m v ds) [prog] =
   (if \<exists>a \<in> set ds. a_required a then Exits 1 else Returns ((cmdline_of m v ds)\<lparr>cl_progName := prog\<rparr>) ign)"
proof -
  have s: "sum_list (map (\<lambda>a. if a_required a then 1 else (0::int)) ds) = 0 \<longleftrightarrow> \<not> (\<exists>a \<in> set ds. a_required a)"
    "0 \<le> sum_list (map (\<lambda>a. if a_required a then 1 else (0::int)) ds)" for ds
  proof (induction ds)
    case (Cons a ds)
    {
      case 1
      show ?case using Cons.IH by (auto simp: add_nonneg_eq_0_iff)
    next
      case 2
      show ?case using Cons.IH by auto
    }
  qed simp_all
  show ?thesis using s [of ds]
    by (auto simp: parse_def parse_body_def parse_loop.simps cmdline_of_def Let_def missingArgsException_def)
qed

lemma program_arg_decl: "program_arg (c\<lparr>cl_progName := prog, cl_objs := default_switches @ ds\<rparr>) k = ds ! k"
  by (simp add: program_arg_def default_switches_def)

text \<open>
  With no options at all, \<open>take_image\<close> reads an image of 4610 by 4610 pixels: both sizes default to the
  number of the UDP port, not to the 1100 columns and 6000 rows of the variables.
\<close>

theorem take_image_default_size:
  "take_image_opts u [''take_image''] = Go (take_image_initial\<lparr>ti_ncols := 4610, ti_nrows := 4610\<rparr>)"
proof -
  obtain m v where c: "take_image_cmdline = Inr (cmdline_of m v (default_switches @ take_image_decls))"
    using take_image_cmdline_eq by blast
  have "\<not> (\<exists>a \<in> set (default_switches @ take_image_decls). a_required a)"
    by (auto simp: default_switches_def take_image_decls_def decl_defs)
  then have "take_image_opts u [''take_image''] =
      Go (take_image_values ((cmdline_of m v (default_switches @ take_image_decls))\<lparr>cl_progName := ''take_image''\<rparr>))"
    by (simp add: take_image_opts_def options_of_def c parse_argv_def c_str_id parse_none)
  then show ?thesis
    by (simp add: take_image_values_def take_image_initial_def string_value_def int_value_def switch_value_def program_arg_def
        default_switches_def take_image_decls_def decl_defs ValueArg_getValue_def SwitchArg_getValue_def)
qed

lemma Returns_inv:
  assumes "parse_argv u ign (cmdline_of m v ds) argv = Returns c' ign'" "\<forall>a \<in> set ds. new_arg a" "names_distinct ds"
  shows "store_inv (cl_objs c')" "list_all2 evolved ds (cl_objs c')"
proof -
  note wf = cmdline_of_wf [OF assms(2,3)]
  have p: "parse u ign (cmdline_of m v ds) (map c_str argv) = Returns c' ign'"
    using assms(1) by (simp add: parse_argv_def)
  show "store_inv (cl_objs c')" using parse_Returns_inv [OF p wf(3)] wf(4) by simp
  show "list_all2 evolved ds (cl_objs c')" using parse_Returns_evolved [OF wf(1) p] by simp
qed

lemma evolved_Value:
  assumes "evolved a b" "a_kind a = Value ty v d td con"
  shows "\<exists>x. a_kind b = Value ty x d td con"
proof -
  have "a_kind (arg_decl b) = a_kind (arg_decl a)" using assms(1) by (simp add: evolved_def)
  then show ?thesis
    using assms(2) by (cases "a_kind b") (simp_all add: arg_decl_def arg_reset_def Arg_reset_def)
qed

text \<open>
  Whatever the command line says, the page number \<open>write_config\<close> goes on with is one of the ten
  configuration pages, so writing the flash is never refused for the page.
\<close>

theorem write_config_page_in_range:
  assumes "write_config_opts u argv = Go opt"
  shows "0 \<le> wc_configPage opt \<and> wc_configPage opt \<le> 9"
proof -
  let ?ds = "default_switches @ write_config_decls"
  obtain c' ign m v where p: "parse_argv u False (cmdline_of m v ?ds) argv = Returns c' ign" "opt = write_config_values c'"
    using assms by (auto simp: write_config_opts_def options_of_def write_config_cmdline_eq parse_argv_def parse_def
        split: parse_result.splits list.splits sum.splits if_splits)
  note r = Returns_inv [OF p(1) write_config_decls_ok]
  have l: "8 < length ?ds" "?ds ! 8 = page_decl" by (simp_all add: default_switches_def write_config_decls_def)
  let ?a = "cl_objs c' ! 8"
  have "evolved page_decl ?a" "arg_inv ?a"
    using r l list_all2_nthD [OF r(2), of 8] list_all2_lengthD [OF r(2)] by (auto simp: store_inv_def)
  then obtain x where k: "a_kind ?a = Value T_int x (VNum 0) ''int'' (Some PageConstraint)"
    "value_state T_int x (VNum 0) (Some PageConstraint) (isSet ?a)"
    using evolved_Value [of page_decl ?a] by (auto simp: page_decl_def arg_inv_def)
  have "wc_configPage opt = (case x of VNum n \<Rightarrow> n | VString s \<Rightarrow> 0)"
    using k(1) p(2) by (simp add: write_config_values_def int_value_def program_arg_def ValueArg_getValue_def)
  then show ?thesis
    using k(2) by (auto simp: value_state_def meets_def PageConstraint_def split: if_splits arg_value.splits)
qed

lemma options_rendered:
  assumes "cmd = Inr (cmdline_of m v ds)" "\<forall>a \<in> set ds. new_arg a" "names_distinct ds"
    "\<forall>it \<in> set items. item_ok ds it" "distinct (map item_ref items)"
    "\<And>k. k < length ds \<Longrightarrow> a_required (ds ! k) \<Longrightarrow> k \<in> item_ref ` set items"
    "map c_str argv = prog # render ds items"
  shows "\<exists>c'. options_of cmd u argv initial val = Go (val c') \<and>
    (\<forall>r l t. Opt r l t \<in> set items \<longrightarrow>
       ExtractValue (value_type_of (ds ! r)) (ValueArg_getValue (ds ! r)) t = Inr (ValueArg_getValue (cl_objs c' ! r))) \<and>
    (\<forall>r l. Flg r l \<in> set items \<longrightarrow> SwitchArg_getValue (cl_objs c' ! r) = (\<not> SwitchArg_getValue (ds ! r))) \<and>
    (\<forall>k. k \<notin> item_ref ` set items \<longrightarrow> cl_objs c' ! k = ds ! k)"
proof -
  note wf = cmdline_of_wf [OF assms(2,3)]
  obtain c' where "parse u False (cmdline_of m v ds) (prog # render ds items) = Returns c' False"
    "\<forall>r l t. Opt r l t \<in> set items \<longrightarrow>
       ExtractValue (value_type_of (ds ! r)) (ValueArg_getValue (ds ! r)) t = Inr (ValueArg_getValue (cl_objs c' ! r))"
    "\<forall>r l. Flg r l \<in> set items \<longrightarrow> SwitchArg_getValue (cl_objs c' ! r) = (\<not> SwitchArg_getValue (ds ! r))"
    "\<forall>k. k \<notin> item_ref ` set items \<longrightarrow> cl_objs c' ! k = ds ! k"
    using parse_rendered [of "cmdline_of m v ds" items u prog] wf assms(4-6) by auto
  then show ?thesis using assms(1,7) by (auto simp: options_of_def parse_argv_def)
qed

lemma value_item_ok:
  assumes "r < length ds" "ds ! r = mk_arg flag nm desc req True NoVisitor (Value ty d d td None)" "flag \<noteq> []" "flag \<noteq> ''-''"
    "ExtractValue ty d t = Inr x"
  shows "item_ok ds (Opt r l t)"
  using assms by (auto simp: is_value_def ValueArg_extractValue_def checked_value_def flagStartString_def)

lemma write_data_opts_file_port:
  assumes "c_str f = f" "c_str t = t" "ExtractValue T_int (VNum 0x2000) t = Inr (VNum n)"
  shows "write_data_opts u [''write_data'', ''-f'', f, ''-p'', t] =
    Go \<lparr>wd_ipAddress = ''192.168.0.3'', wd_inFname = f, wd_port = n, wd_enableDebug = False\<rparr>"
proof -
  let ?ds = "default_switches @ write_data_decls" and ?items = "[Opt 4 False f, Opt 5 False t]"
  have d: "?ds ! 4 = string_decl ''f'' ''file'' ''Configuration file to read from'' True ''''"
    "?ds ! 5 = number_decl T_int ''p'' ''port'' ''UDP port to send data to'' 0x2000 ''int''" "length ?ds = 7"
    by (simp_all add: default_switches_def write_data_decls_def)
  have ok: "\<forall>it \<in> set ?items. item_ok ?ds it"
    using value_item_ok [OF _ d(1) [unfolded decl_defs], of f] value_item_ok [OF _ d(2) [unfolded decl_defs], of t] d(3) assms(3)
    by (simp add: ExtractValue_def [of T_string] del: item_ok.simps)
  have req: "k \<in> item_ref ` set ?items" if "k < length ?ds" "a_required (?ds ! k)" for k
  proof -
    have "k = 0 \<or> k = 1 \<or> k = 2 \<or> k = 3 \<or> k = 4 \<or> k = 5 \<or> k = 6" using that(1) d(3) by linarith
    then show ?thesis using that(2) by (auto simp: default_switches_def write_data_decls_def decl_defs)
  qed
  have words: "map c_str [''write_data'', ''-f'', f, ''-p'', t] = ''write_data'' # render ?ds ?items"
    using assms(1,2) d by (simp add: render_def spell_def flagStartString_def decl_defs c_str_id)
  obtain c' where c: "write_data_opts u [''write_data'', ''-f'', f, ''-p'', t] = Go (write_data_values c')"
    "\<forall>r l x. Opt r l x \<in> set ?items \<longrightarrow>
       ExtractValue (value_type_of (?ds ! r)) (ValueArg_getValue (?ds ! r)) x = Inr (ValueArg_getValue (cl_objs c' ! r))"
    "\<forall>k. k \<notin> item_ref ` set ?items \<longrightarrow> cl_objs c' ! k = ?ds ! k"
    using options_rendered [OF write_data_cmdline_eq write_data_decls_ok ok _ req words, where initial = write_data_initial
        and val = write_data_values and u = u]
    unfolding write_data_opts_def by auto
  have "ValueArg_getValue (cl_objs c' ! 4) = VString f" "ValueArg_getValue (cl_objs c' ! 5) = VNum n"
    using c(2) [rule_format, of 4 False f] c(2) [rule_format, of 5 False t] d assms(3)
    by (simp_all add: decl_defs value_type_of_def ValueArg_getValue_def [of "mk_arg _ _ _ _ _ _ _"] ExtractValue_def [of T_string])
  moreover have "cl_objs c' ! 3 = ?ds ! 3" "cl_objs c' ! 6 = ?ds ! 6" using c(3) by simp_all
  ultimately show ?thesis
    using c(1) by (simp add: write_data_values_def string_value_def int_value_def switch_value_def program_arg_def
        default_switches_def write_data_decls_def decl_defs ValueArg_getValue_def [of "mk_arg _ _ _ _ _ _ _"] SwitchArg_getValue_def)
qed

subsection \<open>\<open>write_data\<close> on the wire\<close>

definition friendly :: "net \<Rightarrow> bool" where
  "friendly w \<longleftrightarrow> can_open w \<and> sendto_ok w = (\<lambda>_ _ _. True)"

text \<open>
  C23. \<open>write_data -f file -p port\<close> sends one datagram to the board: to that port, with the words of the file.
  It exits with status 0 and gives back every socket and address list.
\<close>

theorem write_data_run:
  assumes "friendly w" "c_str f = f" "c_str t = t" "ExtractValue T_int (VNum 0x2000) t = Inr (VNum n)"
  shows "\<exists>w'. write_data_main fs u [''write_data'', ''-f'', f, ''-p'', t] w = (Done (0, ()), w') \<and>
    tx w' = tx w @ [\<lparr>dg_addr = ''192.168.0.3'', dg_port = n,
      dg_payload = bytes_of_words (case fs f of None \<Rightarrow> [] | Some inp \<Rightarrow> read_hex_words inp)\<rparr>] \<and>
    resources w' = resources w"
  using assms(1) write_data_opts_file_port [OF assms(2-4), of u]
  by (simp add: write_data_main_def run_main_def write_data_body_def with_server_def with_object_def ODILEServer_new_def
      bind_io_def udp_client_new_def open_socket_def Let_def sendData_file_def sendData_def client_send_words_def
      client_send_def udp_client_delete_def server_delete_def ret_io_def resources_def friendly_def can_open_def)

theorem write_data_run_witness:
  "\<exists>w'. write_data_main [''seq.txt'' \<mapsto> ''1234 abcd''] (VNum 0) [''write_data'', ''-f'', ''seq.txt'', ''-p'', ''0x2100''] quiet_net =
      (Done (0, ()), w') \<and>
    tx w' = tx quiet_net @ [\<lparr>dg_addr = ''192.168.0.3'', dg_port = 0x2100,
      dg_payload = bytes_of_words (case [''seq.txt'' \<mapsto> ''1234 abcd''] ''seq.txt'' of None \<Rightarrow> [] | Some inp \<Rightarrow> read_hex_words inp)\<rparr>] \<and>
    resources w' = resources quiet_net"
proof (rule write_data_run)
  show "ExtractValue T_int (VNum 0x2000) ''0x2100'' = Inr (VNum 0x2100)"
    by (simp add: ExtractValue_def extract_values.simps [of T_int "''0x2100''"] extract_values.simps [of T_int "[]"] extract_one_def
        extract_number_def sign_of_def isspace_def base_of_def hex_prefixed_def is_digit_of_def digit_value_def digits_value_def
        fits_type_def stored_number_def)
qed (simp_all add: friendly_def can_open_def quiet_net_def)

subsection \<open>The force flag of \<open>write_firmware\<close>\<close>

text \<open>
  The switch that should guard the factory image only decides whether a warning is printed: with and
  without it the program ends the same way and leaves the network in the same state.
\<close>

theorem force_flag_has_no_effect:
  "snd (write_firmware_body fs (opt\<lparr>wf_forceWrite := b\<rparr>) w) = snd (write_firmware_body fs opt w) \<and>
   map_outcome fst (fst (write_firmware_body fs (opt\<lparr>wf_forceWrite := b\<rparr>) w)) =
     map_outcome fst (fst (write_firmware_body fs opt w))"
proof -
  have "map_file_name (opt\<lparr>wf_forceWrite := b\<rparr>) = map_file_name opt"
    by (simp add: map_file_name_def split: option.split)
  then show ?thesis
    by (auto simp: write_firmware_body_def with_server_def with_object_def bind_io_def ret_io_def
        split: outcome.splits prod.splits)
qed

subsection \<open>Receiving threads beside the main thread\<close>

text \<open>What no thread changes: the log of sent datagrams and what the network lets the process do.\<close>

definition net_same :: "net \<Rightarrow> net \<Rightarrow> bool" where
  "net_same w w' \<longleftrightarrow>
     tx w' = tx w \<and> gai_ok w' = gai_ok w \<and> socket_ok w' = socket_ok w \<and> bind_ok w' = bind_ok w \<and> sendto_ok w' = sendto_ok w"

lemma net_same_refl [simp]: "net_same w w"
  by (simp add: net_same_def)

lemma net_same_trans: "net_same a b \<Longrightarrow> net_same b c \<Longrightarrow> net_same a c"
  by (simp add: net_same_def)

lemma udp_server_new_same: "udp_server_new addr port w = (r, w') \<Longrightarrow> net_same w w'"
  by (auto simp: udp_server_new_def net_same_def open_socket_def Let_def split: if_splits)

lemma timed_recv_same: "timed_recv s k t (w\<lparr>rx := evs\<rparr>) = (r, w') \<Longrightarrow> net_same w w'"
  by (auto simp: timed_recv_def net_same_def Let_def split: prod.splits if_splits list.splits)

lemma thread_step_same:
  assumes "thread_step ev i p = Done p'"
  shows "net_same (os p) (os p') \<and> odile p' = odile p \<and> cfitsio p' = cfitsio p"
proof (cases "th_pc (thread_vec p ! i)")
  case Created
  then obtain arg where a: "deref p (th_arg (thread_vec p ! i)) = Done arg"
    using assms by (auto simp: thread_step_def thread_open_def Let_def obind_eq_Done)
  obtain r w where n: "udp_server_new (ar_ip_address arg) (ar_port arg) (os p) = (r, w)"
    by (cases "udp_server_new (ar_ip_address arg) (ar_port arg) (os p)")
  show ?thesis using assms Created a n udp_server_new_same [OF n]
    by (cases r) (auto simp: thread_step_def thread_open_def store_def Let_def)
next
  case (Receiving s)
  then obtain arg where a: "deref p (th_arg (thread_vec p ! i)) = Done arg"
    using assms by (auto simp: thread_step_def obind_eq_Done)
  show ?thesis
  proof (cases "ar_stop arg")
    case True
    then show ?thesis using assms Receiving a
      by (auto simp: thread_step_def thread_exit_def store_def Let_def udp_server_delete_def net_same_def)
  next
    case False
    then show ?thesis using assms Receiving a
      by (auto simp: thread_step_def thread_receive_def store_def Let_def split: prod.splits outcome.splits if_splits
          option.splits dest: timed_recv_same)
  qed
next
  case Exited
  then show ?thesis using assms by (simp add: thread_step_def)
qed

text \<open>A process whose threads are all at work: nobody has asked one to stop, and sockets can be opened.\<close>

definition running :: "process \<Rightarrow> bool" where
  "running p \<longleftrightarrow> proc_inv p \<and> can_open (os p) \<and> (\<forall>t \<in> set (thread_vec p). th_pc t \<noteq> Exited) \<and>
     (\<forall>a x. arg_heap p a = Some x \<longrightarrow> \<not> ar_stop x)"

lemma can_open_same: "net_same w w' \<Longrightarrow> can_open w \<Longrightarrow> can_open w'"
  by (simp add: net_same_def can_open_def)

lemma running_thread_step:
  assumes "running p" "i < length (thread_vec p)"
  shows "\<exists>p'. thread_step ev i p = Done p' \<and> running p' \<and> odile p' = odile p \<and> net_same (os p) (os p')"
proof -
  let ?t = "thread_vec p ! i"
  have inv: "proc_inv p" "can_open (os p)" "th_pc ?t \<noteq> Exited" using assms by (auto simp: running_def)
  have ok: "arg_ok (th_pc ?t) (arg_heap p (th_arg ?t))" using proc_invD(4) [OF inv(1) assms(2)] .
  then obtain arg where arg: "arg_heap p (th_arg ?t) = Some arg"
    using inv(3) by (cases "th_pc ?t") (auto simp: arg_ok_def)
  then have ns: "\<not> ar_stop arg" using assms(1) by (auto simp: running_def)
  have "\<exists>p' t x. thread_step ev i p = Done p' \<and> thread_vec p' = (thread_vec p)[i := t] \<and> th_pc t \<noteq> Exited \<and>
      arg_heap p' = (arg_heap p)(th_arg ?t \<mapsto> x) \<and> \<not> ar_stop x"
  proof (cases "th_pc ?t")
    case Created
    obtain s w where "udp_server_new (ar_ip_address arg) (ar_port arg) (os p) = (Done s, w)"
      using inv(2) by (auto simp: udp_server_new_def can_open_def open_socket_def Let_def)
    then show ?thesis using Created arg ns
      by (simp add: thread_step_def thread_open_def deref_def store_def Let_def) (intro exI conjI, rule refl, simp, rule refl, simp)
  next
    case (Receiving s)
    obtain n d w' where "timed_recv s BUFFSIZE WAIT_TIME ((os p)\<lparr>rx := [ev]\<rparr>) = (Done (n, d), w')"
      using timed_recv_Done by blast
    moreover obtain nread where "ar_nread arg = Some nread" using ok arg Receiving by (auto simp: arg_ok_def)
    ultimately show ?thesis using Receiving arg ns
      by (cases "0 < n"; simp add: thread_step_def thread_receive_def deref_def store_def Let_def)
        (intro exI conjI, rule refl, simp add: write_packet_simps, rule refl, simp,
         intro exI [of _ "thread_vec p ! i"] exI [of _ arg] conjI, simp_all add: fun_upd_idem)
  qed (use inv(3) in simp)
  then obtain p' t x where s: "thread_step ev i p = Done p'" "thread_vec p' = (thread_vec p)[i := t]" "th_pc t \<noteq> Exited"
    "arg_heap p' = (arg_heap p)(th_arg ?t \<mapsto> x)" "\<not> ar_stop x" by blast
  have same: "net_same (os p) (os p')" "odile p' = odile p" using thread_step_same [OF s(1)] by simp_all
  have "proc_inv p'" using proc_inv_step [OF step.run [OF assms(2) s(1)] inv(1)] .
  moreover have "\<forall>u \<in> set (thread_vec p'). th_pc u \<noteq> Exited"
    using set_update_subset_insert [of "thread_vec p" i t] s(2,3) assms(1) by (auto simp: running_def)
  moreover have "\<forall>a y. arg_heap p' a = Some y \<longrightarrow> \<not> ar_stop y" using s(4,5) assms(1) by (auto simp: running_def)
  ultimately have "running p'" using can_open_same [OF same(1) inv(2)] by (simp add: running_def)
  then show ?thesis using s(1) same by blast
qed

lemma running_sleep:
  "running p \<Longrightarrow> \<exists>p'. sleep sched p = Done p' \<and> running p' \<and> odile p' = odile p \<and> net_same (os p) (os p')"
proof (induction sched arbitrary: p)
  case (Cons e sched)
  obtain i ev where e: "e = (i, ev)" by (cases e)
  show ?case
  proof (cases "i < length (thread_vec p)")
    case True
    obtain p1 where p1: "thread_step ev i p = Done p1" "running p1" "odile p1 = odile p" "net_same (os p) (os p1)"
      using running_thread_step [OF Cons.prems True] by blast
    then show ?thesis using Cons.IH [OF p1(2)] e True net_same_trans [OF p1(4)] by auto
  next
    case False
    then show ?thesis using Cons e by auto
  qed
qed simp

lemma running_launch:
  assumes "running p"
  shows "running (snd (launchAsyncThread f ip port r c p))"
    "os (snd (launchAsyncThread f ip port r c p)) = os p"
    "cmdClient (odile (snd (launchAsyncThread f ip port r c p))) = cmdClient (odile p)"
proof -
  let ?p = "snd (launchAsyncThread f ip port r c p)"
  have "proc_inv ?p" using proc_inv_step [OF step.launch] assms by (simp add: running_def)
  then show "running ?p"
    using assms by (auto simp: running_def launchAsyncThread_def store_def Let_def new_thread_def split: if_splits)
qed (simp_all add: launchAsyncThread_def store_def Let_def)

lemma running_send_command_launch:
  assumes "running p"
  shows "running (snd (send_command_launch opt p)) \<and> os (snd (send_command_launch opt p)) = os p \<and>
    cmdClient (odile (snd (send_command_launch opt p))) = cmdClient (odile p)"
  using running_launch [OF assms] running_launch [OF running_launch(1) [OF assms]] assms
  by (auto simp: send_command_launch_def Let_def)

lemma closeAsyncThread_same:
  assumes "closeAsyncThread tid p = Done (r, p')"
  shows "net_same (os p) (os p') \<and> odile p' = odile p"
proof -
  have req: "net_same (os p) (os q) \<and> odile q = odile p" if "request_stop a p = Done q" for a p q
    using that by (auto simp: request_stop_def obind_eq_Done store_def)
  have del: "net_same (os p) (os q) \<and> odile q = odile p" if "delete_arg a p = Done q" for a p q
    using that by (auto simp: delete_arg_def obind_eq_Done)
  have jn: "net_same (os p) (os q) \<and> odile q = odile p" if j: "join i p = Done q" for i p q
  proof -
    obtain q1 where s: "thread_step Silent i p = Done q1" "thread_step Silent i q1 = Done q"
      using j by (auto simp: join_def obind_eq_Done)
    show ?thesis using thread_step_same [OF s(1)] thread_step_same [OF s(2)] net_same_trans [of "os p" "os q1" "os q"] by simp
  qed
  have "p' = p \<or> (\<exists>a i p1 p2. request_stop a p = Done p1 \<and> join i p1 = Done p2 \<and> delete_arg a p2 = Done p')"
    using assms by (auto simp: closeAsyncThread_def obind_eq_Done Let_def split: if_splits)
  then show ?thesis
  proof (elim disjE exE conjE)
    fix a i p1 p2 assume s: "request_stop a p = Done p1" "join i p1 = Done p2" "delete_arg a p2 = Done p'"
    show ?thesis
      using req [OF s(1)] jn [OF s(2)] del [OF s(3)] net_same_trans [of "os p" "os p1" "os p2"]
        net_same_trans [of "os p" "os p2" "os p'"] by simp
  qed simp
qed

lemma close_all_same: "close_all k i p = Done q \<Longrightarrow> net_same (os p) (os q)"
proof (induction k arbitrary: i p)
  case (Suc k)
  then obtain x p1 where c: "closeAsyncThread i p = Done (x, p1)" "close_all k (i + 1) p1 = Done q"
    by (auto simp: obind_eq_Done)
  show ?case using closeAsyncThread_same [OF c(1)] Suc.IH [OF c(2)] net_same_trans [of "os p" "os p1" "os q"] by simp
qed simp

lemma running_delete:
  assumes "running p"
  shows "\<exists>q. ODILEServer_delete p = Done q \<and> net_same (os p) (os q) \<and> (\<forall>t \<in> set (thread_vec q). th_pc t = Exited) \<and>
    (\<forall>a \<in> set (thread_args (odile q)). arg_heap q a = None)"
proof -
  have inv: "proc_inv p" "can_open (os p)" "\<forall>t \<in> set (thread_vec p). th_pc t \<noteq> Exited" using assms by (auto simp: running_def)
  note len = proc_invD(1) [OF inv(1)]
  obtain q where q: "close_all (length (thread_vec p)) (int 0) p = Done q" "odile q = odile p"
      "length (thread_vec q) = length (thread_vec p)"
      "\<forall>j < length (thread_vec p). th_pc (thread_vec q ! j) = Exited \<and> arg_heap q (thread_args (odile p) ! j) = None"
    using close_all_effect [of p 0 "length (thread_vec p)"] inv by auto
  let ?r = "q\<lparr>os := snd (udp_client_delete (configClient (odile q)) (snd (udp_client_delete (cmdClient (odile q)) (os q))))\<rparr>"
  have "ODILEServer_delete p = Done ?r" using q(1) len by (simp add: ODILEServer_delete_def)
  moreover have "net_same (os p) (os ?r)"
    using close_all_same [OF q(1)] by (simp add: net_same_def udp_client_delete_def)
  ultimately show ?thesis using q len by (fastforce simp: in_set_conv_nth)
qed

lemma start_server_friendly:
  assumes "friendly w"
  shows "\<exists>p. start_server fits addr w = Done p \<and> running p \<and> friendly (os p) \<and> tx (os p) = tx w \<and>
    c_addr (cmdClient (odile p)) = addr \<and> c_port (cmdClient (odile p)) = 0x3000"
  using assms
  by (simp add: start_server_def ODILEServer_new_def bind_io_def udp_client_new_def open_socket_def Let_def friendly_def
      can_open_def running_def proc_inv_def)

lemma friendly_same: "net_same w w' \<Longrightarrow> friendly w \<Longrightarrow> friendly w'"
  by (simp add: net_same_def friendly_def can_open_def)

lemma running_os: "running p \<Longrightarrow> can_open w \<Longrightarrow> running (p\<lparr>os := w\<rparr>)"
  by (simp add: running_def proc_inv_def)

text \<open>
  C22. \<open>send_command\<close> with a command of three ASCII characters and no wait for a response runs to its end
  whatever the receiving threads do in its two sleeps: it exits with 0, has sent the board exactly the
  command, every thread has ended, and the structures shared with the threads are freed.
\<close>

theorem send_command_completes:
  assumes "friendly w" "ascii3 (sc_command opt)" "\<not> sc_waitResponse opt"
  shows "\<exists>q. send_command_body fits env w opt = Done (0, [], Some q) \<and>
    tx (os q) = tx w @ [\<lparr>dg_addr = sc_ipAddress opt, dg_port = 0x3000,
      dg_payload = command_payload (sc_command opt) (sc_prefix opt) (word_of_int (sc_secondWord opt))\<rparr>] \<and>
    (\<forall>t \<in> set (thread_vec q). th_pc t = Exited) \<and> (\<forall>a \<in> set (thread_args (odile q)). arg_heap q a = None)"
proof -
  obtain p where p: "start_server fits (sc_ipAddress opt) w = Done p" "running p" "friendly (os p)" "tx (os p) = tx w"
    "c_addr (cmdClient (odile p)) = sc_ipAddress opt" "c_port (cmdClient (odile p)) = 0x3000"
    using start_server_friendly [OF assms(1)] by blast
  let ?l = "snd (send_command_launch opt p)"
  have l: "running ?l" "os ?l = os p" "cmdClient (odile ?l) = cmdClient (odile p)"
    using running_send_command_launch [OF p(2), of opt] by auto
  obtain p1 where p1: "sleep (se_before env) ?l = Done p1" "running p1" "odile p1 = odile ?l" "net_same (os ?l) (os p1)"
    using running_sleep [OF l(1)] by blast
  have f1: "friendly (os p1)" using friendly_same [OF p1(4)] l(2) p(3) by simp
  let ?d = "\<lparr>dg_addr = sc_ipAddress opt, dg_port = 0x3000,
      dg_payload = command_payload (sc_command opt) (sc_prefix opt) (word_of_int (sc_secondWord opt))\<rparr>"
  let ?w2 = "(os p1)\<lparr>rx := [], tx := tx (os p1) @ [?d]\<rparr>"
  obtain n where "on_net [] (sendCommand (odile p1) (sc_command opt) (sc_prefix opt) (word_of_int (sc_secondWord opt))) p1 =
      Done (n, p1\<lparr>os := ?w2\<rparr>)"
    using f1 p1(3) l(3) p(5,6) by (simp add: on_net_def sendCommand_ascii [OF assms(2)] client_send_def friendly_def)
  moreover have "running (p1\<lparr>os := ?w2\<rparr>)"
    using running_os [OF p1(2)] f1 by (simp add: friendly_def can_open_def)
  then obtain p3 where p3: "sleep (se_after env) (p1\<lparr>os := ?w2\<rparr>) = Done p3" "running p3" "net_same ?w2 (os p3)"
    using running_sleep by fastforce
  obtain q where q: "ODILEServer_delete p3 = Done q" "net_same (os p3) (os q)"
    "\<forall>t \<in> set (thread_vec q). th_pc t = Exited" "\<forall>a \<in> set (thread_args (odile q)). arg_heap q a = None"
    using running_delete [OF p3(2)] by blast
  have "tx (os q) = tx w @ [?d]" using q(2) p3(3) p1(4) l(2) p(4) by (simp add: net_same_def)
  ultimately show ?thesis
    using p(1) p1(1) p3(1) q assms(2,3)
    by (simp add: send_command_body_def send_command_response_def finish_def sendCommand_text_def ascii3_def)
qed

lemma ascii3_RDP: "ascii3 ''RDP''"
  by (simp add: ascii3_def byte_of_char_def)

theorem send_command_completes_witness:
  "\<exists>q. send_command_body False \<lparr>se_asctime = (\<lambda>_. []), se_before = [(0, Silent), (0, Queued [1, 2, 3, 4])], se_response = [],
        se_cabac = None, se_after = [(0, Silent)]\<rparr> quiet_net
      (send_command_initial\<lparr>sc_command := ''RDP'', sc_outFname := ''seq.txt'', sc_prefix := 5\<rparr>) = Done (0, [], Some q) \<and>
    tx (os q) = tx quiet_net @ [\<lparr>dg_addr = ''192.168.0.3'', dg_port = 0x3000,
      dg_payload = command_payload ''RDP'' 5 (word_of_int 0xFFFFFFFF)\<rparr>] \<and>
    (\<forall>t \<in> set (thread_vec q). th_pc t = Exited) \<and> (\<forall>a \<in> set (thread_args (odile q)). arg_heap q a = None)"
  using send_command_completes [of quiet_net "send_command_initial\<lparr>sc_command := ''RDP'', sc_outFname := ''seq.txt'', sc_prefix := 5\<rparr>"
      False "\<lparr>se_asctime = (\<lambda>_. []), se_before = [(0, Silent), (0, Queued [1, 2, 3, 4])], se_response = [],
        se_cabac = None, se_after = [(0, Silent)]\<rparr>"]
  by (simp add: friendly_def can_open_def quiet_net_def send_command_initial_def ascii3_RDP)

subsection \<open>Responses and images\<close>

text \<open>
  With \<open>--debug\<close>, the uptime is printed in hexadecimal although it is called a number of seconds: the
  debug output leaves \<open>std::hex\<close> set.
\<close>

theorem debug_uptime_in_hex:
  "response_text asctime_of debug ''GUT'' 2 [x, uptime] =
     Done (''System has been running for: '' @ (if debug then hex_digits (unat uptime) else dec_digits (unat uptime)) @
           '' seconds (roughly)'' @ [newline])"
  by (simp add: response_text_def show_num_def)

text \<open>
  \<open>take_image\<close> does not overwrite: when the output file exists it returns \<open>-1\<close> before it opens a socket
  or starts a thread. When it ends normally it has counted at least the words the configuration asks for.
\<close>

lemma read_pixels_enough: "read_pixels scheds tid npix n p = Done (m, shown, p') \<Longrightarrow> npix \<le> m"
proof (induction scheds arbitrary: n p shown)
  case Nil
  then show ?case by (simp add: read_pixels.simps [of "[]"] split: if_splits)
next
  case (Cons s ss)
  then show ?case by (auto simp: read_pixels.simps [of "s # ss"] obind_eq_Done split: if_splits)
qed

theorem take_image_result:
  assumes "take_image_body fs fits env w opt = Done (status, (n, header, shown), q)"
  shows "if fs (ti_imageFname opt) \<noteq> None then status = -1 \<and> q = None
    else status = 0 \<and> (\<exists>p. q = Some p) \<and>
      (\<exists>p srv sent srv1 w1 npix. start_server fits (ti_ipAddress opt) w = Done p \<and> take_image_config fs opt (odile p) = Done srv \<and>
         sendConfigData srv ((os p)\<lparr>rx := []\<rparr>) = (Done (sent, srv1), w1) \<and>
         getWordsToRead srv1 (ti_nrows opt) (ti_ncols opt) (ti_nskips opt) = Done npix \<and> npix \<le> n)"
proof (cases "fs (ti_imageFname opt)")
  case (Some x)
  then show ?thesis using assms by (simp add: take_image_body_def)
next
  case None
  then obtain p srv sent srv1 p1 npix where r: "start_server fits (ti_ipAddress opt) w = Done p"
    "take_image_config fs opt (odile p) = Done srv" "on_net [] (sendConfigData srv) p = Done ((sent, srv1), p1)"
    "getWordsToRead srv1 (ti_nrows opt) (ti_ncols opt) (ti_nskips opt) = Done npix"
    "\<exists>shown. take_image_read env opt npix (p1\<lparr>odile := srv1\<rparr>) = Done (status, (n, header, shown), q)"
    using assms by (auto simp: take_image_body_def obind_eq_Done)
  have "status = 0 \<and> npix \<le> n \<and> (\<exists>p. q = Some p)"
    using r(5) by (auto simp: take_image_read_def obind_eq_Done finish_def split_beta dest: read_pixels_enough)
  moreover have "\<exists>w1. sendConfigData srv ((os p)\<lparr>rx := []\<rparr>) = (Done (sent, srv1), w1)"
    using r(3) by (auto simp: on_net_def split: prod.splits outcome.splits)
  ultimately show ?thesis using None r by auto
qed

theorem take_image_result_witness:
  "[''test.fits'' \<mapsto> []] (ti_imageFname take_image_initial) \<noteq> None \<and>
   take_image_body [''test.fits'' \<mapsto> []] False undefined quiet_net take_image_initial =
     Done (-1, (0, [], ''The specified output file already exist. Please specify a different name for the output.'' @ [newline]), None) \<and>
   (-1::int) = -1 \<and> (None :: process option) = None"
  using take_image_result [of "[''test.fits'' \<mapsto> []]" False undefined quiet_net take_image_initial "-1" 0 "[]"
      "''The specified output file already exist. Please specify a different name for the output.'' @ [newline]" None]
  by (simp add: take_image_body_def take_image_initial_def)

subsection \<open>Command lines of the programs as instances\<close>

definition write_data_cl :: CmdLine where
  "write_data_cl = cmdline_of ''Simple c++ program to write data to an ODILE board over Ethernet'' ''0.1'' (default_switches @ write_data_decls)"

lemma write_data_cl_wf:
  "fresh_cmdline write_data_cl" "names_ok (cl_objs write_data_cl)" "refs_ok write_data_cl" "store_inv (cl_objs write_data_cl)"
  "no_blank_flags (cl_objs write_data_cl)"
  using cmdline_of_wf [OF write_data_decls_ok] by (simp_all add: write_data_cl_def)

lemma write_data_required: "k < length (cl_objs write_data_cl) \<Longrightarrow> a_required (cl_objs write_data_cl ! k) \<Longrightarrow> k = 4"
proof -
  assume "k < length (cl_objs write_data_cl)" and r: "a_required (cl_objs write_data_cl ! k)"
  then have "k \<in> {0, 1, 2, 3, 4, 5, 6}" by (auto simp: write_data_cl_def default_switches_def write_data_decls_def)
  then show "k = 4" using r by (auto simp: write_data_cl_def default_switches_def write_data_decls_def decl_defs)
qed

lemma write_data_file_arg:
  "4 < length (cl_objs write_data_cl)" "6 < length (cl_objs write_data_cl)"
  "cl_objs write_data_cl ! 4 = string_decl ''f'' ''file'' ''Configuration file to read from'' True []"
  "cl_objs write_data_cl ! 6 = switch_decl ''d'' ''debug'' ''Enable debug output''"
  by (simp_all add: write_data_cl_def default_switches_def write_data_decls_def)

lemma write_data_file_ok: "item_ok (cl_objs write_data_cl) (Opt 4 l t)"
  using value_item_ok [OF write_data_file_arg(1) write_data_file_arg(3) [unfolded decl_defs], of t]
  by (simp add: ExtractValue_def del: item_ok.simps)

lemma write_data_cl_parsed:
  "\<exists>c'. parse (VNum 0) False write_data_cl [''write_data'', ''-f'', ''a''] = Returns c' False"
proof -
  have "render (cl_objs write_data_cl) [Opt 4 False ''a''] = [''-f'', ''a'']"
    using write_data_file_arg by (simp add: render_def spell_def flagStartString_def decl_defs)
  then show ?thesis
    using parse_rendered [of write_data_cl "[Opt 4 False ''a'']" "VNum 0" "''write_data''"] write_data_cl_wf
      write_data_file_ok write_data_required by (auto simp: write_data_cl_def)
qed

theorem parse_keeps_invariant_witness:
  "\<exists>c'. parse (VNum 0) False write_data_cl [''write_data'', ''-f'', ''a''] = Returns c' False \<and>
     store_inv (cl_objs c') \<and> all_typed (VNum 0) (cl_objs c') \<and>
     c' = write_data_cl\<lparr>cl_objs := cl_objs c', cl_progName := ''write_data''\<rparr>"
proof -
  obtain c' where "parse (VNum 0) False write_data_cl [''write_data'', ''-f'', ''a''] = Returns c' False"
    using write_data_cl_parsed by blast
  moreover have "all_typed (VNum 0) (cl_objs write_data_cl)"
    by (simp add: all_typed_def write_data_cl_def default_switches_def write_data_decls_def decl_defs multi_typed_def)
  ultimately show ?thesis
    using parse_keeps_invariant [of "VNum 0" False write_data_cl _ c' False] write_data_cl_wf by fastforce
qed

theorem parse_ends_witness:
  "(\<exists>c' ign'. parse (VNum 0) False write_data_cl [''write_data'', ''-q''] = Returns c' ign') \<or>
   parse (VNum 0) False write_data_cl [''write_data'', ''-q''] = Exits 0 \<or>
   parse (VNum 0) False write_data_cl [''write_data'', ''-q''] = Exits 1"
  by (rule parse_ends) (use write_data_cl_wf in \<open>simp_all add: write_data_cl_def\<close>)

theorem parse_sets_required_witness:
  "\<exists>c'. parse (VNum 0) False write_data_cl [''write_data'', ''-f'', ''a''] = Returns c' False \<and> isSet (cl_objs c' ! 4)"
proof -
  obtain c' where "parse (VNum 0) False write_data_cl [''write_data'', ''-f'', ''a''] = Returns c' False"
    using write_data_cl_parsed by blast
  moreover have "a_required (cl_objs write_data_cl ! 4)" by (simp add: write_data_file_arg decl_defs)
  ultimately show ?thesis
    using parse_sets_required [OF write_data_cl_wf(1), of "VNum 0" False _ c' False 4] write_data_file_arg(1) by blast
qed

theorem reset_undoes_parse_witness:
  "\<exists>c'. parse (VNum 0) False write_data_cl [''write_data'', ''-f'', ''a''] = Returns c' False \<and>
     CmdLine_reset c' = write_data_cl\<lparr>cl_progName := []\<rparr>"
proof -
  obtain c' where "parse (VNum 0) False write_data_cl [''write_data'', ''-f'', ''a''] = Returns c' False"
    using write_data_cl_parsed by blast
  moreover have "\<forall>a \<in> set (cl_objs write_data_cl). \<not> is_multi_switch a"
    by (simp add: write_data_cl_def default_switches_def write_data_decls_def decl_defs is_multi_switch_def)
  ultimately show ?thesis using reset_undoes_parse [OF write_data_cl_wf(1), of "VNum 0" False _ c' False] by blast
qed

theorem ignore_rest_survives_reset_witness:
  "parse (VNum 0) True (cmdline_of [] [] default_switches) [''prog'', ''--help''] =
     Returns ((cmdline_of [] [] default_switches)\<lparr>cl_progName := ''prog''\<rparr>) True"
  by (rule ignore_rest_survives_reset)
    (auto simp: cmdline_of_def default_switches_def mk_arg_def ignored_def is_switch_def refs_ok_def)

theorem parse_render_witness:
  "\<exists>c'. parse (VNum 0) False write_data_cl (''write_data'' # render (cl_objs write_data_cl) [Flg 6 True, Opt 4 True ''a b'']) = Returns c' False \<and>
    (\<forall>r l t. Opt r l t \<in> set [Flg 6 True, Opt 4 True ''a b''] \<longrightarrow>
       ExtractValue (value_type_of (cl_objs write_data_cl ! r)) (ValueArg_getValue (cl_objs write_data_cl ! r)) t =
         Inr (ValueArg_getValue (cl_objs c' ! r))) \<and>
    (\<forall>r l. Flg r l \<in> set [Flg 6 True, Opt 4 True ''a b''] \<longrightarrow>
       SwitchArg_getValue (cl_objs c' ! r) = (\<not> SwitchArg_getValue (cl_objs write_data_cl ! r))) \<and>
    (\<forall>k. k \<notin> item_ref ` set [Flg 6 True, Opt 4 True ''a b''] \<longrightarrow> cl_objs c' ! k = cl_objs write_data_cl ! k)"
proof (rule parse_render [OF write_data_cl_wf(1,2)])
  have "item_ok (cl_objs write_data_cl) (Flg 6 True)"
    using write_data_file_arg by (auto simp: is_switch_def decl_defs)
  then show "\<forall>it \<in> set [Flg 6 True, Opt 4 True ''a b'']. item_ok (cl_objs write_data_cl) it"
    using write_data_file_ok by (simp del: item_ok.simps)
  show "\<And>k. k < length (cl_objs write_data_cl) \<Longrightarrow> a_required (cl_objs write_data_cl ! k) \<Longrightarrow>
      k \<in> item_ref ` set [Flg 6 True, Opt 4 True ''a b'']"
    using write_data_required by auto
qed (simp_all add: write_data_cl_def)

theorem write_config_page_in_range_witness:
  "\<exists>opt. write_config_opts (VNum 0) [''write_config'', ''-p'', ''7''] = Go opt \<and> 0 \<le> wc_configPage opt \<and> wc_configPage opt \<le> 9"
proof -
  let ?ds = "default_switches @ write_config_decls"
  have d: "?ds ! 8 = page_decl" "length ?ds = 9" by (simp_all add: default_switches_def write_config_decls_def)
  have x: "ExtractValue T_int (VNum 0) ''7'' = Inr (VNum 7)" by code_simp
  then have ok: "\<forall>it \<in> set [Opt 8 False ''7'']. item_ok ?ds it"
    using d by (simp add: page_decl_def is_value_def ValueArg_extractValue_def checked_value_def PageConstraint_def flagStartString_def)
  have req: "k \<in> item_ref ` set [Opt 8 False ''7'']" if "k < length ?ds" "a_required (?ds ! k)" for k
  proof -
    have "?ds ! k \<in> set ?ds" using that(1) by (rule nth_mem)
    then show ?thesis using that(2)
      by (auto simp: default_switches_def write_config_decls_def decl_defs page_decl_def)
  qed
  have words: "map c_str [''write_config'', ''-p'', ''7''] = ''write_config'' # render ?ds [Opt 8 False ''7'']"
    using d by (simp add: render_def spell_def flagStartString_def page_decl_def)
  obtain opt where "write_config_opts (VNum 0) [''write_config'', ''-p'', ''7''] = Go opt"
    using options_rendered [OF write_config_cmdline_eq write_config_decls_ok ok _ req words, where initial = write_config_initial
        and val = write_config_values and u = "VNum 0"]
    unfolding write_config_opts_def by auto
  then show ?thesis using write_config_page_in_range [of "VNum 0" _ opt] by blast
qed

end
