(* ===== verification/ImageRuns.thy ===== *)
theory ImageRuns
  imports ProgramRuns
begin

text \<open>
  A complete run of \<open>take_image\<close>: on a network on which it can open sockets and send, with a board
  that delivers enough words and answers the question for its compile time, the program ends,
  shows its progress line by line and leaves no thread behind.
\<close>

subsection \<open>The reading thread\<close>

definition as_runs :: "schedule \<Rightarrow> event list" where
  "as_runs sched = map (\<lambda>(j, ev). Run j ev) sched"

text \<open>The words a schedule delivers to thread 0.\<close>

definition words_in :: "bool \<Rightarrow> schedule \<Rightarrow> int" where
  "words_in can_write sched = total_words (packets_to can_write 0 (as_runs sched))"

lemma sleep_captured:
  assumes "running p" and "captured p i mode a ds"
  shows "\<exists>p'. sleep sched p = Done p' \<and> running p' \<and> odile p' = odile p \<and> net_same (os p) (os p') \<and>
    writable (os p') = writable (os p) \<and> cfitsio p' = cfitsio p \<and>
    length (thread_vec p') = length (thread_vec p) \<and>
    captured p' i mode a (ds @ packets_to (writable (os p)) i (as_runs sched))"
  using assms
proof (induction sched arbitrary: p ds)
  case Nil
  then show ?case by (simp add: as_runs_def packets_to_def)
next
  case (Cons e sched)
  obtain j ev where e: "e = (j, ev)" by (cases e)
  have runs: "as_runs (e # sched) = Run j ev # as_runs sched" by (simp add: as_runs_def e)
  show ?case
  proof (cases "j < length (thread_vec p)")
    case True
    obtain p1 where p1: "thread_step ev j p = Done p1" "running p1" "odile p1 = odile p" "net_same (os p) (os p1)"
      using running_thread_step [OF Cons.prems(1) True] by blast
    have st: "step p (Run j ev) p1" using True p1(1) by (rule step.run)
    have inv: "proc_inv p" "proc_inv p1" using Cons.prems(1) p1(2) by (simp_all add: running_def)
    have len: "length (thread_vec p1) = length (thread_vec p)"
      using thread_step_local [OF p1(1) True inv(1)] by (metis length_list_update)
    have "i < length (thread_vec p1)" using Cons.prems(2) len by (simp add: captured_def)
    then have "th_pc (thread_vec p1 ! i) \<noteq> Exited" using p1(2) by (auto simp: running_def)
    then have c: "captured p1 i mode a (ds @ packets_to (writable (os p)) i [Run j ev])"
      using captured_step [OF Cons.prems(2) st inv(1)] by blast
    have w: "writable (os p1) = writable (os p)" using writable_step [OF st] .
    have f: "cfitsio p1 = cfitsio p" using thread_step_same [OF p1(1)] by simp
    from Cons.IH [OF p1(2) c] show ?thesis
      unfolding runs packets_to_Cons [of _ i "Run j ev" "as_runs sched"] append_assoc w
      using p1 e True net_same_trans [OF p1(4)] len f by auto
  next
    case False
    then have "j \<noteq> i" using Cons.prems(2) by (auto simp: captured_def)
    then have "packets_to (writable (os p)) i [Run j ev] = []" by (simp add: packets_to_def)
    with Cons.IH [OF Cons.prems] False e show ?thesis
      unfolding runs packets_to_Cons [of _ i "Run j ev" "as_runs sched"] by simp
  qed
qed

lemma total_words_append: "total_words (ds @ ds') = total_words ds + total_words ds'"
  by (simp add: total_words_def)

lemma captured_getWordsRead:
  assumes "captured p i mode a ds" and "running p"
  shows "getWordsRead p (int i) = Done (total_words ds)"
proof -
  have inv: "proc_inv p" using assms(2) by (simp add: running_def)
  obtain arg where a: "i < length (thread_vec p)" "arg_heap p (th_arg (thread_vec p ! i)) = Some arg"
    "ar_nread arg = Some (total_words ds)" "th_pc (thread_vec p ! i) \<noteq> Exited"
    using assms(1) by (auto simp: captured_def)
  have t: "thread_args (odile p) ! i = th_arg (thread_vec p ! i)" "length (thread_args (odile p)) = length (thread_vec p)"
    using proc_invD(1,2) [OF inv] a(1) by auto
  have "\<not> ar_finished arg" using proc_invD(4) [OF inv a(1)] a by (cases "th_pc (thread_vec p ! i)") (auto simp: arg_ok_def)
  then show ?thesis using a t by (simp add: getWordsRead_def isValidThread_def deref_def)
qed

subsection \<open>The reading loop\<close>

fun running_sums :: "int \<Rightarrow> int list \<Rightarrow> int list" where
  "running_sums n [] = []"
| "running_sums n (x # xs) = (n + x) # running_sums (n + x) xs"

text \<open>The counts the loop sees: up to the first one that is enough.\<close>

fun shown_counts :: "int \<Rightarrow> int list \<Rightarrow> int list" where
  "shown_counts npix [] = []"
| "shown_counts npix (c # cs) = c # (if c < npix then shown_counts npix cs else [])"

definition progress_text :: "int \<Rightarrow> int list \<Rightarrow> string" where
  "progress_text npix cs = concat (map (\<lambda>c. progress_line c npix) (shown_counts npix cs))"

lemma shown_counts_last:
  "\<exists>c \<in> set cs. npix \<le> c \<Longrightarrow> shown_counts npix cs \<noteq> [] \<and> npix \<le> last (shown_counts npix cs)"
  by (induction cs) auto

lemma total_words_nonneg: "0 \<le> total_words ds"
  unfolding total_words_def by (rule sum_list_nonneg) auto

definition fits_display :: "int \<Rightarrow> int \<Rightarrow> bool" where
  "fits_display npix c \<longleftrightarrow> c < 2 ^ 31 \<and> c \<le> 2 ^ 20 * npix"

lemma read_pixels_step:
  assumes "sleep sched p = Done p1" and "captured p1 0 mode a ds" and "running p1"
    and "n < npix" and "0 < npix" "npix < 2 ^ 31" and "fits_display npix (total_words ds)"
  shows "read_pixels (sched # rest) 0 npix n p =
    obind (read_pixels rest 0 npix (total_words ds) p1)
      (\<lambda>(m, shown, q). Done (m, progress_line (total_words ds) npix @ shown, q))"
proof -
  have "getWordsRead p1 0 = Done (total_words ds)" using captured_getWordsRead [OF assms(2,3)] by simp
  moreover have "print_progress (progress_of (total_words ds) npix) 70 = Done (progress_line (total_words ds) npix)"
    using assms total_words_nonneg by (intro print_progress_of) (auto simp: fits_display_def)
  ultimately show ?thesis using assms(1,4) by (simp add: read_pixels.simps [of "sched # rest"])
qed

lemma read_pixels_run:
  assumes "running p" "captured p 0 mode a ds" and "total_words ds < npix" and "0 < npix" "npix < 2 ^ 31"
    and "cs = running_sums (total_words ds) (map (words_in (writable (os p))) scheds)"
    and "\<exists>c \<in> set cs. npix \<le> c" and "\<forall>c \<in> set cs. fits_display npix c"
  shows "\<exists>q. read_pixels scheds 0 npix (total_words ds) p = Done (last (shown_counts npix cs), progress_text npix cs, q) \<and>
    running q \<and> odile q = odile p \<and> cfitsio q = cfitsio p \<and> net_same (os p) (os q)"
  using assms
proof (induction scheds arbitrary: p ds cs)
  case (Cons s ss)
  let ?ds = "ds @ packets_to (writable (os p)) 0 (as_runs s)"
  obtain p1 where p1: "sleep s p = Done p1" "running p1" "odile p1 = odile p" "net_same (os p) (os p1)"
      "writable (os p1) = writable (os p)" "cfitsio p1 = cfitsio p" "captured p1 0 mode a ?ds"
    using sleep_captured [OF Cons.prems(1,2), of s] by blast
  let ?c = "total_words ?ds" and ?cs = "running_sums (total_words ?ds) (map (words_in (writable (os p1))) ss)"
  have cs: "cs = ?c # ?cs" unfolding Cons.prems(6) p1(5) by (simp add: total_words_append words_in_def)
  have d: "fits_display npix ?c" using Cons.prems(8) cs by simp
  note step = read_pixels_step [OF p1(1,7,2) Cons.prems(3,4,5) d, of ss]
  show ?case
  proof (cases "?c < npix")
    case True
    obtain q where "read_pixels ss 0 npix ?c p1 = Done (last (shown_counts npix ?cs), progress_text npix ?cs, q)"
        "running q" "odile q = odile p1" "cfitsio q = cfitsio p1" "net_same (os p1) (os q)"
      using Cons.IH [OF p1(2,7) True Cons.prems(4,5) refl] Cons.prems(7,8) cs True by auto
    moreover have "shown_counts npix ?cs \<noteq> []" using shown_counts_last Cons.prems(7) cs True by auto
    ultimately show ?thesis
      unfolding step unfolding cs using True p1 net_same_trans [OF p1(4)] by (simp add: progress_text_def)
  next
    case False
    then have "read_pixels ss 0 npix ?c p1 = Done (?c, [], p1)" by (simp add: read_pixels.simps [of ss])
    then show ?thesis unfolding step unfolding cs using False p1 by (simp add: progress_text_def)
  qed
qed simp

text \<open>The first sleep, in which the thread opens its output.\<close>

lemma sleep_first:
  assumes "running p" "thread_vec p = []" and "p1 = snd (launchAsyncThread f ip port r c p)"
  shows "\<exists>p2 mode a. sleep ((0, ev) # sched) p1 = Done p2 \<and> running p2 \<and> odile p2 = odile p1 \<and> cfitsio p2 = cfitsio p \<and>
    net_same (os p) (os p2) \<and> writable (os p2) = writable (os p) \<and>
    captured p2 0 mode a (packets_to (writable (os p)) 0 (as_runs sched))"
proof -
  have p1: "running p1" "os p1 = os p" using running_launch [OF assms(1)] assms(3) by auto
  have t: "thread_vec p1 = [new_thread (fresh_ptr p)]" "cfitsio p1 = cfitsio p"
    "\<exists>arg. arg_heap p1 (fresh_ptr p) = Some arg"
    using assms(2,3) by (simp_all add: launchAsyncThread_def store_def Let_def)
  obtain q where q: "thread_step ev 0 p1 = Done q" "running q" "odile q = odile p1" "net_same (os p1) (os q)"
    using running_thread_step [OF p1(1), of 0 ev] t by auto
  have o: "thread_open 0 p1 = Done q" using q(1) t by (simp add: thread_step_def new_thread_def)
  obtain mode a where c: "captured q 0 mode a []" using captured_open [OF o] t by (auto simp: new_thread_def)
  have w: "writable (os q) = writable (os p)" using writable_thread_step [OF q(1)] p1(2) by simp
  have f: "cfitsio q = cfitsio p" using thread_step_same [OF q(1)] t by simp
  from sleep_captured [OF q(2) c, of sched] obtain p2 where p2: "sleep sched q = Done p2" "running p2" "odile p2 = odile q"
      "net_same (os q) (os p2)" "writable (os p2) = writable (os q)" "cfitsio p2 = cfitsio q"
      "captured p2 0 mode a (packets_to (writable (os q)) 0 (as_runs sched))" by auto
  have "sleep ((0, ev) # sched) p1 = Done p2" using q(1) p2(1) t by simp
  then show ?thesis using p2 q w f p1(2) net_same_trans [of "os p" "os q" "os p2"] by auto
qed

subsection \<open>The end of the run\<close>

lemma get_register_block: "get_register bname e srv = Done v \<Longrightarrow> \<exists>b. getBlock (configBlocks srv) bname = Done b"
  by (auto simp: get_register_def obind_eq_Done)

lemma getWordsToRead_block:
  "getWordsToRead srv nrows ncols nskips = Done n \<Longrightarrow> \<exists>b. getBlock (configBlocks srv) ''ADCConfigBlock'' = Done b"
  by (auto simp: getWordsToRead_def obind_eq_Done dest: get_register_block)

lemma ascii3_GCT: "ascii3 ''GCT''"
  by (simp add: ascii3_def byte_of_char_def)

lemma getCompileTime_answered:
  assumes "friendly w" and "8 \<le> length d"
  shows "\<exists>ct. getCompileTime srv (w\<lparr>rx := Queued d # es\<rparr>) = (Done ct,
    w\<lparr>rx := es, next_fd := next_fd w + 1,
      tx := tx w @ [\<lparr>dg_addr = c_addr (cmdClient srv), dg_port = c_port (cmdClient srv), dg_payload = command_payload ''GCT'' 0 0xFFFFFFFF\<rparr>]\<rparr>)"
proof -
  let ?ws = "words_received True (take BUFFSIZE d)"
  have len: "1 < length ?ws" using assms(2) by (simp add: BUFFSIZE_def words_received_def Let_def)
  have l: "can_listen srv COMMAND_PORT w" using assms(1) by (simp add: friendly_def can_open_def can_listen_def)
  show ?thesis
    using assms(1) l len
    by (simp add: getCompileTime_def bind_io_def sendCommand_ascii [OF ascii3_GCT] client_send_def friendly_def
        recieveData_blocking)
qed

lemma started:
  assumes "friendly w" and "start_server fits addr w = Done p"
  shows "running p" "friendly (os p)" "tx (os p) = tx w" "thread_vec p = []" "cfitsio p = fits" "writable (os p) = writable w"
    "odile p = \<lparr>odile_address = addr, configBlocks = ConfigBlockList_new, configClient = configClient (odile p),
       cmdClient = cmdClient (odile p), thread_args = [], server_address = NULL_IPADDRESS\<rparr>"
    "c_addr (configClient (odile p)) = addr" "c_port (configClient (odile p)) = 0x4268"
    "c_addr (cmdClient (odile p)) = addr" "c_port (cmdClient (odile p)) = 0x3000"
  using assms
  by (auto simp: start_server_def ODILEServer_new_def bind_io_def udp_client_new_def open_socket_def Let_def friendly_def
      can_open_def running_def proc_inv_def)

lemma take_image_config_blocks:
  "take_image_config fs opt srv0 = Done srv \<Longrightarrow> \<exists>l. srv = srv0\<lparr>configBlocks := l\<rparr>"
  by (auto simp: take_image_config_def readConfigData_def setNSkips_def setNTrigSamples_def set_register_def obind_eq_Done Let_def
      split: prod.splits if_splits)

text \<open>The reading loop after its launch.\<close>

lemma take_image_reading:
  assumes "running p" "thread_vec p = []" "thread_args (odile p) = []" and "p1 = snd (launchAsyncThread f ip port r c p)"
    and "0 < npix" "npix < 2 ^ 31"
    and "cs = running_sums 0 (map (words_in (writable (os p))) (s # ss))"
    and "\<exists>c \<in> set cs. npix \<le> c" and "\<forall>c \<in> set cs. fits_display npix c"
  shows "\<exists>q. read_pixels (((0, ev) # s) # ss) 0 npix 0 p1 = Done (last (shown_counts npix cs), progress_text npix cs, q) \<and>
    running q \<and> odile q = odile p1 \<and> cfitsio q = cfitsio p \<and> net_same (os p) (os q)"
proof -
  let ?ds = "packets_to (writable (os p)) 0 (as_runs s)"
  obtain p2 mode a where p2: "sleep ((0, ev) # s) p1 = Done p2" "running p2" "odile p2 = odile p1" "cfitsio p2 = cfitsio p"
    "net_same (os p) (os p2)" "writable (os p2) = writable (os p)" "captured p2 0 mode a ?ds"
    using sleep_first [OF assms(1,2,4), of ev s] by blast
  let ?c = "total_words ?ds" and ?cs = "running_sums (total_words ?ds) (map (words_in (writable (os p2))) ss)"
  have cs: "cs = ?c # ?cs" unfolding assms(7) p2(6) by (simp add: words_in_def)
  have "fits_display npix ?c" using assms(9) cs by simp
  note step = read_pixels_step [OF p2(1,7,2) assms(5,5,6) this, of ss]
  show ?thesis
  proof (cases "?c < npix")
    case True
    obtain q where "read_pixels ss 0 npix ?c p2 = Done (last (shown_counts npix ?cs), progress_text npix ?cs, q)"
        "running q" "odile q = odile p2" "cfitsio q = cfitsio p2" "net_same (os p2) (os q)"
      using read_pixels_run [OF p2(2,7) True assms(5,6) refl] assms(8,9) cs True by auto
    moreover have "shown_counts npix ?cs \<noteq> []" using shown_counts_last assms(8) cs True by auto
    ultimately show ?thesis
      unfolding step unfolding cs using True p2 net_same_trans [OF p2(5)] by (simp add: progress_text_def)
  next
    case False
    then have "read_pixels ss 0 npix ?c p2 = Done (?c, [], p2)" by (simp add: read_pixels.simps [of ss])
    then show ?thesis unfolding step unfolding cs using False p2 by (simp add: progress_text_def)
  qed
qed

definition config_datagram :: "string \<Rightarrow> u32 list \<Rightarrow> datagram" where
  "config_datagram addr msg = \<lparr>dg_addr = addr, dg_port = 0x4268, dg_payload = bytes_of_words msg\<rparr>"

definition compile_time_datagram :: "string \<Rightarrow> datagram" where
  "compile_time_datagram addr = \<lparr>dg_addr = addr, dg_port = 0x3000, dg_payload = command_payload ''GCT'' 0 0xFFFFFFFF\<rparr>"

text \<open>From the number of samples to the end of the program.\<close>

lemma take_image_read_completes:
  assumes "running p" "friendly (os p)" "thread_vec p = []" "thread_args (odile p) = []"
    and "c_addr (cmdClient (odile p)) = addr" "c_port (cmdClient (odile p)) = 0x3000"
    and "getBlock (configBlocks (odile p)) ''ADCConfigBlock'' = Done b"
    and "0 < npix" "npix < 2 ^ 31" "ti_nrows opt \<noteq> 0" and "te_sleeps env = ((0, ev) # s) # ss"
    and "cs = running_sums 0 (map (words_in (writable (os p))) (s # ss))"
    and "\<exists>c \<in> set cs. npix \<le> c" and "\<forall>c \<in> set cs. fits_display npix c"
    and "te_compiletime env = Queued d # es" and "8 \<le> length d"
  shows "\<exists>header q. take_image_read env opt npix p = Done (0, (last (shown_counts npix cs), header,
      reading_text npix @ progress_text npix cs @ total_text (cfitsio p) (last (shown_counts npix cs))), Some q) \<and>
    tx (os q) = tx (os p) @ [compile_time_datagram addr] \<and>
    (\<forall>t \<in> set (thread_vec q). th_pc t = Exited) \<and> (\<forall>a \<in> set (thread_args (odile q)). arg_heap q a = None)"
proof -
  let ?fc = "div_c npix (ti_nrows opt)"
  have fc: "int_div npix (ti_nrows opt) = Done ?fc" using assms(8,10) by (simp add: int_div_def)
  let ?l = "launchAsyncThread (ti_imageFname opt) (ti_servIpAddress opt) (ti_port opt) (ti_nrows opt) ?fc p"
  have tid: "fst ?l = 0" using assms(4) by (simp add: launchAsyncThread_def Let_def)
  have srv: "configBlocks (odile (snd ?l)) = configBlocks (odile p)" "cmdClient (odile (snd ?l)) = cmdClient (odile p)"
    by (simp_all add: launchAsyncThread_def store_def Let_def)
  obtain q where q: "read_pixels (te_sleeps env) 0 npix 0 (snd ?l) = Done (last (shown_counts npix cs), progress_text npix cs, q)"
      "running q" "odile q = odile (snd ?l)" "cfitsio q = cfitsio p" "net_same (os p) (os q)"
    using take_image_reading [OF assms(1,3,4) refl assms(8,9,12-14), where ev = ev and f = "ti_imageFname opt" and
        ip = "ti_servIpAddress opt" and port = "ti_port opt" and r = "ti_nrows opt" and c = ?fc] assms(11) by auto
  have fr: "friendly (os q)" using friendly_same [OF q(5) assms(2)] .
  obtain ct where ct: "getCompileTime (odile q) ((os q)\<lparr>rx := Queued d # es\<rparr>) = (Done ct, (os q)\<lparr>rx := es,
      next_fd := next_fd (os q) + 1, tx := tx (os q) @ [compile_time_datagram addr]\<rparr>)"
    using getCompileTime_answered [OF fr assms(16), of "odile q" es] q(3) srv assms(5,6)
    by (auto simp: compile_time_datagram_def)
  let ?w = "(os q)\<lparr>rx := es, next_fd := next_fd (os q) + 1, tx := tx (os q) @ [compile_time_datagram addr]\<rparr>"
  have net: "on_net (te_compiletime env) (getCompileTimeStr (te_asctime env) (odile q)) q = Done (te_asctime env ct, q\<lparr>os := ?w\<rparr>)"
    using ct assms(15) by (simp add: on_net_def getCompileTimeStr_def bind_io_def ret_io_def)
  obtain st header where h: "writeFitsHeader (cfitsio p) (odile q) (te_now env) (ti_imageFname opt) (word_of_int (ti_nskips opt))
      ''L'' (5 :: int) 100 (te_asctime env ct) = Done (st, header)"
    using assms(7) q(3) srv by (cases "cfitsio p") (auto simp: writeFitsHeader_def)
  have "running (q\<lparr>os := ?w\<rparr>)" using running_os [OF q(2)] fr by (simp add: friendly_def can_open_def)
  then obtain r where r: "ODILEServer_delete (q\<lparr>os := ?w\<rparr>) = Done r" "net_same ?w (os r)"
      "\<forall>t \<in> set (thread_vec r). th_pc t = Exited" "\<forall>a \<in> set (thread_args (odile r)). arg_heap r a = None"
    using running_delete by fastforce
  have "tx (os r) = tx (os p) @ [compile_time_datagram addr]" using r(2) q(5) by (simp add: net_same_def)
  then show ?thesis
    using fc tid q(1,4) net h r(1,3,4)
    by (simp add: take_image_read_def split_beta finish_def)
qed

text \<open>
  C8. \<open>take_image\<close> on a friendly network whose board delivers enough words in the sleeps of the reading
  loop and answers the question for its compile time. It ends with status 0, having counted at
  least the words asked for; it has printed the configuration texts, the number of samples, one
  progress line per count and the total; it has sent the configuration and the one command; and
  when it ends the reading thread has exited and its argument structure is freed.
\<close>

theorem take_image_completes:
  assumes "friendly w" and "fs (ti_imageFname opt) = None"
    and "start_server fits (ti_ipAddress opt) w = Done p" and "take_image_config fs opt (odile p) = Done srv"
    and "getConfigMessage (configBlocks srv) = (msg, l)"
    and "getWordsToRead (srv\<lparr>configBlocks := l\<rparr>) (ti_nrows opt) (ti_ncols opt) (ti_nskips opt) = Done npix"
    and "0 < npix" "npix < 2 ^ 31" and "ti_nrows opt \<noteq> 0"
    and "te_sleeps env = ((0, ev) # s) # ss"
    and "cs = running_sums 0 (map (words_in (writable w)) (s # ss))"
    and "\<exists>c \<in> set cs. npix \<le> c" and "\<forall>c \<in> set cs. fits_display npix c"
    and "te_compiletime env = Queued d # es" and "8 \<le> length d"
  shows "\<exists>n header q. take_image_body fs fits env w opt = Done (0, (n, header,
      take_image_config_text fs opt (odile p) @ reading_text npix @ progress_text npix cs @ total_text fits n), Some q) \<and>
    n = last (shown_counts npix cs) \<and> npix \<le> n \<and>
    tx (os q) = tx w @ [config_datagram (ti_ipAddress opt) msg, compile_time_datagram (ti_ipAddress opt)] \<and>
    (\<forall>t \<in> set (thread_vec q). th_pc t = Exited) \<and> (\<forall>a \<in> set (thread_args (odile q)). arg_heap q a = None)"
proof -
  note p = started [OF assms(1,3)]
  let ?addr = "ti_ipAddress opt" and ?srv1 = "srv\<lparr>configBlocks := l\<rparr>"
  obtain l0 where l0: "srv = (odile p)\<lparr>configBlocks := l0\<rparr>" using take_image_config_blocks [OF assms(4)] ..
  let ?w = "(os p)\<lparr>rx := [], tx := tx (os p) @ [config_datagram ?addr msg]\<rparr>"
  obtain k where net: "on_net [] (sendConfigData srv) p = Done ((k, ?srv1), p\<lparr>os := ?w\<rparr>)"
    using p(2,8,9) l0 assms(5)
    by (simp add: on_net_def sendConfigData_def bind_io_def client_send_words_def client_send_def friendly_def ret_io_def
        config_datagram_def)
  let ?P = "p\<lparr>os := ?w, odile := ?srv1\<rparr>"
  have args: "thread_args (odile p) = []" by (subst p(7)) simp
  have run: "running ?P" using p(1,2,4) args l0 by (simp add: running_def proc_inv_def friendly_def can_open_def)
  have fr: "friendly (os ?P)" using p(2) by (simp add: friendly_def can_open_def)
  obtain b where b: "getBlock (configBlocks ?srv1) ''ADCConfigBlock'' = Done b" using getWordsToRead_block [OF assms(6)] ..
  obtain header q where r: "take_image_read env opt npix ?P = Done (0, (last (shown_counts npix cs), header,
      reading_text npix @ progress_text npix cs @ total_text (cfitsio ?P) (last (shown_counts npix cs))), Some q)"
      "tx (os q) = tx (os ?P) @ [compile_time_datagram ?addr]"
      "\<forall>t \<in> set (thread_vec q). th_pc t = Exited" "\<forall>a \<in> set (thread_args (odile q)). arg_heap q a = None"
    using take_image_read_completes [OF run fr, where addr = ?addr and b = b and npix = npix and opt = opt and env = env and
        ev = ev and s = s and ss = ss and cs = cs and d = d and es = es] p args l0 b assms(7-15) by auto
  show ?thesis
    using assms(2-4,6) net r p(3,5) shown_counts_last [OF assms(12)] by (simp add: take_image_body_def)
qed

text \<open>An image of two pixels, two samples each, that arrives in one datagram.\<close>

definition small_image :: take_image_options where
  "small_image = take_image_initial\<lparr>ti_nrows := 2, ti_ncols := 1, ti_nTrigSamps := 1\<rparr>"

lemma started_quiet: "\<exists>p. start_server False ''192.168.0.3'' quiet_net = Done p \<and> odile p = demo_server"
proof -
  obtain w where "ODILEServer_new ''192.168.0.3'' quiet_net = (Done demo_server, w)"
    using demo_server_new by (metis prod.collapse)
  then show ?thesis by (simp add: start_server_def)
qed

text \<open>Registers are read from the names and entries of the blocks; messages do not matter.\<close>

definition registers :: "ConfigBlockList \<Rightarrow> (string \<times> ConfigEntry list) list" where
  "registers l = map (\<lambda>b. (block_name b, config_entries b)) (cb_blocks l)"

lemma get_register_registers:
  "get_register bn en srv =
     (case find_first (\<lambda>x. fst x = bn) (registers (configBlocks srv)) of
        None \<Rightarrow> UB ''getBlock: no return''
      | Some i \<Rightarrow> (case find_first (\<lambda>e. entry_name e = en) (snd (registers (configBlocks srv) ! i)) of
           None \<Rightarrow> UB ''getConfigEntry: no return'' | Some j \<Rightarrow> Done (entry_value (snd (registers (configBlocks srv) ! i) ! j))))"
  by (auto simp: get_register_def getBlock_def getConfigEntry_def registers_def find_first_map comp_def dest: find_first_bound
      split: option.split)

lemma registers_no_file:
  assumes "fs f = None"
  shows "registers (snd (list_readINI fs f l)) = registers l"
  using assms
  by (simp add: registers_def list_readINI_def INIReader_new_def ini_parse_def empty_reader_def block_readINI_def GetSections_def
      createConfigMessages_def Let_def comp_def)

lemma registers_getConfigMessage: "registers (snd (getConfigMessage l)) = registers l"
  by (simp add: registers_def getConfigMessage_eq createConfigMessages_def Let_def comp_def)

lemma get_register_cong: "registers (configBlocks s) = registers (configBlocks s') \<Longrightarrow> get_register bn en s = get_register bn en s'"
  unfolding get_register_registers by (erule arg_cong)

lemma small_image_words:
  "\<exists>s. take_image_config Map.empty small_image demo_server = Done s \<and>
     getWordsToRead (s\<lparr>configBlocks := snd (getConfigMessage (configBlocks s))\<rparr>) 2 1 1 = Done 4"
proof -
  let ?s1 = "snd (readConfigData Map.empty ''config.ini'' demo_server)"
  have r1: "get_register bn en ?s1 = get_register bn en demo_server" for bn en
    by (rule get_register_cong) (simp add: readConfigData_def Let_def split_beta registers_no_file)
  obtain s where s: "setNTrigSamples 1 ?s1 = Done s"
    using set_register_defined demo_registers(3) r1 unfolding setNTrigSamples_def by metis
  let ?s2 = "s\<lparr>configBlocks := snd (getConfigMessage (configBlocks s))\<rparr>"
  have r2: "get_register bn en ?s2 = get_register bn en s" for bn en
    by (rule get_register_cong) (simp add: registers_getConfigMessage)
  have "get_register ''ADCConfigBlock'' en ?s2 =
      (if en = ''ADC_Trigger_Samples'' then Done 1 else get_register ''ADCConfigBlock'' en demo_server)" for en
    unfolding r2 using get_set_register [OF s [unfolded setNTrigSamples_def], of "''ADCConfigBlock''" en] r1 by simp
  then have "getWordsToRead ?s2 2 1 1 = Done 4"
    using demo_registers by (simp add: getWordsToRead_def int_mul_def)
  moreover have "take_image_config Map.empty small_image demo_server = Done s"
    using s by (simp add: take_image_config_def small_image_def take_image_initial_def)
  ultimately show ?thesis by blast
qed

theorem take_image_completes_witness:
  "\<exists>header t q. take_image_body Map.empty False
      \<lparr>te_asctime = (\<lambda>_. []), te_now = [], te_sleeps = [[(0, Silent), (0, Silent)], [(0, Queued (replicate 16 0))]],
       te_compiletime = [Queued (replicate 8 0)]\<rparr> quiet_net small_image =
    Done (0, (4, header, take_image_config_text Map.empty small_image demo_server @ reading_text 4 @ progress_line 0 4 @ progress_line 4 4 @ t), Some q) \<and>
    (\<forall>t \<in> set (thread_vec q). th_pc t = Exited)"
proof -
  let ?env = "\<lparr>te_asctime = (\<lambda>_. []), te_now = [], te_sleeps = [[(0, Silent), (0, Silent)], [(0, Queued (replicate 16 0))]],
       te_compiletime = [Queued (replicate 8 0)]\<rparr>"
  obtain p where p: "start_server False ''192.168.0.3'' quiet_net = Done p" "odile p = demo_server"
    using started_quiet by blast
  obtain srv where srv: "take_image_config Map.empty small_image demo_server = Done srv"
      "getWordsToRead (srv\<lparr>configBlocks := snd (getConfigMessage (configBlocks srv))\<rparr>) 2 1 1 = Done 4"
    using small_image_words by blast
  obtain msg l where m: "getConfigMessage (configBlocks srv) = (msg, l)" by fastforce
  have opt: "ti_imageFname small_image = ''test.fits''" "ti_ipAddress small_image = ''192.168.0.3''"
    "ti_nrows small_image = 2" "ti_ncols small_image = 1" "ti_nskips small_image = 1"
    by (simp_all add: small_image_def take_image_initial_def)
  have fr: "friendly quiet_net" by (simp add: friendly_def can_open_def quiet_net_def)
  have ws: "running_sums 0 (map (words_in (writable quiet_net)) [[(0, Silent)], [(0, Queued (replicate 16 0))]]) = [0, 4]"
    by (simp add: words_in_def as_runs_def packets_to_def packet_of_def total_words_def quiet_net_def BUFFSIZE_def)
  have "\<exists>n header q. take_image_body Map.empty False ?env quiet_net small_image = Done (0, (n, header,
      take_image_config_text Map.empty small_image (odile p) @ reading_text 4 @ progress_text 4 [0, 4] @ total_text False n), Some q) \<and>
    n = last (shown_counts 4 [0, 4]) \<and> 4 \<le> n \<and>
    tx (os q) = tx quiet_net @ [config_datagram (ti_ipAddress small_image) msg, compile_time_datagram (ti_ipAddress small_image)] \<and>
    (\<forall>t \<in> set (thread_vec q). th_pc t = Exited) \<and> (\<forall>a \<in> set (thread_args (odile q)). arg_heap q a = None)"
    by (rule take_image_completes [OF fr, where srv = srv and l = l and ev = Silent and s = "[(0, Silent)]" and
          ss = "[[(0, Queued (replicate 16 0))]]" and d = "replicate 8 0" and es = "[]"])
      (use p srv m ws in \<open>simp_all add: opt fits_display_def\<close>)
  then show ?thesis using p(2) by (auto simp: progress_text_def)
qed

end
