(* ===== verification/ProgramConsole.thy ===== *)
theory ProgramConsole
  imports ImageRuns
begin

text \<open>
  What \<open>write_config\<close> and \<open>write_firmware\<close> print, in order with what they do; forgetting the text gives
  the programs of theory \<open>Programs\<close>. (\<open>read_data\<close> prints what \<open>readEPCQ\<close> prints, \<open>write_data\<close> nothing.) A
  configuration file that cannot be read is reported, but the default configuration is sent all
  the same.
\<close>

subsection \<open>A local server object\<close>

definition with_object_out :: "'o io \<Rightarrow> ('o \<Rightarrow> unit io) \<Rightarrow> ('o \<Rightarrow> 'a out) \<Rightarrow> 'a out" where
  "with_object_out ctor dtor body w =
     (case ctor w of
        (Done ob, w1) \<Rightarrow>
          (case body ob w1 of
             (t, Done a, w2) \<Rightarrow> (t, Done a, snd (dtor ob w2))
           | (t, Throws e, w2) \<Rightarrow> (t, Throws e, snd (dtor ob w2))
           | (t, UB e, w2) \<Rightarrow> (t, UB e, w2)
           | (t, Blocks, w2) \<Rightarrow> (t, Blocks, w2))
      | (Throws e, w1) \<Rightarrow> ([], Throws e, w1)
      | (UB e, w1) \<Rightarrow> ([], UB e, w1)
      | (Blocks, w1) \<Rightarrow> ([], Blocks, w1))"

lemma effects_with_object [simp]:
  "effects (with_object_out ctor dtor body) = with_object ctor dtor (\<lambda>ob. effects (body ob))"
  by (rule ext) (auto simp: effects_def with_object_out_def with_object_def split: prod.split outcome.split)

definition with_server_out :: "string \<Rightarrow> (ODILEServer \<Rightarrow> 'a out) \<Rightarrow> 'a out" where
  "with_server_out addr body = with_object_out (ODILEServer_new addr) server_delete body"

lemma effects_with_server [simp]: "effects (with_server_out addr body) = with_server addr (\<lambda>srv. effects (body srv))"
  by (simp add: with_server_out_def with_server_def)

subsection \<open>The programs\<close>

definition write_config_out :: "files \<Rightarrow> bool \<Rightarrow> write_config_options \<Rightarrow> (int \<times> files) out" where
  "write_config_out fs wr opt =
     with_server_out (wc_ipAddress opt) (\<lambda>server.
       bind_out
         (if wc_flashConfig opt then writeFlashConfig_file_out fs server (wc_configPage opt) (wc_configFname opt)
          else sendConfigData_file_out fs (wc_configFname opt) server) (\<lambda>(_, server1).
         let (fs1, l) =
               (if wc_writeDefault opt
                then case list_writeINI fs wr ''default.ini'' (configBlocks server1) of (_, fs', l) \<Rightarrow> (fs', l)
                else (fs, configBlocks server1))
         in bind_out (say (if wc_enableDebug opt then debug_text l else [])) (\<lambda>_. quiet (ret_io (0, fs1)))))"

definition map_file_text :: "write_firmware_options \<Rightarrow> string \<Rightarrow> string" where
  "map_file_text opt mapFile =
     (if wf_mapFile opt = [] then ''.map file not given, assuming file is: '' @ mapFile @ [newline] else [])"

definition write_firmware_out :: "files \<Rightarrow> write_firmware_options \<Rightarrow> int out" where
  "write_firmware_out fs opt =
     bind_out (quiet (\<lambda>w. (map_file_name opt, w))) (\<lambda>mapFile.
     bind_out (say (map_file_text opt mapFile)) (\<lambda>_.
     bind_out (say (if address_warning opt
                then ''Warning, address is not application, rerun with force flag enabled to write firmware'' @ [newline] else [])) (\<lambda>_.
       with_server_out (wf_ipAddress opt) (\<lambda>server.
         bind_out (writeFirmware_out fs (setServerAddress server ''192.168.0.1'') (wf_rpdFile opt) mapFile
                    (word_of_int (wf_startAddress opt)))
           (\<lambda>_. quiet (ret_io 0))))))"

lemma with_object_bind_pure:
  "with_object ctor dtor (\<lambda>ob. bind_io (body ob) (\<lambda>a. ret_io (g a))) = bind_io (with_object ctor dtor body) (\<lambda>a. ret_io (g a))"
  by (rule ext) (auto simp: with_object_def bind_io_def ret_io_def split: prod.split outcome.split)

theorem write_config_out_effects:
  "effects (write_config_out fs wr opt) = bind_io (write_config_body fs wr opt) (\<lambda>r. ret_io (fst r, fst (snd r)))"
proof -
  have "effects (if wc_flashConfig opt then writeFlashConfig_file_out fs server (wc_configPage opt) (wc_configFname opt)
        else sendConfigData_file_out fs (wc_configFname opt) server) =
      (if wc_flashConfig opt then writeFlashConfig_file fs server (wc_configPage opt) (wc_configFname opt)
        else sendConfigData_file fs (wc_configFname opt) server)" for server
    by simp
  then show ?thesis
    unfolding write_config_out_def write_config_body_def effects_with_server with_server_def with_object_bind_pure [symmetric]
    by (simp add: bind_io_assoc split_beta Let_def del: bind_io_unit) (simp only: bind_io_unit fst_conv snd_conv)
qed

theorem write_firmware_out_effects:
  "effects (write_firmware_out fs opt) = bind_io (write_firmware_body fs opt) (\<lambda>r. ret_io (fst r))"
  unfolding write_firmware_out_def write_firmware_body_def bind_io_assoc with_server_def with_object_bind_pure [symmetric]
  by (simp only: effects_bind effects_quiet effects_say effects_with_server with_server_def bind_io_assoc bind_io_unit fst_conv effects_writeFirmware)

text \<open>
  When the configuration file cannot be read, \<open>write_config\<close> says so, and then sends the default
  configuration to the board and exits with status 0.
\<close>

lemma list_readINI_no_file:
  assumes "fs f = None"
  shows "fst (list_readINI fs f l) = -1" "cb_write_all (snd (list_readINI fs f l)) = cb_write_all l"
    "map (\<lambda>b. (block_address b, block_name b, config_entries b)) (cb_blocks (snd (list_readINI fs f l))) =
     map (\<lambda>b. (block_address b, block_name b, config_entries b)) (cb_blocks l)"
  using assms
  by (simp_all add: list_readINI_def INIReader_new_def ini_parse_def empty_reader_def block_readINI_def GetSections_def
      createConfigMessages_def ParseError_def Let_def comp_def)

lemma message_of_entries:
  assumes "cb_write_all l' = cb_write_all l"
    and "map (\<lambda>b. (block_address b, block_name b, config_entries b)) (cb_blocks l') =
      map (\<lambda>b. (block_address b, block_name b, config_entries b)) (cb_blocks l)"
  shows "fst (getConfigMessage l') = fst (getConfigMessage l)"
proof -
  let ?m = "\<lambda>(a, n :: string, es). map (\<lambda>e. bswap_32 (config_word a e)) (filter (entry_selected (cb_write_all l)) es)"
  have "fst (getConfigMessage k) = concat (map ?m (map (\<lambda>b. (block_address b, block_name b, config_entries b)) (cb_blocks k)))"
    if "cb_write_all k = cb_write_all l" for k
    using that by (simp add: getConfigMessage_eq block_messages_def [abs_def] comp_def)
  from this [of l'] this [of l] show ?thesis using assms by (simp only: assms(2))
qed

theorem write_config_missing_file:
  assumes "friendly w" and "fs (wc_configFname opt) = None" and "\<not> wc_flashConfig opt" "\<not> wc_writeDefault opt" "\<not> wc_enableDebug opt"
  shows "\<exists>w'. write_config_out fs wr opt w =
      (''Error reading configuration file, error on line: -1'' @ [newline], Done (0, fs), w') \<and>
    tx w' = tx w @ [config_datagram (wc_ipAddress opt) (fst (getConfigMessage ConfigBlockList_new))]"
proof -
  let ?r = "\<lambda>l. snd (list_readINI fs (wc_configFname opt) l)"
  have m: "fst (getConfigMessage (?r (?r ConfigBlockList_new))) = fst (getConfigMessage ConfigBlockList_new)"
    using list_readINI_no_file(2,3) [of fs "wc_configFname opt"] assms(2) by (intro message_of_entries) auto
  have e: "dec_int (-1) = ''-1''" by code_simp
  show ?thesis
    using assms m e list_readINI_no_file(1) [of fs "wc_configFname opt"]
    by (simp add: write_config_out_def with_server_out_def with_object_out_def ODILEServer_new_def bind_io_def
        udp_client_new_def open_socket_def Let_def sendConfigData_file_out_def bind_out_def say_def quiet_def ret_io_def
        sendConfigData_def readConfigData_def config_error_text_def client_send_words_def client_send_def
        udp_client_delete_def server_delete_def friendly_def can_open_def split_beta config_datagram_def)
qed

theorem write_config_missing_file_witness:
  "\<exists>w'. write_config_out Map.empty True (write_config_initial\<lparr>wc_configFname := ''no.ini''\<rparr>) quiet_net =
      (''Error reading configuration file, error on line: -1'' @ [newline], Done (0, Map.empty), w') \<and>
    tx w' = tx quiet_net @ [config_datagram ''192.168.0.3'' (fst (getConfigMessage ConfigBlockList_new))]"
  using write_config_missing_file [of quiet_net Map.empty "write_config_initial\<lparr>wc_configFname := ''no.ini''\<rparr>" True]
  by (simp add: friendly_def can_open_def quiet_net_def write_config_initial_def)

end
