(* ===== verification/TclapOutput.thy ===== *)
theory TclapOutput
  imports TclapParse
begin

text \<open>
  \<open>StdOutput.h\<close>: the texts of \<open>--help\<close>, \<open>--version\<close> and of a parse error, and \<open>spacePrint\<close>, which breaks
  and indents long lines. Shown: \<open>spacePrint\<close> ends, keeps every line within the width and drops nothing
  but white space; so the usage of any command line is printed in full.
\<close>

subsection \<open>\<open>spacePrint\<close>\<close>

definition is_break :: "char \<Rightarrow> bool" where
  "is_break c \<longleftrightarrow> c = CHR '' '' \<or> c = CHR '','' \<or> c = CHR ''|''"

text \<open>The loop that shortens the line to the last break; \<open>-1\<close> when there is none.\<close>

fun trim_word :: "string \<Rightarrow> nat \<Rightarrow> nat \<Rightarrow> int" where
  "trim_word s start stringLen =
     (if is_break (char_at s (stringLen + start)) then int stringLen
      else case stringLen of 0 \<Rightarrow> - 1 | Suc k \<Rightarrow> trim_word s start k)"

declare trim_word.simps [simp del]

text \<open>The length of the next line: the word at the end, a word longer than the line, a newline.\<close>

definition word_length :: "string \<Rightarrow> nat \<Rightarrow> nat \<Rightarrow> nat" where
  "word_length s start allowedLen =
     (let l0 = min (length s - start) allowedLen;
          l1 = (if l0 = allowedLen then trim_word s start l0 else int l0)
      in if l1 \<le> 0 then allowedLen else nat l1)"

definition line_length :: "string \<Rightarrow> nat \<Rightarrow> nat \<Rightarrow> nat" where
  "line_length s start allowedLen =
     (let l = word_length s start allowedLen
      in case find_first (\<lambda>c. c = newline) (take l (drop start s)) of Some i \<Rightarrow> i + 1 | None \<Rightarrow> l)"

text \<open>\<open>while (s[stringLen+start] == ' ' && start < len) start++\<close>.\<close>

fun skip_spaces :: "nat \<Rightarrow> string \<Rightarrow> nat \<Rightarrow> nat \<Rightarrow> nat" where
  "skip_spaces 0 s stringLen start = start"
| "skip_spaces (Suc n) s stringLen start =
     (if char_at s (stringLen + start) = CHR '' '' \<and> start < length s then skip_spaces n s stringLen (start + 1) else start)"

definition indent :: "nat \<Rightarrow> string" where
  "indent n = replicate n (CHR '' '')"

text \<open>
  The loop over the lines, with a bound on the rounds. None: it does not end (a round that makes no
  progress repeats), or the line length is negative and the string is read outside its bounds.
\<close>

fun space_lines :: "nat \<Rightarrow> string \<Rightarrow> nat \<Rightarrow> nat \<Rightarrow> int \<Rightarrow> nat \<Rightarrow> string option" where
  "space_lines n s start indentSpaces allowedLen secondLineOffset =
     (if \<not> start < length s then Some []
      else if allowedLen < 0 then None
      else case n of 0 \<Rightarrow> None
           | Suc m \<Rightarrow>
               let l = line_length s start (nat allowedLen);
                   line = indent indentSpaces @ take l (drop start s) @ [newline];
                   indent' = (if start = 0 then indentSpaces + secondLineOffset else indentSpaces);
                   allowed' = (if start = 0 then allowedLen - int secondLineOffset else allowedLen);
                   start1 = skip_spaces (length s) s l start
               in map_option (\<lambda>t. line @ t) (space_lines m s (start1 + l) indent' allowed' secondLineOffset))"

declare space_lines.simps [simp del]

definition spacePrint :: "string \<Rightarrow> int \<Rightarrow> nat \<Rightarrow> nat \<Rightarrow> string option" where
  "spacePrint s maxWidth indentSpaces secondLineOffset =
     (if int (length s) + int indentSpaces > maxWidth \<and> maxWidth > 0
      then space_lines (length s + 1) s 0 indentSpaces (maxWidth - int indentSpaces) secondLineOffset
      else Some (indent indentSpaces @ s @ [newline]))"

subsection \<open>Usage, version, failure\<close>

definition cat :: "string option \<Rightarrow> string option \<Rightarrow> string option" where
  "cat a b = (case a of None \<Rightarrow> None | Some s \<Rightarrow> map_option (\<lambda>t. s @ t) b)"

definition cats :: "string option list \<Rightarrow> string option" where
  "cats xs = foldr cat xs (Some [])"

text \<open>A group: the ids separated by bars; the last character becomes the closing brace.\<close>

definition xor_short :: "CmdLine \<Rightarrow> ref list \<Rightarrow> string" where
  "xor_short c ors =
     butlast ('' {'' @ concat (map (\<lambda>r. shortID (cl_delimiter c) (cl_objs c ! r) @ ''|'') ors)) @ ''}''"

definition other_args :: "CmdLine \<Rightarrow> ref list" where
  "other_args c = filter (\<lambda>r. \<not> XorHandler_contains (cl_orList c) r) (cl_argList c)"

definition short_text :: "CmdLine \<Rightarrow> string" where
  "short_text c =
     cl_progName c @ '' '' @ concat (map (xor_short c) (cl_orList c)) @
     concat (map (\<lambda>r. '' '' @ shortID (cl_delimiter c) (cl_objs c ! r)) (other_args c))"

definition shortUsage :: "CmdLine \<Rightarrow> string option" where
  "shortUsage c = spacePrint (short_text c) 75 3 (min (length (cl_progName c) + 2) (75 div 2))"

definition long_arg :: "CmdLine \<Rightarrow> ref \<Rightarrow> string option" where
  "long_arg c r =
     cat (spacePrint (longID (cl_delimiter c) (cl_objs c ! r)) 75 3 3) (spacePrint (getDescription (cl_objs c ! r)) 75 5 0)"

fun xor_long :: "CmdLine \<Rightarrow> ref list \<Rightarrow> string option" where
  "xor_long c [] = Some []"
| "xor_long c [r] = long_arg c r"
| "xor_long c (r # rs) = cats [long_arg c r, spacePrint ''-- OR --'' 75 9 0, xor_long c rs]"

definition longUsage :: "CmdLine \<Rightarrow> string option" where
  "longUsage c =
     cats (map (\<lambda>ors. cat (xor_long c ors) (Some [newline, newline])) (cl_orList c) @
           map (\<lambda>r. cat (long_arg c r) (Some [newline])) (other_args c) @
           [Some [newline], spacePrint (cl_message c) 75 3 0])"

definition usage :: "CmdLine \<Rightarrow> string option" where
  "usage c =
     cats [Some ([newline] @ ''USAGE: '' @ [newline, newline]), shortUsage c,
           Some ([newline, newline] @ ''Where: '' @ [newline, newline]), longUsage c, Some [newline]]"

definition version :: "CmdLine \<Rightarrow> string" where
  "version c = [newline] @ cl_progName c @ ''  version: '' @ cl_version c @ [newline, newline]"

text \<open>What \<open>failure\<close> prints before it throws; with no help switch the second part goes to standard output.\<close>

definition failure :: "CmdLine \<Rightarrow> tclap_exn \<Rightarrow> string option" where
  "failure c e =
     cat (Some (''PARSE ERROR: '' @ exn_argId e @ [newline] @ ''             '' @ exn_error e @ [newline, newline]))
       (if cl_helpAndVersion c
        then cats [Some (''Brief USAGE: '' @ [newline]), shortUsage c,
                   Some ([newline] @ ''For complete USAGE and HELP type: '' @ [newline] @ ''   '' @ cl_progName c @ '' '' @
                         nameStartString @ ''help'' @ [newline, newline])]
        else usage c)"

subsection \<open>Lines\<close>

fun text_lines :: "string \<Rightarrow> string list" where
  "text_lines [] = [[]]"
| "text_lines (c # cs) =
     (if c = newline then [] # text_lines cs
      else case text_lines cs of [] \<Rightarrow> [[c]] | l # ls \<Rightarrow> (c # l) # ls)"

lemma text_lines_not_Nil: "text_lines s \<noteq> []"
  by (cases s) (auto split: list.split)

lemma text_lines_append: "text_lines (a @ newline # b) = text_lines a @ text_lines b"
proof (induction a)
  case (Cons c a)
  then show ?case using text_lines_not_Nil [of a] by (cases "text_lines a") auto
qed simp

lemma text_lines_short: "l \<in> set (text_lines s) \<Longrightarrow> length l \<le> length s"
proof (induction s arbitrary: l)
  case (Cons c s)
  then show ?case by (fastforce split: if_splits list.splits)
qed simp

definition visible :: "string \<Rightarrow> string" where
  "visible s = filter (\<lambda>c. c \<noteq> CHR '' '' \<and> c \<noteq> newline) s"

lemma visible_append [simp]: "visible (a @ b) = visible a @ visible b"
  by (simp add: visible_def)

lemma visible_indent [simp]: "visible (indent n) = []" "visible [newline] = []" "visible [] = []"
  by (simp_all add: visible_def indent_def)

lemma visible_newline [simp]: "visible (newline # s) = visible s"
  by (simp add: visible_def)

subsection \<open>One line\<close>

lemma trim_word_le: "trim_word s start l \<le> int l"
proof (induction l)
  case (Suc l)
  then show ?case by (subst trim_word.simps) auto
qed (simp add: trim_word.simps)

lemma word_length_bounds:
  assumes "start < length s" "0 < allowed"
  shows "0 < word_length s start allowed" "word_length s start allowed \<le> allowed"
    "start + word_length s start allowed \<le> length s"
  using assms trim_word_le [of s start "min (length s - start) allowed"]
  by (auto simp: word_length_def Let_def min_def)

lemma line_length_bounds:
  assumes "start < length s" "0 < allowed"
  shows "0 < line_length s start allowed" "line_length s start allowed \<le> allowed"
    "start + line_length s start allowed \<le> length s"
  using word_length_bounds [OF assms]
  by (auto simp: line_length_def Let_def find_first_Some split: option.splits)

text \<open>Only spaces are skipped.\<close>

lemma skip_spaces_visible:
  "start + l \<le> length s \<Longrightarrow>
     (let k = skip_spaces n s l start in
      start \<le> k \<and> k + l \<le> length s \<and> visible (drop (start + l) s) = visible (drop (k + l) s))"
proof (induction n arbitrary: start)
  case (Suc n)
  show ?case
  proof (cases "char_at s (l + start) = CHR '' '' \<and> start < length s")
    case True
    then have lt: "start + l < length s" using Suc.prems by (auto simp: char_at_def add.commute split: if_splits)
    then have "visible (drop (start + l) s) = visible (drop (start + 1 + l) s)"
      using True Cons_nth_drop_Suc [OF lt, symmetric] by (simp add: visible_def char_at_def add.commute)
    then show ?thesis using True lt Suc.IH [of "start + 1"] by (auto simp: Let_def)
  qed (use Suc.prems in auto)
qed simp

subsection \<open>All lines\<close>

definition wraps :: "nat \<Rightarrow> string \<Rightarrow> string \<Rightarrow> bool" where
  "wraps m s t \<longleftrightarrow> (\<forall>l \<in> set (text_lines t). length l \<le> m) \<and> visible t = visible s"

lemma wraps_line:
  assumes "n + length x \<le> m" "wraps m y t"
  shows "wraps m (x @ y) (indent n @ x @ [newline] @ t)"
proof -
  have "\<forall>l \<in> set (text_lines (indent n @ x)). length l \<le> m"
    using text_lines_short [of _ "indent n @ x"] assms(1) by (fastforce simp: indent_def)
  then show ?thesis using assms(2) text_lines_append [of "indent n @ x" t] by (auto simp: wraps_def visible_def indent_def)
qed

lemma space_lines_wraps:
  "0 < allowed \<Longrightarrow> (start = 0 \<Longrightarrow> int offset < allowed) \<Longrightarrow> int ind + allowed = int m \<Longrightarrow> start \<le> length s \<Longrightarrow>
   length s - start < n \<Longrightarrow>
     \<exists>t. space_lines n s start ind allowed offset = Some t \<and> wraps m (drop start s) t"
proof (induction n arbitrary: start ind allowed)
  case (Suc n)
  show ?case
  proof (cases "start < length s")
    case True
    let ?l = "line_length s start (nat allowed)"
    let ?k = "skip_spaces (length s) s ?l start"
    let ?ind = "if start = 0 then ind + offset else ind"
    let ?allowed = "if start = 0 then allowed - int offset else allowed"
    have l: "0 < ?l" "?l \<le> nat allowed" "start + ?l \<le> length s"
      using line_length_bounds [OF True, of "nat allowed"] Suc.prems(1) by auto
    have k: "start \<le> ?k" "?k + ?l \<le> length s" "visible (drop (start + ?l) s) = visible (drop (?k + ?l) s)"
      using skip_spaces_visible [OF l(3), of "length s"] by (auto simp: Let_def)
    have less: "length s - (?k + ?l) < n" using Suc.prems(5) l(1) k(1) True by linarith
    have "\<exists>t. space_lines n s (?k + ?l) ?ind ?allowed offset = Some t \<and> wraps m (drop (?k + ?l) s) t"
      by (rule Suc.IH) (use Suc.prems l k True less in auto)
    then obtain t where t: "space_lines n s (?k + ?l) ?ind ?allowed offset = Some t" "wraps m (drop (?k + ?l) s) t" by blast
    have "wraps m (take ?l (drop start s) @ drop (?k + ?l) s) (indent ind @ take ?l (drop start s) @ [newline] @ t)"
      using wraps_line [OF _ t(2), of ind "take ?l (drop start s)"] l Suc.prems(3) by auto
    moreover have "visible (drop start s) = visible (take ?l (drop start s)) @ visible (drop (start + ?l) s)"
      by (metis append_take_drop_id drop_drop add.commute visible_append)
    ultimately have "wraps m (drop start s) (indent ind @ take ?l (drop start s) @ [newline] @ t)"
      using k(3) by (simp add: wraps_def)
    then show ?thesis using True t(1) Suc.prems(1) by (subst space_lines.simps) (simp add: Let_def)
  next
    case False
    then show ?thesis using Suc.prems by (subst space_lines.simps) (simp add: wraps_def)
  qed
qed simp

lemma spacePrint_wraps_at:
  assumes "ind + offset < m"
  shows "\<exists>t. spacePrint s (int m) ind offset = Some t \<and> wraps m s t"
proof (cases "int (length s) + int ind > int m")
  case True
  have "\<exists>t. space_lines (length s + 1) s 0 ind (int m - int ind) offset = Some t \<and> wraps m (drop 0 s) t"
    by (rule space_lines_wraps) (use assms in auto)
  then show ?thesis using True assms by (simp add: spacePrint_def)
next
  case False
  have "wraps m [] []" by (simp add: wraps_def)
  then show ?thesis using False wraps_line [of ind s m "[]" "[]"] by (simp add: spacePrint_def)
qed

text \<open>
  C39. \<open>spacePrint\<close> ends whenever the continuation lines have room for a character: it prints lines of at
  most the given width, with every character of the text but white space, in order.
\<close>

theorem spacePrint_wraps:
  "ind + offset < m \<Longrightarrow> \<exists>t. spacePrint s (int m) ind offset = Some t \<and> wraps m s t"
  by (rule spacePrint_wraps_at)

theorem spacePrint_wraps_witness:
  "\<exists>t. spacePrint ''one two, three|four'' (int 9) 2 3 = Some t \<and> wraps 9 ''one two, three|four'' t"
  by (rule spacePrint_wraps) simp

subsection \<open>The usage text\<close>

text \<open>A piece of output: whole lines of at most 75 characters that show the given text.\<close>

definition prints :: "string option \<Rightarrow> string \<Rightarrow> bool" where
  "prints out s \<longleftrightarrow> (\<exists>t. out = Some t \<and> wraps 75 s t \<and> (t = [] \<or> last t = newline))"

lemma wraps_append: "wraps m s a \<Longrightarrow> wraps m u b \<Longrightarrow> a = [] \<or> last a = newline \<Longrightarrow> wraps m (s @ u) (a @ b)"
proof (cases a rule: rev_cases)
  case (snoc a' c)
  moreover assume "wraps m s a" "wraps m u b" "a = [] \<or> last a = newline"
  ultimately show ?thesis
    using text_lines_append [of a' b] text_lines_append [of a' "[]"] by (auto simp: wraps_def)
qed (simp add: wraps_def)

lemma prints_cat [intro]: "prints a s \<Longrightarrow> prints b t \<Longrightarrow> prints (cat a b) (s @ t)"
proof -
  assume "prints a s" "prints b t"
  then obtain x y where "a = Some x" "b = Some y" "wraps 75 s x" "wraps 75 t y"
    "x = [] \<or> last x = newline" "y = [] \<or> last y = newline"
    by (auto simp: prints_def)
  then show ?thesis using wraps_append [of 75 s x t y] by (cases "y = []") (auto simp: prints_def cat_def)
qed

lemma prints_Nil [intro]: "prints (Some []) []"
  by (simp add: prints_def wraps_def)

lemma prints_blank [intro]: "prints (Some [newline]) []" "prints (Some [newline, newline]) []"
  by (simp_all add: prints_def wraps_def visible_def)

lemma prints_cats: "list_all2 prints os ss \<Longrightarrow> prints (cats os) (concat ss)"
proof (induction os ss rule: list_all2_induct)
  case (Cons o1 os s ss)
  then show ?case using prints_cat [of o1 s "cats os"] by (simp add: cats_def)
qed (auto simp: cats_def)

lemma space_lines_newline: "space_lines n s start ind allowed offset = Some t \<Longrightarrow> t = [] \<or> last t = newline"
proof (induction n arbitrary: start ind allowed t)
  case 0
  then show ?case by (subst (asm) space_lines.simps) (auto split: if_splits)
next
  case (Suc n)
  show ?case
  proof (cases "start < length s \<and> \<not> allowed < 0")
    case True
    then obtain t' start' ind' allowed' where "space_lines n s start' ind' allowed' offset = Some t'"
        "t = indent ind @ take (line_length s start (nat allowed)) (drop start s) @ newline # t'"
      using Suc.prems by (auto simp: space_lines.simps [of "Suc n"] Let_def)
    then show ?thesis using Suc.IH [of start' ind' allowed' t'] by (cases t') auto
  next
    case False
    then show ?thesis using Suc.prems by (subst (asm) space_lines.simps) (auto split: if_splits)
  qed
qed

lemma prints_spacePrint: "ind + offset < 75 \<Longrightarrow> prints (spacePrint s 75 ind offset) s"
proof -
  assume "ind + offset < 75"
  then obtain t where t: "spacePrint s (int 75) ind offset = Some t" "wraps 75 s t"
    using spacePrint_wraps_at [of ind offset 75 s] by blast
  moreover have "t = [] \<or> last t = newline"
    using t(1) space_lines_newline by (fastforce simp: spacePrint_def split: if_splits)
  ultimately show ?thesis by (auto simp: prints_def)
qed

definition long_text :: "CmdLine \<Rightarrow> ref \<Rightarrow> string" where
  "long_text c r = longID (cl_delimiter c) (cl_objs c ! r) @ getDescription (cl_objs c ! r)"

fun xor_text :: "CmdLine \<Rightarrow> ref list \<Rightarrow> string" where
  "xor_text c [] = []"
| "xor_text c [r] = long_text c r"
| "xor_text c (r # rs) = long_text c r @ ''-- OR --'' @ xor_text c rs"

lemma prints_long_arg: "prints (long_arg c r) (long_text c r)"
  unfolding long_arg_def long_text_def by (intro prints_cat prints_spacePrint) simp_all

lemma prints_xor_long: "prints (xor_long c ors) (xor_text c ors)"
proof (induction c ors rule: xor_long.induct)
  case (3 c r r' rs)
  have "prints (cats [long_arg c r, spacePrint ''-- OR --'' 75 9 0, xor_long c (r' # rs)])
      (concat [long_text c r, ''-- OR --'', xor_text c (r' # rs)])"
    by (rule prints_cats) (simp add: 3 prints_long_arg prints_spacePrint)
  then show ?case by simp
qed (auto simp: prints_long_arg)

lemma prints_longUsage:
  "prints (longUsage c) (concat (map (xor_text c) (cl_orList c)) @ concat (map (long_text c) (other_args c)) @ cl_message c)"
proof -
  have blank: "prints (cat o1 (Some [newline])) s" "prints (cat o1 (Some [newline, newline])) s" if "prints o1 s" for o1 s
    using prints_cat [OF that prints_blank(1)] prints_cat [OF that prints_blank(2)] by simp_all
  have "prints (longUsage c) (concat (map (xor_text c) (cl_orList c) @ map (long_text c) (other_args c) @ [[], cl_message c]))"
    unfolding longUsage_def
    by (intro prints_cats list_all2_appendI)
      (auto simp: blank prints_xor_long prints_long_arg prints_spacePrint list_all2_conv_all_nth [of _ "map _ _"])
  then show ?thesis by simp
qed

lemma prints_shortUsage: "prints (shortUsage c) (short_text c)"
  unfolding shortUsage_def by (rule prints_spacePrint) simp

text \<open>
  The usage of every command line is printed: lines of at most 75 characters that show, up to white
  space, the program name, the short form of every argument, the long form and the description of every
  argument, and the message.
\<close>

theorem usage_complete:
  "\<exists>t. usage c = Some t \<and>
     wraps 75 (''USAGE: '' @ short_text c @ ''Where: '' @ concat (map (xor_text c) (cl_orList c)) @
               concat (map (long_text c) (other_args c)) @ cl_message c) t"
proof -
  have "prints (Some ([newline] @ ''USAGE: '' @ [newline, newline])) ''USAGE: ''"
    "prints (Some ([newline, newline] @ ''Where: '' @ [newline, newline])) ''Where: ''"
    by (simp_all add: prints_def wraps_def visible_def)
  then have "prints (usage c)
      (concat [''USAGE: '', short_text c, ''Where: '',
        concat (map (xor_text c) (cl_orList c)) @ concat (map (long_text c) (other_args c)) @ cl_message c, []])"
    unfolding usage_def using prints_shortUsage prints_longUsage prints_blank by (intro prints_cats) simp
  then show ?thesis by (auto simp: prints_def)
qed

end
