(* ===== verification/TclapDocs.thy ===== *)
theory TclapDocs
  imports TclapOutput
begin

text \<open>
  The other two output classes of the command line library: \<open>DocBookOutput.h\<close> prints a manual page in
  DocBook markup, \<open>ZshCompletionOutput.h\<close> a completion function for zsh. Their helpers edit strings in
  place; the loops are kept, and shown equal to character-wise functions.
\<close>

subsection \<open>Searching and editing strings\<close>

abbreviation apos :: char where "apos \<equiv> CHR 0x27"
abbreviation dquote :: char where "dquote \<equiv> CHR 0x22"
abbreviation backslash :: char where "backslash \<equiv> CHR 0x5C"
abbreviation tab :: char where "tab \<equiv> CHR 0x09"

text \<open>\<open>s.find_last_of(c)\<close>.\<close>

definition find_last_of :: "char \<Rightarrow> string \<Rightarrow> nat option" where
  "find_last_of c s = map_option (\<lambda>i. length s - 1 - i) (find_first (\<lambda>x. x = c) (rev s))"

text \<open>\<open>s.erase(0, s.find_last_of(c) + 1)\<close>; \<open>npos + 1\<close> is 0.\<close>

definition erase_through :: "char \<Rightarrow> string \<Rightarrow> string" where
  "erase_through c s = (case find_last_of c s of None \<Rightarrow> s | Some p \<Rightarrow> drop (p + 1) s)"

definition basename :: "string \<Rightarrow> string" where
  "basename s = erase_through (CHR ''/'') s"

text \<open>\<open>s.rfind(pat)\<close>.\<close>

definition rfind :: "string \<Rightarrow> string \<Rightarrow> nat option" where
  "rfind pat s =
     (case filter (\<lambda>i. take (length pat) (drop i s) = pat) [0..<length s + 1] of
        [] \<Rightarrow> None | i # is \<Rightarrow> Some (last (i # is)))"

subsection \<open>\<open>DocBookOutput\<close>\<close>

text \<open>
  \<open>substituteSpecialChars\<close>: erase the first \<open>r\<close>, insert \<open>x\<close>, search again from the start. None: the loop
  does not end, because \<open>x\<close> contains \<open>r\<close>. The length of the string is enough rounds otherwise.
\<close>

fun substitute_loop :: "nat \<Rightarrow> string \<Rightarrow> char \<Rightarrow> string \<Rightarrow> string option" where
  "substitute_loop n s r x =
     (case find_first (\<lambda>c. c = r) s of
        None \<Rightarrow> Some s
      | Some p \<Rightarrow> (case n of 0 \<Rightarrow> None | Suc m \<Rightarrow> substitute_loop m (take p s @ x @ drop (p + 1) s) r x))"

declare substitute_loop.simps [simp del]

definition substituteSpecialChars :: "string \<Rightarrow> char \<Rightarrow> string \<Rightarrow> string option" where
  "substituteSpecialChars s r x = substitute_loop (length s) s r x"

function removeChar :: "string \<Rightarrow> char \<Rightarrow> string" where
  "removeChar s r =
     (case find_first (\<lambda>c. c = r) s of None \<Rightarrow> s | Some p \<Rightarrow> removeChar (take p s @ drop (p + 1) s) r)"
  by pat_completeness auto
termination by (relation "measure (\<lambda>(s, r). length s)") (auto dest: find_first_bound)

declare removeChar.simps [simp del]

text \<open>\<open>endl\<close> ends the line. The tags are printed as they stand in the source, statement by statement.\<close>

definition endl :: "string \<Rightarrow> string" where
  "endl s = s @ [newline]"

text \<open>The part both print functions share: the type description, after the last delimiter of the short id.\<close>

definition replaceable :: "char \<Rightarrow> tclap_arg \<Rightarrow> string" where
  "replaceable delim a =
     (if a_valueRequired a
      then let arg = removeChar (removeChar (removeChar (removeChar (shortID delim a) (CHR ''['')) (CHR '']'')) (CHR ''<'')) (CHR ''>'')
           in [delim] @ ''<replaceable>'' @ erase_through delim arg @ ''</replaceable>''
      else [])"

text \<open>\<open>printShortArg\<close>. It also escapes the short id into a variable that it does not use.\<close>

definition printShortArg :: "char \<Rightarrow> tclap_arg \<Rightarrow> string option" where
  "printShortArg delim a =
     Option.bind (substituteSpecialChars (shortID delim a) (CHR ''<'') ''&lt;'') (\<lambda>id1.
     Option.bind (substituteSpecialChars id1 (CHR ''>'') ''&gt;'') (\<lambda>id2.
       Some (''<arg choice='' @ [apos] @ (if isRequired a then ''plain'' else ''opt'') @ [apos] @
         (if a_multiple a then '' rep='' @ [apos] @ ''repeat'' @ [apos] else []) @
         ''>'' @ (if a_flag a \<noteq> [] then flagStartString @ a_flag a else nameStartString @ a_name a) @
         replaceable delim a @ endl ''</arg>'')))"

definition printLongArg :: "char \<Rightarrow> tclap_arg \<Rightarrow> string option" where
  "printLongArg delim a =
     Option.bind (substituteSpecialChars (getDescription a) (CHR ''<'') ''&lt;'') (\<lambda>desc1.
     Option.bind (substituteSpecialChars desc1 (CHR ''>'') ''&gt;'') (\<lambda>desc.
       Some (endl ''<varlistentry>'' @
         (if a_flag a \<noteq> []
          then endl ''<term>'' @ ''<option>'' @ (flagStartString @ a_flag a) @ endl ''</option>'' @ endl ''</term>''
          else []) @
         endl ''<term>'' @ ''<option>'' @ (nameStartString @ a_name a) @ replaceable delim a @
         endl ''</option>'' @ endl ''</term>'' @
         endl ''<listitem>'' @ endl ''<para>'' @ endl desc @ endl ''</para>'' @ endl ''</listitem>'' @
         endl ''</varlistentry>'')))"

definition docbook_prologue :: string where
  "docbook_prologue =
     endl (''<?xml version='' @ [apos] @ ''1.0'' @ [apos] @ ''?>'') @
     endl (''<!DOCTYPE refentry PUBLIC '' @ [dquote] @ ''-//OASIS//DTD DocBook XML V4.2//EN'' @ [dquote]) @
     endl (endl ([tab, dquote] @ ''http://www.oasis-open.org/docbook/xml/4.2/docbookx.dtd'' @ [dquote] @ ''>''))"

text \<open>The arguments in the synopsis: the groups, then the rest; and the list of options.\<close>

definition docbook_group :: "string \<Rightarrow> string" where
  "docbook_group args = endl (''<group choice='' @ [apos] @ ''req'' @ [apos] @ ''>'') @ args @ endl ''</group>''"

definition docbook_synopsis :: "CmdLine \<Rightarrow> string option" where
  "docbook_synopsis c =
     (let short = (\<lambda>r. printShortArg (cl_delimiter c) (cl_objs c ! r))
      in cats (map (\<lambda>ors. map_option docbook_group (cats (map short ors))) (cl_orList c) @ map short (other_args c)))"

definition docbook_options :: "CmdLine \<Rightarrow> string option" where
  "docbook_options c = cats (map (\<lambda>r. printLongArg (cl_delimiter c) (cl_objs c ! r)) (cl_argList c))"

text \<open>The page around them: what \<open>usage\<close> prints before the synopsis, between the two lists, and after.\<close>

definition docbook_head :: "CmdLine \<Rightarrow> string" where
  "docbook_head c =
     (let progName = basename (cl_progName c)
      in endl ''<refentry>'' @
         endl ''<refmeta>'' @
         endl (''<refentrytitle>'' @ progName @ ''</refentrytitle>'') @
         endl ''<manvolnum>1</manvolnum>'' @
         endl ''</refmeta>'' @
         endl ''<refnamediv>'' @
         endl (''<refname>'' @ progName @ ''</refname>'') @
         endl (''<refpurpose>'' @ cl_message c @ ''</refpurpose>'') @
         endl ''</refnamediv>'' @
         endl ''<refsynopsisdiv>'' @
         endl ''<cmdsynopsis>'' @
         endl (''<command>'' @ progName @ ''</command>''))"

definition docbook_middle :: "CmdLine \<Rightarrow> string" where
  "docbook_middle c =
     endl ''</cmdsynopsis>'' @
     endl ''</refsynopsisdiv>'' @
     endl ''<refsect1>'' @
     endl ''<title>Description</title>'' @
     endl ''<para>'' @
     endl (cl_message c) @
     endl ''</para>'' @
     endl ''</refsect1>'' @
     endl ''<refsect1>'' @
     endl ''<title>Options</title>'' @
     endl ''<variablelist>''"

definition docbook_end :: "CmdLine \<Rightarrow> string" where
  "docbook_end c =
     endl ''</variablelist>'' @
     endl ''</refsect1>'' @
     endl ''<refsect1>'' @
     endl ''<title>Version</title>'' @
     endl ''<para>'' @
     endl (cl_version c) @
     endl ''</para>'' @
     endl ''</refsect1>'' @
     endl ''</refentry>''"

definition DocBook_usage :: "CmdLine \<Rightarrow> string option" where
  "DocBook_usage c =
     Option.bind (docbook_synopsis c) (\<lambda>synopsis.
     Option.bind (docbook_options c) (\<lambda>options. Some (docbook_prologue @ docbook_head c @ synopsis @ docbook_middle c @ options @ docbook_end c)))"

definition DocBook_version :: "CmdLine \<Rightarrow> string" where
  "DocBook_version c = endl (cl_version c)"

text \<open>What \<open>failure\<close> prints, and what it throws then.\<close>

definition DocBook_failure :: "tclap_exn \<Rightarrow> string \<times> tclap_exn option" where
  "DocBook_failure e = (endl (exn_what e), Some (ExitException 1))"

subsection \<open>\<open>ZshCompletionOutput\<close>\<close>

definition common :: "string \<rightharpoonup> string" where
  "common =
     [''host'' \<mapsto> ''_hosts'', ''hostname'' \<mapsto> ''_hosts'', ''file'' \<mapsto> ''_files'', ''filename'' \<mapsto> ''_files'',
      ''user'' \<mapsto> ''_users'', ''username'' \<mapsto> ''_users'', ''directory'' \<mapsto> ''_directories'', ''path'' \<mapsto> ''_directories'',
      ''url'' \<mapsto> ''_urls'']"

definition Zsh_version :: "CmdLine \<Rightarrow> string" where
  "Zsh_version c = endl (cl_version c)"

text \<open>\<open>failure\<close> throws nothing.\<close>

definition Zsh_failure :: "tclap_exn \<Rightarrow> string \<times> tclap_exn option" where
  "Zsh_failure e = (endl (exn_what e), None)"

lemma find_last_of_Some:
  "find_last_of c s = Some i \<longleftrightarrow> i < length s \<and> s ! i = c \<and> (\<forall>j < length s. i < j \<longrightarrow> s ! j \<noteq> c)"
proof -
  have "find_last_of c s = Some i \<longleftrightarrow> i < length s \<and> find_first (\<lambda>x. x = c) (rev s) = Some (length s - 1 - i)"
    by (auto simp: find_last_of_def find_first_Some)
  moreover have "(\<forall>j < length s - 1 - i. rev s ! j \<noteq> c) \<longleftrightarrow> (\<forall>j < length s. i < j \<longrightarrow> s ! j \<noteq> c)" if "i < length s"
  proof
    assume l: "\<forall>j < length s - 1 - i. rev s ! j \<noteq> c"
    show "\<forall>j < length s. i < j \<longrightarrow> s ! j \<noteq> c"
    proof (intro allI impI)
      fix j assume "j < length s" "i < j"
      then show "s ! j \<noteq> c" using l [rule_format, of "length s - 1 - j"] by (simp add: rev_nth)
    qed
  qed (auto simp: rev_nth)
  ultimately show ?thesis by (auto simp: find_first_Some rev_nth)
qed

lemma find_last_of_None: "find_last_of c s = None \<longleftrightarrow> c \<notin> set s"
  by (auto simp: find_last_of_def find_first_None)

text \<open>\<open>quoteSpecialChars\<close>: two loops, from the last occurrence to the first.\<close>

function quote_colons :: "string \<Rightarrow> nat option \<Rightarrow> string" where
  "quote_colons s None = s"
| "quote_colons s (Some idx) =
     (let s' = take idx s @ [backslash] @ drop idx s
      in quote_colons s' (find_last_of (CHR '':'') (take (idx + 1) s')))"
  by pat_completeness auto
termination
proof (relation "measure (\<lambda>(s, p). case p of None \<Rightarrow> 0 | Some i \<Rightarrow> i + 1)")
  fix s idx x
  assume x: "x = take idx s @ [backslash] @ drop idx s"
  have "j < idx" if "find_last_of (CHR '':'') (take (idx + 1) x) = Some j" for j
    using that by (cases "j = idx") (auto simp: find_last_of_Some x nth_append min_def split: if_splits)
  then show "((x, find_last_of (CHR '':'') (take (idx + 1) x)), s, Some idx)
      \<in> measure (\<lambda>(s, p). case p of None \<Rightarrow> 0 | Some i \<Rightarrow> i + 1)"
    by (auto split: option.split)
qed simp

function quote_apos :: "string \<Rightarrow> nat option \<Rightarrow> string" where
  "quote_apos s None = s"
| "quote_apos s (Some idx) =
     (let s' = take idx s @ [apos, backslash, apos] @ drop idx s
      in quote_apos s' (if idx = 0 then None else find_last_of apos (take idx s')))"
  by pat_completeness auto
termination
proof (relation "measure (\<lambda>(s, p). case p of None \<Rightarrow> 0 | Some i \<Rightarrow> i + 1)")
  fix s idx x
  have "j < idx" if "find_last_of apos (take idx x) = Some j" for j
    using that by (auto simp: find_last_of_Some)
  then show "((x, if idx = 0 then None else find_last_of apos (take idx x)), s, Some idx)
      \<in> measure (\<lambda>(s, p). case p of None \<Rightarrow> 0 | Some i \<Rightarrow> i + 1)"
    by (auto split: option.split)
qed simp

definition quoteSpecialChars :: "string \<Rightarrow> string" where
  "quoteSpecialChars s =
     (let s1 = quote_colons s (find_last_of (CHR '':'') s) in quote_apos s1 (find_last_of apos s1))"

text \<open>\<open>printArg\<close>, with the static counter passed and returned.\<close>

definition printArg :: "tclap_arg \<Rightarrow> int \<Rightarrow> string \<times> int" where
  "printArg a count =
     ('' '' @ [backslash, newline] @ ''  '' @ [apos] @ (if a_multiple a then ''*'' else dec_int count) @ '':'' @
      (if \<not> isRequired a then '':'' else []) @ a_name a @ '':'' @
      (case common (a_name a) of Some v \<Rightarrow> v | None \<Rightarrow> ''_guard '' @ [dquote] @ ''^-*'' @ [dquote] @ '' '' @ a_name a) @ [apos],
      if a_multiple a then count else count + 1)"

text \<open>The description without the mark of a required argument, the full stop and the capital letter.\<close>

definition zsh_description :: "tclap_arg \<Rightarrow> string" where
  "zsh_description a =
     (let d0 = getDescription a;
          d1 = (if take 12 d0 = ''(required)  '' then drop 12 d0 else d0);
          d2 = (if take 15 d1 = ''(OR required)  '' then drop 15 d1 else d1);
          len = length d2 - 1;
          d3 = (if d2 \<noteq> [] \<and> last d2 = CHR ''.'' then butlast d2 else d2)
      in if len \<noteq> 0 then tolower (hd d3) # tl d3 else d3)"

text \<open>\<open>do arg.replace(p, 1, 1, ' '); while ((p = arg.find_first_of('|', p)) != npos)\<close>.\<close>

function replace_bars :: "string \<Rightarrow> nat \<Rightarrow> string" where
  "replace_bars arg p =
     (let arg' = arg[p := CHR '' '']
      in case find_first (\<lambda>c. c = CHR ''|'') (drop p arg') of
           None \<Rightarrow> arg' | Some k \<Rightarrow> replace_bars arg' (p + k))"
  by pat_completeness auto
termination
proof (relation "measure (\<lambda>(arg, p). length arg - p)")
  fix arg p x k
  assume "x = arg[p := CHR '' '']" "find_first (\<lambda>c. c = CHR ''|'') (drop p x) = Some k"
  then show "((x, p + k), arg, p) \<in> measure (\<lambda>(arg, p). length arg - p)"
    by (cases k) (auto simp: find_first_Some)
qed simp

declare replace_bars.simps [simp del]

text \<open>
  The type description of a value: what is left of the short id. None is \<open>std::out_of_range\<close>, thrown by
  \<open>at\<close> on an empty string.
\<close>

definition strip_bracket :: "string \<Rightarrow> string option" where
  "strip_bracket arg = (if arg = [] then None else Some (if last arg = CHR '']'' then butlast arg else arg))"

definition zsh_type :: "char \<Rightarrow> tclap_arg \<Rightarrow> string option" where
  "zsh_type delim a =
     (let arg0 = shortID delim a;
          arg1 = (case rfind '' ... '' arg0 of None \<Rightarrow> arg0 | Some pos \<Rightarrow> take pos arg0)
      in Option.bind (strip_bracket (erase_through delim arg1)) (\<lambda>arg2.
         Option.bind (strip_bracket arg2) (\<lambda>arg3.
           if arg3 = [] then None else Some (if hd arg3 = CHR ''<'' then tl (butlast arg3) else arg3))))"

definition zsh_value :: "char \<Rightarrow> tclap_arg \<Rightarrow> string option" where
  "zsh_value delim a =
     map_option (\<lambda>arg.
       case find_first (\<lambda>c. c = CHR ''|'') arg of
         Some p \<Rightarrow> '': :('' @ quoteSpecialChars (replace_bars arg p) @ '')''
       | None \<Rightarrow> '':'' @ arg @ (case common arg of Some v \<Rightarrow> '':'' @ v | None \<Rightarrow> []))
     (zsh_type delim a)"

definition printOption :: "char \<Rightarrow> tclap_arg \<Rightarrow> string \<Rightarrow> string option" where
  "printOption delim a mutex =
     map_option (\<lambda>v.
       '' '' @ [backslash, newline] @ ''  '' @ [apos] @ mutex @
       (if a_flag a = [] then nameStartString @ a_name a
        else [apos] @ ''{'' @ flagStartString @ a_flag a @ '','' @ nameStartString @ a_name a @ ''}'' @ [apos]) @
       (if delim = CHR ''='' \<and> a_valueRequired a then ''=-'' else []) @
       ''['' @ quoteSpecialChars (zsh_description a) @ '']'' @ v @ [apos])
     (if a_valueRequired a then zsh_value delim a else Some [])"

text \<open>The options that exclude this one: its group, or its own two spellings.\<close>

definition mutex_item :: "CmdLine \<Rightarrow> ref \<Rightarrow> nat \<Rightarrow> ref \<Rightarrow> string" where
  "mutex_item c r i u =
     (let b = cl_objs c ! u; notCur = (u \<noteq> r); hasFlag = (a_flag b \<noteq> [])
      in (if i \<noteq> 0 \<and> (notCur \<or> hasFlag) then '' '' else []) @
         (if hasFlag then flagStartString @ a_flag b @ '' '' else []) @
         (if notCur \<or> hasFlag then nameStartString @ a_name b else []))"

definition getMutexList :: "CmdLine \<Rightarrow> ref \<Rightarrow> string" where
  "getMutexList c r =
     (let a = cl_objs c ! r
      in if a_name a = ''help'' \<or> a_name a = ''version'' then ''(-)''
         else (if a_multiple a then ''*'' else []) @
              (case find (\<lambda>ors. r \<in> set ors) (cl_orList c) of
                 Some ors \<Rightarrow> ''('' @ concat (map (\<lambda>i. mutex_item c r i (ors ! i)) [0..<length ors]) @ '')''
               | None \<Rightarrow>
                   if a_flag a \<noteq> [] then ''('' @ flagStartString @ a_flag a @ '' '' @ nameStartString @ a_name a @ '')'' else []))"

text \<open>The loop of \<open>usage\<close>; the object of the switch that ignores the rest is left out.\<close>

fun zsh_args :: "CmdLine \<Rightarrow> ref list \<Rightarrow> int \<Rightarrow> (string \<times> int) option" where
  "zsh_args c [] count = Some ([], count)"
| "zsh_args c (r # rs) count =
     (let a = cl_objs c ! r
      in case shortID (cl_delimiter c) a of
           [] \<Rightarrow> None
         | ch # _ \<Rightarrow>
             if ch = CHR ''<''
             then (case printArg a count of (t, count') \<Rightarrow> map_option (\<lambda>(ts, n). (t @ ts, n)) (zsh_args c rs count'))
             else if a_flag a \<noteq> ''-''
             then Option.bind (printOption (cl_delimiter c) a (getMutexList c r)) (\<lambda>t.
                    map_option (\<lambda>(ts, n). (t @ ts, n)) (zsh_args c rs count))
             else zsh_args c rs count)"

definition Zsh_usage :: "int \<Rightarrow> CmdLine \<Rightarrow> (string \<times> int) option" where
  "Zsh_usage count c =
     (let progName = basename (cl_progName c)
      in map_option (\<lambda>(ts, n). (''#compdef '' @ progName @ [newline, newline] @ ''# '' @ progName @ '' version '' @ cl_version c @
           [newline, newline] @ ''_arguments -s -S'' @ ts @ [newline], n)) (zsh_args c (cl_argList c) count))"

subsection \<open>The loops compute character-wise functions\<close>

lemma find_first_split:
  "find_first P s = Some p \<Longrightarrow> s = take p s @ s ! p # drop (p + 1) s \<and> P (s ! p) \<and> (\<forall>c \<in> set (take p s). \<not> P c)"
  by (auto simp: find_first_Some id_take_nth_drop in_set_conv_nth)

definition subst_char :: "char \<Rightarrow> string \<Rightarrow> string \<Rightarrow> string" where
  "subst_char r x s = concat (map (\<lambda>c. if c = r then x else [c]) s)"

lemma subst_char_simps [simp]:
  "subst_char r x [] = []" "subst_char r x (c # s) = (if c = r then x else [c]) @ subst_char r x s"
  "subst_char r x (s @ t) = subst_char r x s @ subst_char r x t"
  by (simp_all add: subst_char_def)

lemma subst_char_id: "r \<notin> set s \<Longrightarrow> subst_char r x s = s"
  by (induction s) auto

lemma substitute_loop_done:
  assumes "r \<notin> set x" and "length (filter (\<lambda>c. c = r) s) \<le> n"
  shows "substitute_loop n s r x = Some (subst_char r x s)"
  using assms(2)
proof (induction n arbitrary: s)
  case 0
  then show ?case using subst_char_id [of r s x]
    by (subst substitute_loop.simps) (auto simp: find_first_None filter_empty_conv split: option.splits dest!: find_first_split)
next
  case (Suc n)
  show ?case
  proof (cases "find_first (\<lambda>c. c = r) s")
    case None
    moreover have "r \<notin> set s" using None by (auto simp: find_first_None)
    ultimately show ?thesis by (subst substitute_loop.simps) (simp add: subst_char_id)
  next
    case (Some p)
    note sp = find_first_split [OF Some]
    have f: "filter (\<lambda>c. c = r) x = []" "filter (\<lambda>c. c = r) (take p s) = []"
      using assms(1) sp by (auto simp: filter_empty_conv)
    have "length (filter (\<lambda>c. c = r) s) = length (filter (\<lambda>c. c = r) (take p s @ s ! p # drop (p + 1) s))"
      using sp by (metis (lifting))
    then have "length (filter (\<lambda>c. c = r) (take p s @ x @ drop (p + 1) s)) \<le> n"
      using f sp Suc.prems by simp
    then have "substitute_loop (Suc n) s r x = Some (subst_char r x (take p s @ x @ drop (p + 1) s))"
      using Suc.IH Some by (subst substitute_loop.simps) simp
    also have "subst_char r x (take p s @ x @ drop (p + 1) s) = subst_char r x (take p s @ s ! p # drop (p + 1) s)"
      using subst_char_id [OF assms(1), of x] sp by simp
    finally show ?thesis using sp by metis
  qed
qed

lemma substitute_loop_hangs: "r \<in> set x \<Longrightarrow> r \<in> set s \<Longrightarrow> substitute_loop n s r x = None"
proof (induction n arbitrary: s)
  case 0
  then show ?case by (subst substitute_loop.simps) (auto simp: find_first_None split: option.split)
next
  case (Suc n)
  then show ?case by (subst substitute_loop.simps) (auto simp: find_first_None split: option.split)
qed

lemma substituteSpecialChars_eq:
  "substituteSpecialChars s r x = (if r \<in> set x \<and> r \<in> set s then None else Some (subst_char r x s))"
proof (cases "r \<in> set x")
  case True
  moreover have "substituteSpecialChars s r x = Some (subst_char r x s)" if "r \<notin> set s"
  proof -
    have "find_first (\<lambda>c. c = r) s = None" using that by (auto simp: find_first_None)
    then show ?thesis using that by (simp add: substituteSpecialChars_def substitute_loop.simps [of _ s] subst_char_id)
  qed
  ultimately show ?thesis using substitute_loop_hangs [of r x s] by (auto simp: substituteSpecialChars_def)
next
  case False
  then show ?thesis by (simp add: substituteSpecialChars_def substitute_loop_done)
qed

lemma removeChar_eq: "removeChar s r = filter (\<lambda>c. c \<noteq> r) s"
proof (induction s r rule: removeChar.induct)
  case (1 s r)
  show ?case
  proof (cases "find_first (\<lambda>c. c = r) s")
    case None
    moreover have "filter (\<lambda>c. c \<noteq> r) s = s" using None by (simp add: find_first_None filter_id_conv)
    ultimately show ?thesis by (subst removeChar.simps) simp
  next
    case (Some p)
    have "filter (\<lambda>c. c \<noteq> r) s = filter (\<lambda>c. c \<noteq> r) (take p s @ s ! p # drop (p + 1) s)"
      using find_first_split [OF Some] by (metis (lifting))
    then show ?thesis using 1 Some find_first_split [OF Some] by (subst removeChar.simps) simp
  qed
qed

lemma find_last_of_split:
  "find_last_of c s = Some i \<Longrightarrow> s = take i s @ c # drop (i + 1) s \<and> i < length s \<and> c \<notin> set (drop (i + 1) s)"
  by (auto simp: find_last_of_Some id_take_nth_drop [symmetric] in_set_conv_nth)

lemma find_last_of_snoc: "d \<noteq> c \<Longrightarrow> find_last_of c (s @ [d]) = find_last_of c s"
  by (auto simp: find_last_of_def option.map_comp comp_def intro!: map_option_cong dest!: find_first_bound)

lemma erase_through_spec: "c \<notin> set (erase_through c s)"
  by (auto simp: erase_through_def find_last_of_None split: option.split dest!: find_last_of_split)

lemma quote_colons_eq:
  "quote_colons (a @ b) (find_last_of (CHR '':'') a) = subst_char (CHR '':'') [backslash, CHR '':''] a @ b"
proof (induction a arbitrary: b rule: length_induct)
  case (1 a)
  show ?case
  proof (cases "find_last_of (CHR '':'') a")
    case None
    moreover have "CHR '':'' \<notin> set a" using None by (simp add: find_last_of_None)
    ultimately show ?thesis by (simp add: subst_char_id)
  next
    case (Some i)
    note sp = find_last_of_split [OF Some]
    let ?p = "take i a" and ?t = "drop (i + 1) a"
    have l: "length ?p = i" "length ?p < length a" using sp by simp_all
    have "take i (a @ b) @ [backslash] @ drop i (a @ b) = ?p @ backslash # CHR '':'' # ?t @ b"
      using sp l by (metis append.assoc append_Cons append_Nil append_eq_conv_conj)
    moreover have "take (i + 1) (?p @ backslash # CHR '':'' # ?t @ b) = ?p @ [backslash]" using l by simp
    ultimately have "quote_colons (a @ b) (Some i) =
        quote_colons (?p @ backslash # CHR '':'' # ?t @ b) (find_last_of (CHR '':'') ?p)"
      by (simp add: find_last_of_snoc)
    also have "\<dots> = subst_char (CHR '':'') [backslash, CHR '':''] ?p @ backslash # CHR '':'' # ?t @ b"
      using 1 l by blast
    also have "\<dots> = subst_char (CHR '':'') [backslash, CHR '':''] (?p @ CHR '':'' # ?t) @ b"
      using sp [THEN conjunct2, THEN conjunct2] by (simp add: subst_char_id)
    finally show ?thesis using Some sp by metis
  qed
qed

lemma quote_apos_eq:
  "quote_apos (a @ b) (find_last_of apos a) = subst_char apos [apos, backslash, apos, apos] a @ b"
proof (induction a arbitrary: b rule: length_induct)
  case (1 a)
  show ?case
  proof (cases "find_last_of apos a")
    case None
    moreover have "apos \<notin> set a" using None by (simp add: find_last_of_None)
    ultimately show ?thesis by (simp add: subst_char_id)
  next
    case (Some i)
    note sp = find_last_of_split [OF Some]
    let ?p = "take i a" and ?t = "drop (i + 1) a"
    have l: "length ?p = i" "length ?p < length a" using sp by simp_all
    have s': "take i (a @ b) @ [apos, backslash, apos] @ drop i (a @ b) = ?p @ apos # backslash # apos # apos # ?t @ b"
      using sp l by (metis append.assoc append_Cons append_Nil append_eq_conv_conj)
    have "(if i = 0 then None else find_last_of apos ?p) = find_last_of apos ?p" by (simp add: find_last_of_def)
    then have "quote_apos (a @ b) (Some i) = quote_apos (?p @ apos # backslash # apos # apos # ?t @ b) (find_last_of apos ?p)"
      using l(1) by (simp only: quote_apos.simps Let_def s') (simp add: find_last_of_def)
    also have "\<dots> = subst_char apos [apos, backslash, apos, apos] ?p @ apos # backslash # apos # apos # ?t @ b"
      using 1 l by blast
    also have "\<dots> = subst_char apos [apos, backslash, apos, apos] (?p @ apos # ?t) @ b"
      using sp [THEN conjunct2, THEN conjunct2] by (simp add: subst_char_id)
    finally show ?thesis using Some sp by metis
  qed
qed

lemma quoteSpecialChars_eq:
  "quoteSpecialChars s = subst_char apos [apos, backslash, apos, apos] (subst_char (CHR '':'') [backslash, CHR '':''] s)"
  using quote_colons_eq [of s "[]"] quote_apos_eq [of "subst_char (CHR '':'') [backslash, CHR '':''] s" "[]"]
  by (simp add: quoteSpecialChars_def)

end
