(* ===== verification/TclapDocsSpec.thy ===== *)
theory TclapDocsSpec
  imports TclapDocs "HOL-Library.Sublist"
begin

text \<open>
  Properties of the output classes: the loops that quote for zsh work character by character, the markup of
  the DocBook page is sound, and each of the three classes meets the contract \<open>usage_output\<close>: its usage names
  every labelled argument. The zsh output can fail on odd type descriptions; when it does not is stated.
\<close>

subsection \<open>Quoting for zsh\<close>

text \<open>One character of a description: a colon after a backslash, a quote as \<open>'\''\<close>.\<close>

definition zsh_quoted :: "char \<Rightarrow> string" where
  "zsh_quoted c =
     (if c = CHR '':'' then [backslash, CHR '':'']
      else if c = apos then [apos, backslash, apos, apos]
      else [c])"

text \<open>
  C35. The two loops of \<open>quoteSpecialChars\<close>, which insert into the string from its last colon or quote
  to the first, quote character by character: they leave no colon or quote as it was, quote none twice, and
  change nothing else, whatever the string.
\<close>

theorem quoteSpecialChars_charwise: "quoteSpecialChars s = concat (map zsh_quoted s)"
proof -
  have "subst_char apos [apos, backslash, apos, apos] (subst_char (CHR '':'') [backslash, CHR '':''] s) =
      concat (map zsh_quoted s)"
    by (induction s) (auto simp: zsh_quoted_def)
  then show ?thesis by (simp add: quoteSpecialChars_eq)
qed

subsection \<open>Well-formed markup\<close>

text \<open>
  A checker for markup that reads the text alone: \<open>opened\<close> holds the names of the elements not yet closed.
  An opening bracket starts a tag, which ends at the next closing bracket; an end tag must name the
  innermost open element; a start tag opens the element named before its attributes. There is no other
  angle bracket, and an ampersand begins one of the predefined entities.
\<close>

definition entities :: "string list" where
  "entities = [''lt;'', ''gt;'', ''amp;'', ''quot;'', ''apos;'']"

function markup_ok :: "string list \<Rightarrow> string \<Rightarrow> bool" where
  "markup_ok opened [] \<longleftrightarrow> opened = []"
| "markup_ok opened (c # s) \<longleftrightarrow>
     (if c = CHR ''<'' then
        let tag = takeWhile (\<lambda>x. x \<noteq> CHR ''>'') s; rest = dropWhile (\<lambda>x. x \<noteq> CHR ''>'') s
        in if rest = [] \<or> CHR ''<'' \<in> set tag then False
           else (case tag of
               [] \<Rightarrow> False
             | d # n \<Rightarrow>
                 if d = CHR ''/'' then (if opened = [] then False else if hd opened \<noteq> n then False else markup_ok (tl opened) (tl rest))
                 else markup_ok (takeWhile (\<lambda>x. x \<noteq> CHR '' '') tag # opened) (tl rest))
      else if c = CHR ''>'' then False
      else if c = CHR ''&'' then (if list_ex (\<lambda>e. take (length e) s = e) entities then markup_ok opened s else False)
      else markup_ok opened s)"
  by pat_completeness auto
termination
  by (relation "measure (\<lambda>(opened, s). length s)")
    (auto simp: less_Suc_eq_le intro: order_trans [OF diff_le_self length_dropWhile_le])

declare markup_ok.simps [simp del]

text \<open>A text without brackets and ampersands; a text without brackets.\<close>

definition no_markup :: "string \<Rightarrow> bool" where
  "no_markup s \<longleftrightarrow> CHR ''<'' \<notin> set s \<and> CHR ''>'' \<notin> set s \<and> CHR ''&'' \<notin> set s"

text \<open>A piece of text that closes what it opens: the checker passes over it.\<close>

definition balanced :: "string \<Rightarrow> bool" where
  "balanced s \<longleftrightarrow> (\<forall>opened t. markup_ok opened (s @ t) = markup_ok opened t)"

lemma no_markup_simps [simp]:
  "no_markup []" "no_markup (c # s) \<longleftrightarrow> c \<noteq> CHR ''<'' \<and> c \<noteq> CHR ''>'' \<and> c \<noteq> CHR ''&'' \<and> no_markup s"
  "no_markup (s @ t) \<longleftrightarrow> no_markup s \<and> no_markup t"
  by (auto simp: no_markup_def)

lemma markup_plain_char: "c \<noteq> CHR ''<'' \<Longrightarrow> c \<noteq> CHR ''>'' \<Longrightarrow> c \<noteq> CHR ''&'' \<Longrightarrow> markup_ok opened (c # s) = markup_ok opened s"
  by (simp add: markup_ok.simps)

lemma balanced_plain: "no_markup s \<Longrightarrow> balanced s"
  unfolding balanced_def by (induction s) (simp_all add: markup_plain_char)

lemma balanced_append: "balanced s \<Longrightarrow> balanced t \<Longrightarrow> balanced (s @ t)"
  by (simp add: balanced_def)

lemma markup_balanced: "balanced s \<Longrightarrow> markup_ok opened (s @ t) = markup_ok opened t"
  by (simp add: balanced_def)

lemmas markup_tag = markup_ok.simps(2) [of _ "CHR ''<''"]

lemmas markup_simps = markup_tag markup_plain_char markup_balanced balanced_plain endl_def

lemma set_erase_through: "set (erase_through c s) \<subseteq> set s"
  by (auto simp: erase_through_def dest: in_set_dropD split: option.splits)

text \<open>What the page takes over as it is has no markup; brackets in descriptions and types are no matter.\<close>

definition printable :: "char \<Rightarrow> tclap_arg \<Rightarrow> bool" where
  "printable delim a \<longleftrightarrow> no_markup (a_flag a) \<and> no_markup (a_name a) \<and>
     CHR ''&'' \<notin> set (getDescription a) \<and> CHR ''&'' \<notin> set (shortID delim a)"

lemma balanced_replaceable:
  assumes "no_markup [delim]" "printable delim a"
  shows "balanced (replaceable delim a)"
proof -
  let ?arg = "erase_through delim (filter (\<lambda>c. c \<noteq> CHR ''>'') (filter (\<lambda>c. c \<noteq> CHR ''<'')
    (filter (\<lambda>c. c \<noteq> CHR '']'') (filter (\<lambda>c. c \<noteq> CHR ''['') (shortID delim a)))))"
  have "set ?arg \<subseteq> {c. c \<noteq> CHR ''<'' \<and> c \<noteq> CHR ''>'' \<and> c \<noteq> CHR ''&''}"
    by (rule order_trans [OF set_erase_through]) (use assms(2) in \<open>auto simp: printable_def\<close>)
  then have "no_markup ?arg" by (auto simp: no_markup_def)
  then show ?thesis
    using assms(1) by (simp add: replaceable_def removeChar_eq Let_def balanced_def [of "_ # _"] balanced_def [of "[]"] markup_simps)
qed

text \<open>The escaped description is balanced whatever brackets it had.\<close>

definition escaped :: "string \<Rightarrow> string" where
  "escaped s = subst_char (CHR ''>'') ''&gt;'' (subst_char (CHR ''<'') ''&lt;'' s)"

lemma escape_loops:
  "Option.bind (substituteSpecialChars s (CHR ''<'') ''&lt;'') (\<lambda>u. Option.bind (substituteSpecialChars u (CHR ''>'') ''&gt;'') f) =
     f (escaped s)"
  by (simp add: substituteSpecialChars_eq escaped_def)

lemma balanced_entities: "balanced ''&lt;''" "balanced ''&gt;''"
  by (simp_all add: balanced_def markup_ok.simps entities_def)

lemma balanced_escaped: "CHR ''&'' \<notin> set s \<Longrightarrow> balanced (escaped s)"
proof (induction s)
  case Nil
  then show ?case by (simp add: escaped_def balanced_def)
next
  case (Cons c s)
  have "escaped (c # s) = escaped [c] @ escaped s" by (simp add: escaped_def)
  moreover have "balanced (escaped [c])"
    using Cons.prems balanced_entities by (auto simp: escaped_def balanced_plain)
  ultimately show ?case using Cons by (simp add: balanced_append)
qed

lemma spelling_plain: "printable delim a \<Longrightarrow> no_markup (flagStartString @ a_flag a) \<and> no_markup (nameStartString @ a_name a)"
  by (simp add: printable_def flagStartString_def nameStartString_def)

lemma printShortArg_ok:
  assumes "no_markup [delim]" "printable delim a"
  shows "\<exists>t. printShortArg delim a = Some t \<and> balanced t"
proof -
  note sp = spelling_plain [OF assms(2)]
  define u where "u = (if a_flag a \<noteq> [] then flagStartString @ a_flag a else nameStartString @ a_name a)"
  have "no_markup u" using sp by (simp add: u_def)
  moreover have "balanced (replaceable delim a)" by (rule balanced_replaceable [OF assms])
  ultimately show ?thesis
    unfolding printShortArg_def escape_loops u_def [symmetric]
    by (simp add: balanced_def [of "_ # _"] markup_simps)
qed

lemma printLongArg_ok:
  assumes "no_markup [delim]" "printable delim a"
  shows "\<exists>t. printLongArg delim a = Some t \<and> balanced t"
proof -
  note sp = spelling_plain [OF assms(2)]
  have "balanced (replaceable delim a)" by (rule balanced_replaceable [OF assms])
  moreover have "balanced (escaped (getDescription a))" using assms(2) by (simp add: printable_def balanced_escaped)
  moreover define f n where "f = flagStartString @ a_flag a" and "n = nameStartString @ a_name a"
  moreover have "no_markup f" "no_markup n" using sp by (simp_all add: f_def n_def)
  ultimately show ?thesis
    unfolding printLongArg_def escape_loops f_def [symmetric] n_def [symmetric]
    by (simp add: balanced_def [of "_ # _"] markup_simps)
qed

lemma cats_ok: "\<forall>u \<in> set us. \<exists>t. u = Some t \<and> balanced t \<Longrightarrow> \<exists>t. cats us = Some t \<and> balanced t"
proof (induction us)
  case Nil
  then show ?case by (simp add: cats_def balanced_plain)
next
  case (Cons u us)
  then obtain s t where "u = Some s" "balanced s" "cats us = Some t" "balanced t" by auto
  then show ?case by (auto simp: cats_def cat_def intro: balanced_append)
qed

lemma docbook_group_ok: "balanced t \<Longrightarrow> balanced (docbook_group t)"
  by (simp add: docbook_group_def balanced_def [of "_ # _"] markup_simps)

lemma basename_no_markup: "no_markup s \<Longrightarrow> no_markup (basename s)"
  using set_erase_through [of _ s] by (auto simp: no_markup_def basename_def)

lemma docbook_page_ok:
  assumes "no_markup (cl_progName c)" "no_markup (cl_message c)" "no_markup (cl_version c)" "balanced synopsis" "balanced options"
  shows "markup_ok [] (docbook_head c @ synopsis @ docbook_middle c @ options @ docbook_end c)"
proof -
  note b = basename_no_markup [OF assms(1)]
  have "markup_ok [] (docbook_head c @ s) = markup_ok [''cmdsynopsis'', ''refsynopsisdiv'', ''refentry''] s" for s
    using b assms(2) by (simp add: docbook_head_def Let_def markup_simps)
  moreover have "markup_ok [''cmdsynopsis'', ''refsynopsisdiv'', ''refentry''] (docbook_middle c @ s) =
      markup_ok [''variablelist'', ''refsect1'', ''refentry''] s" for s
    using assms(2) by (simp add: docbook_middle_def markup_simps)
  moreover have "markup_ok [''variablelist'', ''refsect1'', ''refentry''] (docbook_end c)"
    using assms(3) by (simp add: docbook_end_def markup_simps markup_ok.simps(1))
  ultimately show ?thesis using assms(4,5) by (simp add: markup_balanced)
qed

text \<open>
  C34. The DocBook page is printed and its markup is sound: read by a checker that knows nothing of how it
  was made, every start tag has its end tag, properly nested, and every ampersand begins an entity. The program
  name, message, version, delimiter, flags and names, which are printed as they are, must be free of
  brackets and ampersands. Descriptions and types may have any brackets, which are escaped or removed in
  loops that end, but no ampersand, which nothing escapes.
\<close>

theorem DocBook_usage_well_formed:
  assumes "no_markup (cl_progName c)" "no_markup (cl_message c)" "no_markup (cl_version c)" "no_markup [cl_delimiter c]"
    and "\<forall>r \<in> set (cl_argList c) \<union> \<Union> (set ` set (cl_orList c)). printable (cl_delimiter c) (cl_objs c ! r)"
  shows "\<exists>page. DocBook_usage c = Some (docbook_prologue @ page) \<and> markup_ok [] page"
proof -
  let ?short = "\<lambda>r. printShortArg (cl_delimiter c) (cl_objs c ! r)"
  have short: "\<exists>t. ?short r = Some t \<and> balanced t" if "r \<in> set (cl_argList c) \<union> \<Union> (set ` set (cl_orList c))" for r
    using that assms(4,5) printShortArg_ok by blast
  have "\<exists>t. map_option docbook_group (cats (map ?short ors)) = Some t \<and> balanced t" if "ors \<in> set (cl_orList c)" for ors
  proof -
    have "\<exists>t. cats (map ?short ors) = Some t \<and> balanced t" by (rule cats_ok) (use short that in auto)
    then show ?thesis by (auto intro: docbook_group_ok)
  qed
  moreover have "set (other_args c) \<subseteq> set (cl_argList c)" by (auto simp: other_args_def)
  ultimately have "\<exists>t. docbook_synopsis c = Some t \<and> balanced t"
    unfolding docbook_synopsis_def Let_def using short by (intro cats_ok) auto
  moreover have "\<exists>t. docbook_options c = Some t \<and> balanced t"
    unfolding docbook_options_def using assms(4,5) by (intro cats_ok) (auto intro: printLongArg_ok)
  ultimately show ?thesis
    using docbook_page_ok [OF assms(1-3)] by (auto simp: DocBook_usage_def)
qed

text \<open>The ampersand is not escaped: with one in a description, the entry is not sound markup.\<close>

theorem docbook_ampersand_not_escaped:
  "\<exists>entry. printLongArg (CHR '' '') \<lparr>a_flag = ''r'', a_name = ''run'', a_description = ''park & read'', a_required = False,
     a_requireLabel = [], a_valueRequired = False, a_alreadySet = False, a_visitor = NoVisitor, a_ignoreable = True,
     a_xorSet = False, a_multiple = False, a_kind = Switch False False\<rparr> = Some entry \<and> \<not> markup_ok [] entry"
  unfolding printLongArg_def escape_loops
  by (intro exI conjI, rule refl)
    (simp add: getDescription_def escaped_def flagStartString_def nameStartString_def replaceable_def markup_simps
      markup_ok.simps(2) [of _ "CHR ''&''"] entities_def)

subsection \<open>The contract of the output classes\<close>

definition has_label :: "tclap_arg \<Rightarrow> bool" where
  "has_label a =
     (case a_kind a of UnlabeledValue _ _ _ _ _ \<Rightarrow> False | UnlabeledMulti _ _ _ _ _ \<Rightarrow> False | _ \<Rightarrow> True)"

definition shows_name :: "tclap_arg \<Rightarrow> string \<Rightarrow> bool" where
  "shows_name a t \<longleftrightarrow> sublist (visible (nameStartString @ a_name a)) (visible t)"

text \<open>
  What a \<open>CmdLineOutput\<close> promises: a usage that is printed names every labelled argument, the switch with
  the flag \<open>-\<close> excepted. Line breaks may fall anywhere.
\<close>

locale usage_output =
  fixes usage_of :: "CmdLine \<Rightarrow> string option"
  assumes documents:
    "usage_of c = Some t \<Longrightarrow> r \<in> set (cl_argList c) \<Longrightarrow> has_label (cl_objs c ! r) \<Longrightarrow> a_flag (cl_objs c ! r) \<noteq> ''-'' \<Longrightarrow>
       shows_name (cl_objs c ! r) t"
begin

lemma documents_all:
  assumes "usage_of c = Some t" "\<And>k. k < length (cl_objs c) \<Longrightarrow> k \<in> set (cl_argList c)" "\<forall>a \<in> set (cl_objs c). has_label a"
    "a \<in> set (cl_objs c)" "a_flag a \<noteq> ''-''"
  shows "shows_name a t"
  using assms documents [OF assms(1)] by (metis in_set_conv_nth)

end

lemma shows_name_mono: "shows_name a s \<Longrightarrow> shows_name a (pre @ s @ post)"
  unfolding shows_name_def by (auto simp: sublist_def) (metis append.assoc)

lemma shows_name_visible: "visible s = visible t \<Longrightarrow> shows_name a s = shows_name a t"
  by (simp add: shows_name_def)

lemma shows_name_self: "shows_name a (pre @ nameStartString @ a_name a @ post)"
  by (simp add: shows_name_def sublist_def) blast

lemma shows_name_concat: "x \<in> set xs \<Longrightarrow> shows_name a x \<Longrightarrow> shows_name a (concat xs)"
  using shows_name_mono by (auto dest!: split_list)

lemma cats_Some: "cats us = Some t \<longleftrightarrow> (\<exists>ts. us = map Some ts \<and> t = concat ts)"
proof (induction us arbitrary: t)
  case (Cons u us)
  then show ?case by (cases u) (force simp: cats_def cat_def map_eq_Cons_conv Cons_eq_map_conv)+
qed (auto simp: cats_def)

lemma longID_labelled: "has_label a \<Longrightarrow> \<exists>pre post. longID delim a = pre @ nameStartString @ a_name a @ post"
proof -
  assume l: "has_label a"
  have "\<exists>pre post. Arg_longID delim a v @ rest = pre @ nameStartString @ a_name a @ post" for v rest
    unfolding Arg_longID_def Let_def append_assoc by blast
  from this [of _ "[]"] this show ?thesis using l by (auto simp: longID_def has_label_def split: arg_kind.splits)
qed

lemma xor_text_member: "r \<in> set ors \<Longrightarrow> \<exists>pre post. xor_text c ors = pre @ long_text c r @ post"
proof (induction c ors rule: xor_text.induct)
  case (2 c r0)
  then show ?case by (auto intro: exI [of _ "[]"])
next
  case (3 c r0 r1 rs)
  show ?case
  proof (cases "r = r0")
    case False
    then obtain pre post where "xor_text c (r1 # rs) = pre @ long_text c r @ post" using 3 by auto
    then have "xor_text c (r0 # r1 # rs) = (long_text c r0 @ ''-- OR --'' @ pre) @ long_text c r @ post" by simp
    then show ?thesis by blast
  qed (metis append_Nil xor_text.simps(3))
qed auto

text \<open>\<open>StdOutput\<close>.\<close>

interpretation std_output: usage_output usage
proof
  fix c t r
  assume t: "usage c = Some t" and r: "r \<in> set (cl_argList c)" "has_label (cl_objs c ! r)"
  let ?xs = "map (xor_text c) (cl_orList c)" and ?ys = "map (long_text c) (other_args c)"
  have "shows_name (cl_objs c ! r) (long_text c r)"
    using longID_labelled [OF r(2), of "cl_delimiter c"] shows_name_self [of "cl_objs c ! r"]
    by (auto simp: long_text_def)
  then have member: "shows_name (cl_objs c ! r) (pre @ long_text c r @ post)" for pre post by (rule shows_name_mono)
  have "\<exists>x \<in> set (?xs @ ?ys). shows_name (cl_objs c ! r) x"
  proof (cases "XorHandler_contains (cl_orList c) r")
    case True
    then obtain ors where "ors \<in> set (cl_orList c)" "r \<in> set ors" by (auto simp: XorHandler_contains_def)
    then show ?thesis using xor_text_member [of r ors c] member by (force simp: image_iff)
  next
    case False
    then have "long_text c r \<in> set ?ys" using r(1) by (auto simp: other_args_def)
    then show ?thesis using member [of "[]" "[]"] by auto
  qed
  then have "shows_name (cl_objs c ! r) (concat (?xs @ ?ys))" using shows_name_concat by blast
  then have "shows_name (cl_objs c ! r) ((''USAGE: '' @ short_text c @ ''Where: '') @ concat (?xs @ ?ys) @ cl_message c)"
    by (rule shows_name_mono)
  moreover obtain u where "usage c = Some u" "visible u = visible (''USAGE: '' @ short_text c @ ''Where: '' @ concat ?xs @ concat ?ys @ cl_message c)"
    using usage_complete [of c] by (auto simp: wraps_def)
  ultimately show "shows_name (cl_objs c ! r) t" using t by (simp add: shows_name_def)
qed

text \<open>\<open>DocBookOutput\<close>.\<close>

lemma shows_name_append: "shows_name a s \<Longrightarrow> shows_name a (s @ t)" "shows_name a t \<Longrightarrow> shows_name a (s @ t)"
  using shows_name_mono [of a s "[]" t] shows_name_mono [of a t s "[]"] by simp_all

lemma printLongArg_name: "printLongArg delim a = Some t \<Longrightarrow> shows_name a t"
proof -
  assume t: "printLongArg delim a = Some t"
  have self: "shows_name a ((nameStartString @ a_name a) @ s)" for s
    using shows_name_self [of a "[]" s] by (simp only: append_Nil append.assoc)
  show "shows_name a t"
    using t unfolding printLongArg_def escape_loops option.inject
    by (elim subst) (intro shows_name_append(2) self)
qed

interpretation docbook_output: usage_output DocBook_usage
proof
  fix c t r
  assume t: "DocBook_usage c = Some t" and r: "r \<in> set (cl_argList c)"
  then obtain syn opts where o: "docbook_options c = Some opts"
      "t = (docbook_prologue @ docbook_head c @ syn @ docbook_middle c) @ opts @ docbook_end c"
    by (auto simp: DocBook_usage_def bind_eq_Some_conv)
  obtain ts where ts: "map (\<lambda>r. printLongArg (cl_delimiter c) (cl_objs c ! r)) (cl_argList c) = map Some ts" "opts = concat ts"
    using o(1) by (auto simp: docbook_options_def cats_Some)
  have "printLongArg (cl_delimiter c) (cl_objs c ! r) \<in> set (map Some ts)"
    unfolding ts(1) [symmetric] using r by auto
  then have "shows_name (cl_objs c ! r) opts"
    using printLongArg_name ts(2) by (auto intro: shows_name_concat)
  then show "shows_name (cl_objs c ! r) t" unfolding o(2) by (rule shows_name_mono)
qed

text \<open>\<open>ZshCompletionOutput\<close>, for every value of the counter.\<close>

lemma printOption_name: "printOption delim a mutex = Some t \<Longrightarrow> shows_name a t"
proof -
  let ?spelling = "if a_flag a = [] then nameStartString @ a_name a
    else [apos] @ ''{'' @ flagStartString @ a_flag a @ '','' @ nameStartString @ a_name a @ ''}'' @ [apos]"
  have "shows_name a ?spelling"
    using shows_name_self [of a "[]" "[]"] shows_name_self [of a "[apos] @ ''{'' @ flagStartString @ a_flag a @ '',''" "''}'' @ [apos]"]
    by simp
  then have "shows_name a (('' '' @ [backslash, newline] @ ''  '' @ [apos] @ mutex) @ ?spelling @ rest)" for rest
    by (rule shows_name_mono)
  then show "printOption delim a mutex = Some t \<Longrightarrow> shows_name a t" by (auto simp: printOption_def simp del: if_split)
qed

lemma shortID_labelled: "has_label a \<Longrightarrow> hd (shortID delim a) \<noteq> CHR ''<''"
  by (auto simp: has_label_def shortID_def Arg_shortID_def Let_def flagStartString_def nameStartString_def split: arg_kind.splits)

lemma zsh_args_name:
  assumes "zsh_args c rs n = Some (t, m)" "r \<in> set rs" "has_label (cl_objs c ! r)" "a_flag (cl_objs c ! r) \<noteq> ''-''"
  shows "shows_name (cl_objs c ! r) t"
  using assms(1,2)
proof (induction rs arbitrary: n t)
  case (Cons q rs)
  let ?id = "shortID (cl_delimiter c) (cl_objs c ! q)"
  obtain t1 ts n' where s: "t = t1 @ ts" "zsh_args c rs n' = Some (ts, m)"
    "hd ?id = CHR ''<'' \<or> a_flag (cl_objs c ! q) = ''-'' \<or> shows_name (cl_objs c ! q) t1"
    using Cons.prems(1) printOption_name
    by (cases ?id) (auto simp: Let_def bind_eq_Some_conv split: if_splits prod.splits, metis append_Nil)
  show ?case
  proof (cases "r = q")
    case True
    then have "shows_name (cl_objs c ! r) t1" using s(3) shortID_labelled [OF assms(3)] assms(4) by auto
    then show ?thesis unfolding s(1) by (rule shows_name_append)
  next
    case False
    then show ?thesis unfolding s(1) using Cons.IH [OF s(2)] Cons.prems(2) by (intro shows_name_append(2)) simp
  qed
qed simp

interpretation zsh_output: usage_output "\<lambda>c. map_option fst (Zsh_usage n c)" for n
proof
  fix c t r
  assume "map_option fst (Zsh_usage n c) = Some t" "r \<in> set (cl_argList c)" "has_label (cl_objs c ! r)" "a_flag (cl_objs c ! r) \<noteq> ''-''"
  then obtain ts m where "zsh_args c (cl_argList c) n = Some (ts, m)" "shows_name (cl_objs c ! r) ts"
    "t = (''#compdef '' @ basename (cl_progName c) @ [newline, newline] @ ''# '' @ basename (cl_progName c) @ '' version '' @ cl_version c @
           [newline, newline] @ ''_arguments -s -S'') @ ts @ [newline]"
    using zsh_args_name by (auto simp: Zsh_usage_def Let_def)
  then show "shows_name (cl_objs c ! r) t" using shows_name_mono by blast
qed

subsection \<open>Every output comes to an end\<close>

lemma cats_not_None: "\<forall>u \<in> set us. u \<noteq> None \<Longrightarrow> cats us \<noteq> None"
  by (induction us) (auto simp: cats_def cat_def)

lemma DocBook_usage_ends: "\<exists>t. DocBook_usage c = Some t"
proof -
  have a: "printShortArg d a \<noteq> None" "printLongArg d a \<noteq> None" for d a
    by (simp_all add: printShortArg_def printLongArg_def escape_loops Let_def)
  then have "cats (map (\<lambda>r. printShortArg (cl_delimiter c) (cl_objs c ! r)) ors) \<noteq> None" for ors by (intro cats_not_None) auto
  then have "docbook_synopsis c \<noteq> None" unfolding docbook_synopsis_def Let_def using a by (intro cats_not_None) auto
  moreover have "docbook_options c \<noteq> None" unfolding docbook_options_def using a by (intro cats_not_None) auto
  ultimately show ?thesis by (auto simp: DocBook_usage_def)
qed

text \<open>
  The zsh output reads the type back out of the short id and can fail there. It does not for a value
  argument without spaces in flag, name and type, when the delimiter is the space.
\<close>

definition zsh_ok :: "tclap_arg \<Rightarrow> bool" where
  "zsh_ok a \<longleftrightarrow> (a_valueRequired a \<longrightarrow>
     (\<exists>ty v d td con. a_kind a = Value ty v d td con \<and> CHR '' '' \<notin> set td \<union> set (a_flag a) \<union> set (a_name a)))"

lemma erase_through_last: "c \<notin> set t \<Longrightarrow> erase_through c (s @ c # t) = t"
proof -
  assume "c \<notin> set t"
  then have "find_last_of c (s @ c # t) = Some (length s)"
    by (auto simp: find_last_of_Some nth_append nth_Cons' split: if_splits)
  then show ?thesis by (simp add: erase_through_def)
qed

lemma rfind_one_space: "length (filter (\<lambda>c. c = CHR '' '') s) \<le> 1 \<Longrightarrow> rfind '' ... '' s = None"
proof -
  assume one: "length (filter (\<lambda>c. c = CHR '' '') s) \<le> 1"
  have "take 5 (drop i s) \<noteq> '' ... ''" for i
  proof
    assume t: "take 5 (drop i s) = '' ... ''"
    have "s = take i s @ '' ... '' @ drop 5 (drop i s)" unfolding t [symmetric] by (simp only: append_take_drop_id)
    then have "length (filter (\<lambda>c. c = CHR '' '') s) = length (filter (\<lambda>c. c = CHR '' '') (take i s @ '' ... '' @ drop 5 (drop i s)))"
      by (rule arg_cong)
    then show False using one by simp
  qed
  then show ?thesis by (simp add: rfind_def numeral_eq_Suc)
qed

lemma zsh_type_ends:
  assumes "a_kind a = Value ty v d td con" "a_valueRequired a" "CHR '' '' \<notin> set td \<union> set (a_flag a) \<union> set (a_name a)"
  shows "zsh_type (CHR '' '') a \<noteq> None"
proof -
  let ?pre = "(if a_required a then [] else ''['') @ (if a_flag a \<noteq> [] then flagStartString @ a_flag a else nameStartString @ a_name a)"
  let ?post = "''<'' @ td @ ''>'' @ (if a_required a then [] else '']'')"
  have id: "shortID (CHR '' '') a = ?pre @ CHR '' '' # ?post"
    using assms(1,2) by (simp add: shortID_def Arg_shortID_def Let_def)
  have sp: "CHR '' '' \<notin> set ?pre" "CHR '' '' \<notin> set ?post"
    using assms(3) by (auto simp: flagStartString_def nameStartString_def)
  have "filter (\<lambda>c. c = CHR '' '') ?pre = []" "filter (\<lambda>c. c = CHR '' '') ?post = []"
    using sp by (auto simp: filter_empty_conv)
  then have "rfind '' ... '' (?pre @ CHR '' '' # ?post) = None"
    by (intro rfind_one_space) (simp only: filter_append filter.simps, simp)
  then have "zsh_type (CHR '' '') a = Option.bind (strip_bracket ?post) (\<lambda>arg2. Option.bind (strip_bracket arg2) (\<lambda>arg3.
      if arg3 = [] then None else Some (if hd arg3 = CHR ''<'' then tl (butlast arg3) else arg3)))"
    unfolding zsh_type_def id using erase_through_last [OF sp(2), of ?pre] by (simp only: Let_def option.case)
  then show ?thesis by (auto simp: strip_bracket_def butlast_append)
qed

lemma printOption_ends: "zsh_ok a \<Longrightarrow> printOption (CHR '' '') a mutex \<noteq> None"
  using zsh_type_ends by (auto simp: zsh_ok_def printOption_def zsh_value_def)

lemma zsh_args_ends:
  assumes "cl_delimiter c = CHR '' ''" "\<forall>r \<in> set rs. zsh_ok (cl_objs c ! r)"
  shows "\<exists>t m. zsh_args c rs n = Some (t, m)"
  using assms(2)
proof (induction rs arbitrary: n)
  case (Cons r rs)
  have "shortID (CHR '' '') (cl_objs c ! r) \<noteq> []"
    by (auto simp: shortID_def Arg_shortID_def Let_def flagStartString_def nameStartString_def split: arg_kind.split)
  then obtain ch cs where id: "shortID (CHR '' '') (cl_objs c ! r) = ch # cs" by (cases "shortID (CHR '' '') (cl_objs c ! r)") auto
  have "\<exists>t m. zsh_args c rs k = Some (t, m)" for k using Cons by simp
  moreover obtain t where "printOption (CHR '' '') (cl_objs c ! r) (getMutexList c r) = Some t"
    using printOption_ends Cons.prems by fastforce
  ultimately show ?case using id assms(1) by (fastforce simp: Let_def split: prod.splits)
qed simp

lemma Zsh_usage_ends:
  assumes "cl_delimiter c = CHR '' ''" "\<forall>r \<in> set (cl_argList c). zsh_ok (cl_objs c ! r)"
  shows "\<exists>t m. Zsh_usage n c = Some (t, m)"
  using zsh_args_ends [OF assms] by (fastforce simp: Zsh_usage_def Let_def)

text \<open>
  With the space as delimiter, the DocBook page shows no type for an argument that takes several values:
  what follows the last delimiter of the short id is the empty string after the dots.
\<close>

theorem docbook_multi_type_lost:
  assumes "a_kind a = Multi ty vs td con am" "a_valueRequired a"
  shows "replaceable (CHR '' '') a = '' <replaceable></replaceable>''"
proof -
  have "erase_through (CHR '' '') (s @ '' ... '') = []" for s
    using erase_through_last [of "CHR '' ''" "[]" "s @ '' ...''"] by simp
  then show ?thesis using assms by (simp add: replaceable_def shortID_def removeChar_eq)
qed

theorem docbook_multi_type_lost_witness:
  "replaceable (CHR '' '') \<lparr>a_flag = ''n'', a_name = ''num'', a_description = [], a_required = False, a_requireLabel = [],
     a_valueRequired = True, a_alreadySet = False, a_visitor = NoVisitor, a_ignoreable = True, a_xorSet = False, a_multiple = True,
     a_kind = Multi T_int [] ''int'' None False\<rparr> = '' <replaceable></replaceable>''"
  by (rule docbook_multi_type_lost [where ty = T_int and vs = "[]" and td = "''int''" and con = None and am = False]) simp_all

end
