(* ===== verification/ProgramDocs.thy ===== *)
theory ProgramDocs
  imports ProgramArgs TclapDocsSpec
begin

text \<open>
  The documentation of the programs: for each of the six command lines the three output classes come to
  an end and name every argument.
\<close>

lemma labeled_has_label: "labeled a \<Longrightarrow> has_label a"
  by (auto simp: labeled_def has_label_def is_switch_def is_multi_switch_def is_value_def is_multi_def)

lemma zsh_ok_mk_arg:
  "zsh_ok (mk_arg flag nm desc req True v (Value ty x y td con)) \<longleftrightarrow> CHR '' '' \<notin> set td \<union> set flag \<union> set nm"
  "zsh_ok (mk_arg flag nm desc req False v k)"
  by (auto simp: zsh_ok_def mk_arg_def)

lemma zsh_ok_decls:
  assumes "ds \<in> {write_config_decls, write_data_decls, write_firmware_decls, read_data_decls, send_command_decls, take_image_decls}"
  shows "\<forall>a \<in> set (default_switches @ ds). zsh_ok a"
  using assms
  by (auto simp: default_switches_def write_config_decls_def write_data_decls_def write_firmware_decls_def read_data_decls_def
      send_command_decls_def take_image_decls_def decl_defs page_decl_def zsh_ok_mk_arg)

lemma program_cmdlines_decls:
  assumes "cmd \<in> set program_cmdlines"
  shows "\<exists>m v ds. cmd = Inr (cmdline_of m v (default_switches @ ds)) \<and>
    ds \<in> {write_config_decls, write_data_decls, write_firmware_decls, read_data_decls, send_command_decls, take_image_decls} \<and>
    (\<forall>a \<in> set (default_switches @ ds). new_arg a) \<and> names_distinct (default_switches @ ds)"
proof -
  consider "cmd = write_config_cmdline" | "cmd = write_data_cmdline" | "cmd = write_firmware_cmdline" |
    "cmd = read_data_cmdline" | "cmd = send_command_cmdline" | "cmd = take_image_cmdline"
    using assms by (auto simp: program_cmdlines_def)
  then show ?thesis
    using write_config_cmdline_eq write_data_cmdline_eq write_firmware_cmdline_eq read_data_cmdline_eq
      send_command_cmdline_eq take_image_cmdline_eq write_config_decls_ok write_data_decls_ok write_firmware_decls_ok
      read_data_decls_ok send_command_decls_ok take_image_decls_ok
    by cases (blast+)
qed

text \<open>
  C33. Every program documents itself completely: for each argument of each of the six programs, except the
  switch that ignores the rest, the usage text, the DocBook page and the zsh completion are all printed and
  all contain its name (up to line breaks).
\<close>

theorem programs_documented:
  assumes "cmd \<in> set program_cmdlines" "cmd = Inr c" "a \<in> set (cl_objs c)" "a_flag a \<noteq> ''-''"
  shows "\<exists>t1 t2 t3 m. usage c = Some t1 \<and> DocBook_usage c = Some t2 \<and> Zsh_usage n c = Some (t3, m) \<and>
    shows_name a t1 \<and> shows_name a t2 \<and> shows_name a t3"
proof -
  obtain ms v ds where c: "c = cmdline_of ms v (default_switches @ ds)" and z: "\<forall>a \<in> set (default_switches @ ds). zsh_ok a"
    and new: "\<forall>a \<in> set (default_switches @ ds). new_arg a"
    using program_cmdlines_decls [OF assms(1)] zsh_ok_decls assms(2) by blast
  have l: "\<forall>a \<in> set (cl_objs c). has_label a" using new by (auto simp: c new_arg_def labeled_has_label)
  have r: "k \<in> set (cl_argList c)" if "k < length (cl_objs c)" for k using that by (simp add: c cmdline_of_def)
  obtain t1 where "usage c = Some t1" using usage_complete [of c] by blast
  moreover obtain t2 where "DocBook_usage c = Some t2" using DocBook_usage_ends by blast
  moreover have "\<forall>r \<in> set (cl_argList c). zsh_ok (cl_objs c ! r)"
    using z nth_mem [of _ "default_switches @ ds"] by (auto simp: c cmdline_of_def)
  then obtain t3 m where "Zsh_usage n c = Some (t3, m)" using Zsh_usage_ends [of c n] by (auto simp: c)
  ultimately show ?thesis
    using std_output.documents_all [OF _ r l assms(3,4)] docbook_output.documents_all [OF _ r l assms(3,4)]
      zsh_output.documents_all [OF _ r l assms(3,4), of n] by fastforce
qed

theorem programs_documented_witness:
  "\<exists>c t1 t2 t3 m. take_image_cmdline = Inr c \<and> usage c = Some t1 \<and> DocBook_usage c = Some t2 \<and> Zsh_usage 1 c = Some (t3, m) \<and>
     shows_name (cl_objs c ! 3) t1 \<and> shows_name (cl_objs c ! 3) t2 \<and> shows_name (cl_objs c ! 3) t3"
proof -
  obtain ms v where c: "take_image_cmdline = Inr (cmdline_of ms v (default_switches @ take_image_decls))"
    using take_image_cmdline_eq by blast
  let ?a = "(default_switches @ take_image_decls) ! 3"
  have "?a \<in> set (default_switches @ take_image_decls)" "a_flag ?a \<noteq> ''-''"
    by (simp_all add: default_switches_def take_image_decls_def decl_defs)
  then show ?thesis using programs_documented [OF _ c, of ?a 1] c by (auto simp: program_cmdlines_def)
qed

text \<open>An instance with the three default switches and a value whose description has brackets.\<close>

theorem DocBook_usage_well_formed_witness:
  "\<exists>page. DocBook_usage (cmdline_of ''a message'' ''0.1'' (default_switches @
       [mk_arg ''p'' ''port'' ''port <of the board>, > 1023'' True True NoVisitor (Value T_int (VNum 0) (VNum 0) ''int'' None)])) =
     Some (docbook_prologue @ page) \<and> markup_ok [] page"
  by (rule DocBook_usage_well_formed)
    (simp_all add: cmdline_of_def default_switches_def mk_arg_def printable_def getDescription_def shortID_def Arg_shortID_def
      flagStartString_def nameStartString_def isRequired_def less_Suc_eq)

end
