(* ===== verification/TclapLifetime.thy ===== *)
theory TclapLifetime
  imports FreeStore
begin

text \<open>
  Who deletes what in \<open>TCLAP::CmdLine\<close>. The constructor allocates an output object and the default
  switches with their visitors; two lists and the flag \<open>_userSetOutput\<close> record what the destructor
  has to delete. A command line gives back exactly what it allocated, whatever
  outputs its user sets, unless the user sets the output it already has.
\<close>

subsection \<open>The free store\<close>

datatype heap_object = An_output | A_visitor | An_arg

type_synonym heap = "heap_object free_store"

definition DelPtr :: "nat \<Rightarrow> heap \<Rightarrow> heap outcome" where
  "DelPtr p h = delete_ptr p h"

fun ClearContainer :: "nat list \<Rightarrow> heap \<Rightarrow> heap outcome" where
  "ClearContainer [] h = Done h"
| "ClearContainer (p # ps) h = obind (DelPtr p h) (ClearContainer ps)"

subsection \<open>The owning members of a command line\<close>

record owner =
  argDeleteOnExitList :: "nat list"
  visitorDeleteOnExitList :: "nat list"
  cmd_output :: nat
  userSetOutput :: bool

definition deleteOnExit_arg :: "nat \<Rightarrow> owner \<Rightarrow> owner" where
  "deleteOnExit_arg ptr cmd = cmd\<lparr>argDeleteOnExitList := argDeleteOnExitList cmd @ [ptr]\<rparr>"

definition deleteOnExit_visitor :: "nat \<Rightarrow> owner \<Rightarrow> owner" where
  "deleteOnExit_visitor ptr cmd = cmd\<lparr>visitorDeleteOnExitList := visitorDeleteOnExitList cmd @ [ptr]\<rparr>"

text \<open>A default switch: its visitor, the argument, and their entries in the two lists.\<close>

definition default_switch :: "owner \<times> heap \<Rightarrow> owner \<times> heap" where
  "default_switch s =
     (let (cmd, h) = s; (v, h1) = new_ptr A_visitor h; (a, h2) = new_ptr An_arg h1
      in (deleteOnExit_visitor v (deleteOnExit_arg a cmd), h2))"

definition owner_constructor :: "bool \<Rightarrow> owner \<Rightarrow> heap \<Rightarrow> owner \<times> heap" where
  "owner_constructor helpAndVersion cmd h =
     (let (out, h1) = new_ptr An_output h;
          s = (cmd\<lparr>cmd_output := out\<rparr>, h1)
      in default_switch (if helpAndVersion then default_switch (default_switch s) else s))"

definition owner_new :: "bool \<Rightarrow> heap \<Rightarrow> owner \<times> heap" where
  "owner_new hv h =
     owner_constructor hv
       \<lparr>argDeleteOnExitList = [], visitorDeleteOnExitList = [], cmd_output = 0, userSetOutput = False\<rparr> h"

definition getOutput :: "owner \<Rightarrow> nat" where
  "getOutput cmd = cmd_output cmd"

definition setOutput :: "nat \<Rightarrow> owner \<Rightarrow> heap \<Rightarrow> (owner \<times> heap) outcome" where
  "setOutput co cmd h =
     obind (if \<not> userSetOutput cmd then DelPtr (cmd_output cmd) h else Done h)
       (\<lambda>h1. Done (cmd\<lparr>userSetOutput := True, cmd_output := co\<rparr>, h1))"

definition owner_delete :: "owner \<Rightarrow> heap \<Rightarrow> heap outcome" where
  "owner_delete cmd h =
     obind (ClearContainer (argDeleteOnExitList cmd) h) (\<lambda>h1.
     obind (ClearContainer (visitorDeleteOnExitList cmd) h1) (\<lambda>h2.
       if \<not> userSetOutput cmd then DelPtr (cmd_output cmd) h2 else Done h2))"

text \<open>A program that sets a number of outputs.\<close>

fun setOutputs :: "nat list \<Rightarrow> owner \<Rightarrow> heap \<Rightarrow> (owner \<times> heap) outcome" where
  "setOutputs [] cmd h = Done (cmd, h)"
| "setOutputs (co # cos) cmd h = obind (setOutput co cmd h) (\<lambda>(cmd', h'). setOutputs cos cmd' h')"

subsection \<open>What a command line owns\<close>

definition owned :: "owner \<Rightarrow> nat list" where
  "owned cmd = argDeleteOnExitList cmd @ visitorDeleteOnExitList cmd @ (if userSetOutput cmd then [] else [cmd_output cmd])"

definition owner_inv :: "owner \<Rightarrow> heap \<Rightarrow> bool" where
  "owner_inv cmd h \<longleftrightarrow> distinct (owned cmd) \<and> 0 \<notin> set (owned cmd) \<and> (\<forall>p \<in> set (owned cmd). objects h p \<noteq> None)"

lemma ClearContainer_eq: "ClearContainer ps h = delete_all ps h"
proof (induction ps arbitrary: h)
  case (Cons p ps)
  have "ClearContainer ps = delete_all ps" using Cons.IH by (rule ext)
  then show ?case by (simp add: DelPtr_def)
qed simp

lemmas ClearContainer_all = delete_all_live [where 'a = heap_object, folded ClearContainer_eq]

lemma owner_delete_all:
  assumes "owner_inv cmd h"
  shows "\<exists>h'. owner_delete cmd h = Done h' \<and> objects h' = without (set (owned cmd)) (objects h)"
proof -
  let ?a = "argDeleteOnExitList cmd" and ?v = "visitorDeleteOnExitList cmd"
  obtain h1 where h1: "ClearContainer ?a h = Done h1" "objects h1 = without (set ?a) (objects h)"
    using ClearContainer_all [of ?a h] assms by (auto simp: owner_inv_def owned_def)
  have "\<forall>p \<in> set ?v. objects h1 p \<noteq> None"
    using assms unfolding h1(2) by (auto simp: owner_inv_def owned_def without_def)
  then obtain h2 where h2: "ClearContainer ?v h1 = Done h2" "objects h2 = without (set ?v) (objects h1)"
    using ClearContainer_all [of ?v h1] assms by (auto simp: owner_inv_def owned_def)
  show ?thesis
  proof (cases "userSetOutput cmd")
    case True
    then show ?thesis using h1 h2 by (auto simp: owner_delete_def owned_def without_def fun_eq_iff)
  next
    case False
    then have "cmd_output cmd \<notin> set ?a" "cmd_output cmd \<notin> set ?v" "cmd_output cmd \<noteq> 0" "objects h (cmd_output cmd) \<noteq> None"
      using assms by (auto simp: owner_inv_def owned_def)
    then obtain h3 where "DelPtr (cmd_output cmd) h2 = Done h3" "objects h3 = (objects h2)(cmd_output cmd := None)"
      using h1(2) h2(2) by (auto simp: DelPtr_def delete_ptr_def without_def)
    then show ?thesis using False h1 h2 by (auto simp: owner_delete_def owned_def without_def fun_eq_iff)
  qed
qed

lemma owner_new_inv:
  assumes "owner_new hv h = (cmd, h1)" "store_ok h"
  shows "owner_inv cmd h1" "without (set (owned cmd)) (objects h1) = objects h" "\<not> userSetOutput cmd"
    "\<forall>p \<in> set (owned cmd). objects h p = None"
proof -
  have n: "0 < next_ptr h" "\<And>p. next_ptr h \<le> p \<Longrightarrow> objects h p = None"
    using assms(2) by (auto simp: store_ok_def)
  note defs = owner_new_def owner_constructor_def default_switch_def new_ptr_def deleteOnExit_arg_def deleteOnExit_visitor_def
  from assms(1) n show "owner_inv cmd h1"
    by (cases hv) (auto simp: defs owner_inv_def owned_def Let_def)
  show "\<not> userSetOutput cmd" using assms(1) by (cases hv) (auto simp: defs Let_def)
  show "\<forall>p \<in> set (owned cmd). objects h p = None"
    using assms(1) by (cases hv) (auto simp: defs owned_def Let_def n)
  then show "without (set (owned cmd)) (objects h1) = objects h"
    using assms(1) by (cases hv) (auto simp: defs owned_def Let_def without_def fun_eq_iff n)
qed

text \<open>A user who sets outputs of his own keeps the rest of the ownership.\<close>

lemma setOutputs_keep:
  assumes "owner_inv cmd h" and "set cos \<inter> set (owned cmd) = {}"
  shows "\<exists>cmd' h'. setOutputs cos cmd h = Done (cmd', h') \<and> owner_inv cmd' h' \<and>
    without (set (owned cmd')) (objects h') = without (set (owned cmd)) (objects h)"
  using assms
proof (induction cos arbitrary: cmd h)
  case (Cons co cos)
  let ?cmd = "cmd\<lparr>userSetOutput := True, cmd_output := co\<rparr>"
  obtain h1 where h1: "setOutput co cmd h = Done (?cmd, h1)" "owner_inv ?cmd h1"
      "without (set (owned ?cmd)) (objects h1) = without (set (owned cmd)) (objects h)"
  proof (cases "userSetOutput cmd")
    case True
    with Cons.prems(1) that [of h] show thesis
      by (auto simp: setOutput_def owner_inv_def owned_def)
  next
    case False
    then have "cmd_output cmd \<noteq> 0" "objects h (cmd_output cmd) \<noteq> None" using Cons.prems(1) by (auto simp: owner_inv_def owned_def)
    let ?h = "h\<lparr>objects := (objects h)(cmd_output cmd := None)\<rparr>"
    have "setOutput co cmd h = Done (?cmd, ?h)"
      using False \<open>objects h (cmd_output cmd) \<noteq> None\<close> \<open>cmd_output cmd \<noteq> 0\<close> by (auto simp: setOutput_def DelPtr_def delete_ptr_def)
    moreover have "owner_inv ?cmd ?h" using False Cons.prems(1) by (auto simp: owner_inv_def owned_def)
    moreover have "without (set (owned ?cmd)) (objects ?h) = without (set (owned cmd)) (objects h)"
      using False by (intro ext) (auto simp: owned_def without_def)
    ultimately show thesis by (rule that)
  qed
  have "set cos \<inter> set (owned ?cmd) = {}" using Cons.prems(2) by (auto simp: owned_def)
  with Cons.IH [OF h1(2)] h1 show ?case by auto
qed simp

text \<open>
  C37. The life of a command line: construction, outputs set by the user, destruction. Nothing is deleted
  twice, and afterwards the free store holds the objects it held before: all that the command line
  allocated is gone, and what belongs to the user is still there.
\<close>

theorem cmdline_gives_back:
  assumes "store_ok h" and "owner_new hv h = (cmd, h1)" and "\<forall>co \<in> set cos. co = 0 \<or> objects h co \<noteq> None"
  shows "\<exists>cmd' h2 h3. setOutputs cos cmd h1 = Done (cmd', h2) \<and> owner_delete cmd' h2 = Done h3 \<and> objects h3 = objects h"
proof -
  note new = owner_new_inv [OF assms(2,1)]
  have "0 \<notin> set (owned cmd)" using new(1) by (simp add: owner_inv_def)
  then have "set cos \<inter> set (owned cmd) = {}" using assms(3) new(4) by force
  from setOutputs_keep [OF new(1) this] obtain cmd' h2 where s: "setOutputs cos cmd h1 = Done (cmd', h2)" "owner_inv cmd' h2"
      "without (set (owned cmd')) (objects h2) = objects h" unfolding new(2) by auto
  then show ?thesis using owner_delete_all [OF s(2)] by auto
qed

theorem cmdline_gives_back_witness:
  "\<exists>cmd' h2 h3. setOutputs [7, 0, 7] (fst (owner_new True \<lparr>objects = [7 \<mapsto> An_output], next_ptr = 8\<rparr>))
      (snd (owner_new True \<lparr>objects = [7 \<mapsto> An_output], next_ptr = 8\<rparr>)) = Done (cmd', h2) \<and>
    owner_delete cmd' h2 = Done h3 \<and> objects h3 = [7 \<mapsto> An_output]"
  using cmdline_gives_back [of "\<lparr>objects = [7 \<mapsto> An_output], next_ptr = 8\<rparr>" True _ _ "[7, 0, 7]"]
  by (auto simp: store_ok_def)

text \<open>
  \<open>setOutput\<close> does not expect the output it already has: \<open>cmd.setOutput(cmd.getOutput())\<close> deletes the
  standard output object and keeps the pointer.
\<close>

theorem setOutput_of_itself:
  assumes "store_ok h" and "owner_new hv h = (cmd, h1)"
  shows "\<exists>cmd' h2. setOutput (getOutput cmd) cmd h1 = Done (cmd', h2) \<and> objects h2 (cmd_output cmd') = None"
proof -
  note new = owner_new_inv [OF assms(2,1)]
  then have "cmd_output cmd \<noteq> 0" "objects h1 (cmd_output cmd) \<noteq> None" by (auto simp: owner_inv_def owned_def)
  then show ?thesis using new(3) by (auto simp: setOutput_def getOutput_def DelPtr_def delete_ptr_def)
qed

theorem setOutput_of_itself_witness:
  "\<exists>cmd' h2. setOutput 1 (fst (owner_new False \<lparr>objects = Map.empty, next_ptr = 1\<rparr>))
      (snd (owner_new False \<lparr>objects = Map.empty, next_ptr = 1\<rparr>)) = Done (cmd', h2) \<and> objects h2 (cmd_output cmd') = None"
proof -
  have "getOutput (fst (owner_new False \<lparr>objects = Map.empty, next_ptr = 1\<rparr>)) = 1"
    by (simp add: getOutput_def owner_new_def owner_constructor_def default_switch_def new_ptr_def
        deleteOnExit_arg_def deleteOnExit_visitor_def)
  then show ?thesis
    using setOutput_of_itself [of "\<lparr>objects = Map.empty, next_ptr = 1\<rparr>" False, OF _ prod.collapse [symmetric]]
    by (auto simp: store_ok_def simp del: One_nat_def)
qed

end
