(* ===== verification/Spec2Isabelle.thy ===== *)
theory Spec2Isabelle
  imports ConfigTable RealNumbers IniReaderHeap ProgramConsole ProgramDocs TclapLifetime
begin

text \<open>
  A verification library for the C++ server of FPGA-Ethernet (\<open>src/server\<close>): the programs that configure an
  ODILE board, send it commands, write its flash memory and receive its data over UDP.

  \<^bold>\<open>The program.\<close> \<open>ODILEServer\<close> (\<open>src/server/src/ODILEServer.cpp\<close>) owns a table of configuration registers
  (\<open>ConfigBlockList\<close>, \<open>ConfigRegisterBlock\<close>), which it reads from INI files through \<open>INIReader\<close> and the parser
  \<open>ini.cpp\<close>, and two UDP clients (\<open>udp_client_server.cpp\<close>). It sends commands and configuration messages, talks
  to the flash memory page by page, and starts threads that copy incoming packets to files. Six programs
  (\<open>src/server/main\<close>) parse their command line with the bundled library TCLAP and work on one \<open>ODILEServer\<close>.

  \<^bold>\<open>The theories,\<close> in the order of the imports:

  \<^item> \<open>Prelude\<close>, \<open>FreeStore\<close>, \<open>CLib\<close>: machine types, byte order, the type \<open>outcome\<close> of code that may return, throw, run into
    undefined behaviour or wait forever; objects with explicit deletes; C strings, \<open>fgets\<close>, \<open>strtol\<close>, number output.
  \<^item> \<open>Ini\<close> (\<open>ini.cpp\<close>), \<open>IniReader\<close> (\<open>INIReader.cpp\<close>): parser and reader. The contract of the callback is the locale
    \<open>ini_handler\<close>, that of \<open>std::set\<close> the locale \<open>ordered_set\<close>. Shown: buffers stay in bounds, the error is the first
    line that the file format or the callback refuses, the reader is consistent, a printed document is read back.
  \<^item> \<open>IniReaderHeap\<close> (\<open>INIReader.cpp\<close>): the reader with its sets on the heap. The locale \<open>handler_simulation\<close> relates two
    callbacks of the parser. Shown: it refines the abstract reader and gives back its memory.
  \<^item> \<open>ConfigRegister\<close>, \<open>ConfigBlocks\<close>, \<open>ConfigTable\<close> (\<open>ConfigRegisterBlock.cpp\<close>, \<open>ConfigBlockList.cpp\<close>): registers,
    blocks, the shipped table. Access by name is the locale \<open>named_items\<close>. Shown: the bytes of the messages, the
    round trip through an INI file, what \<open>readINI\<close> changes, the defects of the table.
  \<^item> \<open>Udp\<close> (\<open>udp_client_server.cpp\<close>): sockets over a model of the system calls; constructors and destructors meet the
    locale \<open>socket_class\<close>. Shown: nothing leaks, datagrams on the wire, \<open>timed_recv\<close> does not wait.
  \<^item> \<open>OdileServer\<close>, \<open>OdileReceive\<close> (\<open>ODILEServer.cpp\<close>): commands, configuration, receiving, waiting for an answer.
  \<^item> \<open>Flash\<close>, \<open>FlashPages\<close>, \<open>Firmware\<close> (\<open>ODILEServer.cpp\<close>): flash writes, configuration pages, firmware. Shown:
    what can be sent at all, that success means verified and -2 means that a page read back differs, that the operations
    succeed on a board that answers, what a board loads from a configuration page, for which the loader in
    \<open>src/config_scanner/config_data_manager.vhd\<close> is modelled.
  \<^item> \<open>IeeeFloat\<close>, \<open>Progress\<close> (\<open>utils.hpp\<close>): \<open>float\<close> and \<open>double\<close>, the progress bar. Shown: rounding is monotone, exact on
    representable numbers and bounded in error; the display does not move back or leave its range.
  \<^item> \<open>RealNumbers\<close> (\<open>INIReader.cpp\<close>): \<open>strtod\<close> and \<open>GetReal\<close>. Shown: decimal numbers are read as the nearest \<open>double\<close>.
  \<^item> \<open>Console\<close> (\<open>ODILEServer.cpp\<close>): what the flash functions print. Shown: forgetting the text gives the functions of
    \<open>Flash\<close>; what a firmware write displays.
  \<^item> \<open>AsyncThreads\<close>, \<open>AsyncCapture\<close> (\<open>ODILEServer.cpp\<close>): receive threads as a step relation over a shared heap. Shown:
    no reachable thread step touches freed memory, and the one field that is read uninitialised; a capture is the list
    of packets delivered, in each of the output formats (refinement); what closing and destroying do.
  \<^item> \<open>Tclap\<close>, \<open>TclapParse\<close>, \<open>TclapSpec\<close>, \<open>TclapRoundtrip\<close> (\<open>include/tclap\<close>): arguments, parsing, exclusive groups. The
    argument classes meet the locale \<open>arg_class\<close>. Shown: the loop ends, invariant and types of the values, required
    arguments, \<open>reset\<close> and what it leaves, rendering and parsing, numbers.
  \<^item> \<open>TclapLifetime\<close> (\<open>CmdLine.h\<close>): the objects a command line owns, over a free store with explicit deletes. Shown: no
    double delete and no leak, whatever outputs are set, and the one exception.
  \<^item> \<open>TclapOutput\<close>, \<open>TclapDocs\<close>, \<open>TclapDocsSpec\<close> (\<open>StdOutput.h\<close>, \<open>DocBookOutput.h\<close>, \<open>ZshCompletionOutput.h\<close>): the texts of the three output
    classes, which meet the locale \<open>usage_output\<close>. Shown: line breaking, that every output documents every labelled
    argument, that the markup is sound for a checker that reads the text alone, that quoting works character by character.
  \<^item> \<open>Programs\<close>, \<open>ProgramArgs\<close>, \<open>ProgramRuns\<close>, \<open>ImageRuns\<close>, \<open>ProgramConsole\<close>, \<open>ProgramDocs\<close> (\<open>main/*.cpp\<close>): command lines,
    options, runs and printed texts of the six programs. Shown: whole runs of \<open>send_command\<close>, \<open>write_data\<close>, \<open>take_image\<close>.
  \<^item> This theory: from a saved configuration to the datagram \<open>write_config\<close> sends.

  \<^bold>\<open>How code becomes definitions.\<close> A class is a record, a method that changes the object returns the new one.
  Operations on the network have type \<open>io\<close>: they get a state \<open>net\<close> with the events the coming receive calls meet, the
  clock readings, and what the system grants, and extend the log \<open>tx\<close> of datagrams sent. Code
  that prints has type \<open>out\<close>, which adds the text. Exceptions of TCLAP are the left side of a sum. Floating point is
  IEEE arithmetic with rounding to nearest, ties to even, as compilers for x86-64 do it by default. Words keep their width (\<open>8\<close>, \<open>16\<close>, \<open>32\<close> bits). A pointer into a C string is an offset; objects
  that are shared (arguments of a command line, argument structures of threads) live in a store.

  \<^bold>\<open>Loops and bounds.\<close> Loops over data recurse on the data. \<open>wait_loop\<close> recurses on the clock readings still to
  come and \<open>Blocks\<close> when they are used up; the liveness theorems say which readings are enough. \<open>count_combined\<close>
  and \<open>space_lines\<close> have a bound on the rounds that \<open>parse_ends\<close> and \<open>spacePrint_wraps\<close> show never to be reached.
  The loops of \<open>TclapDocs\<close> that edit a string in place have the length of the string as their bound, and are shown
  equal to functions without one. \<open>sleep\<close> takes the steps that the threads make meanwhile as an argument.

  \<^bold>\<open>Not modelled.\<close> TCLAP arguments of floating point types, which no program declares. CFITSIO, which is not part of the repository:
  the calls made to it are recorded. Buffering of standard output: text is in the order it was written. The VHDL
  sources of the board, but for the configuration loader in \<open>FlashPages\<close>: the board is the environment of the network model.
\<close>

subsection \<open>From a saved configuration to the wire\<close>

lemma write_config_body_sends:
  assumes "friendly w" and "list_readINI fs f ConfigBlockList_new = (err, l)"
  shows "\<exists>w'. write_config_body fs wr (write_config_initial\<lparr>wc_configFname := f\<rparr>) w = (Done (0, fs, []), w') \<and>
    tx w' = tx w @ [\<lparr>dg_addr = ''192.168.0.3'', dg_port = 0x4268, dg_payload = bytes_of_words (fst (getConfigMessage l))\<rparr>] \<and>
    resources w' = resources w"
  using assms
  by (auto simp: write_config_body_def write_config_initial_def with_server_def with_object_def ODILEServer_new_def
      bind_io_def udp_client_new_def open_socket_def Let_def sendConfigData_file_def readConfigData_once sendConfigData_def
      client_send_words_def client_send_def udp_client_delete_def server_delete_def ret_io_def resources_def
      friendly_def can_open_def split_beta)

text \<open>
  The bytes of the message for a saved list \<open>l\<close>: the registers of the shipped table, in its order
  and at its addresses, each with the value \<open>l\<close> has for it, or the shipped one where the file
  cannot carry the register. Placeholders are left out.
\<close>

definition saved_value :: "ConfigBlockList \<Rightarrow> nat \<Rightarrow> nat \<Rightarrow> u16" where
  "saved_value l k i =
     entry_value (config_entries (cb_blocks (if restored (cb_blocks l ! k) i then l else ConfigBlockList_new) ! k) ! i)"

definition block_payload :: "ConfigRegisterBlock \<Rightarrow> (nat \<Rightarrow> u16) \<Rightarrow> u8 list" where
  "block_payload b val = concat (map (\<lambda>i. [block_address b, entry_address (config_entries b ! i),
       ucast (drop_bit 8 (val i)), ucast (val i)])
     (filter (\<lambda>i. entry_name (config_entries b ! i) \<noteq> ''UNUSED'') [0..<length (config_entries b)]))"

definition saved_payload :: "ConfigBlockList \<Rightarrow> u8 list" where
  "saved_payload l =
     concat (map (\<lambda>k. block_payload (cb_blocks ConfigBlockList_new ! k) (saved_value l k))
       [0..<length (cb_blocks ConfigBlockList_new)])"

lemma block_payload_entries:
  assumes "length es = length (config_entries b)"
    and "\<And>i. i < length es \<Longrightarrow> entry_name (es ! i) = entry_name (config_entries b ! i) \<and>
      entry_address (es ! i) = entry_address (config_entries b ! i) \<and> entry_value (es ! i) = val i"
  shows "concat (map (\<lambda>e. [block_address b, entry_address e, ucast (drop_bit 8 (entry_value e)), ucast (entry_value e)])
      (filter (\<lambda>e. entry_name e \<noteq> ''UNUSED'') es)) = block_payload b val"
proof -
  let ?f = "\<lambda>e. [block_address b, entry_address e, ucast (drop_bit 8 (entry_value e)), ucast (entry_value e)]"
  have "map ?f (filter (\<lambda>e. entry_name e \<noteq> ''UNUSED'') es) =
      map ?f (filter (\<lambda>e. entry_name e \<noteq> ''UNUSED'') (map ((!) es) [0..<length es]))"
    by (simp only: map_nth)
  also have "\<dots> = map (\<lambda>i. ?f (es ! i)) (filter (\<lambda>i. entry_name (es ! i) \<noteq> ''UNUSED'') [0..<length es])"
    by (simp add: filter_map comp_def)
  also have "\<dots> = map (\<lambda>i. [block_address b, entry_address (config_entries b ! i), ucast (drop_bit 8 (val i)), ucast (val i)])
      (filter (\<lambda>i. entry_name (config_entries b ! i) \<noteq> ''UNUSED'') [0..<length (config_entries b)])"
    unfolding assms(1) [symmetric]
    by (rule map_cong [OF filter_cong]) (simp_all add: assms(2))
  finally show ?thesis by (simp add: block_payload_def)
qed

lemma read_list_payload:
  assumes "list_ok l" and "same_shape l ConfigBlockList_new"
    and "list_writeINI fs True f l = (res, fs', l1)" and "list_readINI fs' f ConfigBlockList_new = (err, l2)"
  shows "bytes_of_words (fst (getConfigMessage l2)) = saved_payload l"
proof -
  let ?D = "cb_blocks ConfigBlockList_new" and ?r = "INIReader_new fs' f"
  have wa: "cb_write_all ConfigBlockList_new" by (simp add: ConfigBlockList_new_def)
  have l2: "cb_blocks l2 = map (\<lambda>b. createConfigMessages (block_readINI ?r b) True) ?D" "cb_write_all l2"
    using assms(4) wa by (auto simp: list_readINI_def Let_def)
  have len: "length (cb_blocks l) = length ?D"
    using arg_cong [OF assms(2) [unfolded same_shape_def], of length] by simp
  have lens: "length (config_entries (cb_blocks l ! k)) = length (config_entries (?D ! k))" if "k < length ?D" for k
    using arg_cong [OF assms(2) [unfolded same_shape_def], of "\<lambda>xs. length (snd (xs ! k))"] that len by simp
  have addr: "entry_address (config_entries (block_readINI ?r b) ! i) = entry_address (config_entries b ! i)"
    "entry_name (config_entries (block_readINI ?r b) ! i) = entry_name (config_entries b ! i)"
    if "i < length (config_entries b)" for b i
    using block_readINI_nth [OF that, of ?r] by (simp_all add: Let_def)
  have val: "entry_value (config_entries (block_readINI ?r (?D ! k)) ! i) = saved_value l k i"
    if "k < length ?D" "i < length (config_entries (?D ! k))" for k i
    using read_written_list [OF assms, of k i] that len lens [OF that(1)]
    by (simp add: l2 saved_value_def)
  have low: "\<forall>b \<in> set ?D. \<forall>e \<in> set (config_entries b). unat (entry_address e) < 128"
    by (simp add: ConfigBlockList_new_def)
  have "unat (entry_address e) < 128" if e: "b \<in> set (cb_blocks l2)" "e \<in> set (config_entries b)" for b e
  proof -
    obtain b0 where b0: "b0 \<in> set ?D" "b = createConfigMessages (block_readINI ?r b0) True"
      using e(1) by (auto simp: l2)
    then obtain i where i: "i < length (config_entries b0)" "e = config_entries (block_readINI ?r b0) ! i"
      using e(2) by (auto simp: in_set_conv_nth)
    then show ?thesis using low b0(1) addr(1) [of i b0] nth_mem [of i "config_entries b0"] by simp
  qed
  then have "bytes_of_words (fst (getConfigMessage l2)) =
      concat (map (\<lambda>b. concat (map (\<lambda>e. [block_address b, entry_address e,
          ucast (drop_bit 8 (entry_value e)), ucast (entry_value e)])
        (filter (\<lambda>e. entry_name e \<noteq> ''UNUSED'') (config_entries (block_readINI ?r b))))) ?D)"
    using message_bytes [of l2] l2(2) by (simp add: l2(1) comp_def)
  also have "\<dots> = saved_payload l"
  proof -
    have index: "map g ?D = map (\<lambda>k. g (?D ! k)) [0..<length ?D]" for g :: "ConfigRegisterBlock \<Rightarrow> u8 list"
      by (rule nth_equalityI) simp_all
    show ?thesis
      unfolding saved_payload_def index
      by (rule arg_cong [where f = concat], rule map_cong [OF refl])
        (rule block_payload_entries, simp_all add: addr val)
  qed
  finally show ?thesis .
qed

text \<open>
  C2. A configuration saved with \<open>writeINI\<close> reaches the board: \<open>write_config\<close> with that file sends one
  datagram to the configuration port and gives back all sockets. The datagram holds the registers
  of the shipped table in order, four bytes each: block address, register address and the saved
  value, or the shipped value for the registers no file can carry.
\<close>

theorem write_config_sends_saved_registers:
  assumes "friendly w" and "list_ok l" and "same_shape l ConfigBlockList_new"
    and "list_writeINI fs True f l = (res, fs', l1)"
  shows "\<exists>w'. write_config_body fs' wr (write_config_initial\<lparr>wc_configFname := f\<rparr>) w = (Done (0, fs', []), w') \<and>
    tx w' = tx w @ [\<lparr>dg_addr = ''192.168.0.3'', dg_port = 0x4268, dg_payload = saved_payload l\<rparr>] \<and>
    resources w' = resources w"
proof -
  obtain err l2 where r: "list_readINI fs' f ConfigBlockList_new = (err, l2)"
    by (cases "list_readINI fs' f ConfigBlockList_new")
  show ?thesis
    using write_config_body_sends [OF assms(1) r, of wr] unfolding read_list_payload [OF assms(2-4) r] .
qed

lemma list_ok_changed: "list_ok changed_list"
proof -
  have "block_ok (ADCConfigBlock\<lparr>config_entries := (config_entries ADCConfigBlock)[2 := ADC_CDS_NSkips\<lparr>entry_value := 5\<rparr>]\<rparr>)"
    using adc_block_ok by (rule block_ok_values) simp_all
  then have "\<forall>b \<in> set (cb_blocks changed_list). block_ok b"
    using list_ok_default set_update_subset_insert [of "cb_blocks ConfigBlockList_new"]
    by (fastforce simp: list_ok_def changed_list_def)
  moreover have "map (\<lambda>b. lower (block_name b)) (cb_blocks changed_list) = map (\<lambda>b. lower (block_name b)) (cb_blocks ConfigBlockList_new)"
    by (simp add: changed_list_def map_update ConfigBlockList_new_def)
  ultimately show ?thesis using list_ok_default by (simp add: list_ok_def)
qed

theorem write_config_sends_saved_registers_witness:
  "\<exists>w'. write_config_body (fst (snd (list_writeINI Map.empty True ''a.ini'' changed_list))) True
        (write_config_initial\<lparr>wc_configFname := ''a.ini''\<rparr>) quiet_net =
      (Done (0, fst (snd (list_writeINI Map.empty True ''a.ini'' changed_list)), []), w') \<and>
    tx w' = tx quiet_net @ [\<lparr>dg_addr = ''192.168.0.3'', dg_port = 0x4268, dg_payload = saved_payload changed_list\<rparr>] \<and>
    saved_value changed_list 6 2 = 5"
proof -
  obtain res fs' l1 where w: "list_writeINI Map.empty True ''a.ini'' changed_list = (res, fs', l1)"
    by (cases "list_writeINI Map.empty True ''a.ini'' changed_list")
  have "saved_value changed_list 6 2 = 5"
    by (simp add: saved_value_def changed_list_def ConfigBlockList_new_def restored_def findEntry_def)
  moreover have s: "same_shape changed_list ConfigBlockList_new" using same_shape_changed by (simp add: same_shape_def)
  moreover have "friendly quiet_net" by (simp add: friendly_def can_open_def quiet_net_def)
  ultimately show ?thesis
    using write_config_sends_saved_registers [OF _ list_ok_changed s w, of quiet_net True] unfolding w by auto
qed

end
